(* ===== verification/Kaalm_Prelude.thy ===== *)
theory Kaalm_Prelude
  imports
    Complex_Main
    "HOL-Library.AList"
    "HOL-Library.Char_ord"
    "HOL-Library.List_Lexorder"
    "HOL-Library.Sublist"
begin

text \<open>
  The shared layer of the development: how the values of a Go program are read as HOL values.

  \<^item> A Go map is an association list. The list order stands for the order in which a
    \<^verbatim>\<open>range\<close> loop happens to visit the keys, which Go leaves open, so a fact
    that is proved for every list is proved for every iteration order. Reads, writes and
    deletes are \<open>map_of\<close>, \<open>AList.update\<close> and \<open>AList.delete\<close>; a read of a missing
    numeric key gives the zero value (\<open>gnum\<close>).
  \<^item> \<^verbatim>\<open>float64\<close> amounts are exact rationals. Rounding of the binary format is
    not modelled; truncation to whole numbers and rounding to cents are.
  \<^item> \<^verbatim>\<open>time.Time\<close> is the number of nanoseconds since the Unix epoch (UTC), the
    zero time is \<open>None\<close> of an option, and \<^verbatim>\<open>time.Duration\<close> is a number of
    nanoseconds.
  \<^item> A Go string is a \<open>string\<close>, compared bytewise through the lexicographic order.
  \<^item> JSON text is the value it denotes; \<open>None\<close> is text that is not valid JSON.
\<close>

type_synonym usd = rat
type_synonym gotime = int
type_synonym duration = int
type_synonym uid = string
type_synonym ('k, 'v) gomap = "('k \<times> 'v) list"

named_theorems gomap_simps "reads of a Go map after a write"
named_theorems inv_intros "an operation keeps the invariant of its component"

subsection \<open>Durations and conversions\<close>

abbreviation (input) nanosecond :: duration where "nanosecond \<equiv> 1"
definition second :: duration where "second = 1000000000"
definition minute :: duration where "minute = 60 * second"

lemma second_pos [simp]: "0 < second"
  by (simp add: second_def)

lemma minute_pos [simp]: "0 < minute"
  by (simp add: minute_def second_def)

text \<open>A Go conversion from \<^verbatim>\<open>float64\<close> to an integer type truncates towards zero.\<close>

definition trunc :: "rat \<Rightarrow> int" where
  "trunc x = (if 0 \<le> x then \<lfloor>x\<rfloor> else \<lceil>x\<rceil>)"

lemma trunc_nonneg_mono: "0 \<le> x \<Longrightarrow> x \<le> y \<Longrightarrow> trunc x \<le> trunc y"
  by (simp add: trunc_def floor_mono)

subsection \<open>Go maps as association lists\<close>

text \<open>\<open>m[k]\<close> on a map of amounts: a missing key reads as zero.\<close>

definition gnum :: "('k, rat) gomap \<Rightarrow> 'k \<Rightarrow> rat" where
  "gnum m k = (case map_of m k of None \<Rightarrow> 0 | Some v \<Rightarrow> v)"

text \<open>\<open>m[k] += v\<close>.\<close>

definition gadd :: "'k \<Rightarrow> rat \<Rightarrow> ('k, rat) gomap \<Rightarrow> ('k, rat) gomap" where
  "gadd k v m = AList.update k (gnum m k + v) m"

text \<open>\<open>for k, v := range src { dst[k] += v }\<close>.\<close>

definition gsum_into :: "('k, rat) gomap \<Rightarrow> ('k, rat) gomap \<Rightarrow> ('k, rat) gomap" where
  "gsum_into src dst = fold (\<lambda>(k, v) d. gadd k v d) src dst"

text \<open>The sum of all values, as a \<^verbatim>\<open>range\<close> loop adds them up.\<close>

definition gtotal :: "('k, rat) gomap \<Rightarrow> rat" where
  "gtotal m = fold (\<lambda>(k, v) total. total + v) m 0"

text \<open>What a list of entries adds to one key, counting repeated keys.\<close>

definition gcontrib :: "('k, rat) gomap \<Rightarrow> 'k \<Rightarrow> rat" where
  "gcontrib m k = sum_list (map snd (filter (\<lambda>e. fst e = k) m))"

lemma gnum_Nil [simp]: "gnum [] k = 0"
  by (simp add: gnum_def)

lemma gnum_Cons: "gnum ((k', v) # m) k = (if k = k' then v else gnum m k)"
  by (simp add: gnum_def)

lemma gnum_update [gomap_simps]: "gnum (AList.update k v m) k' = (if k' = k then v else gnum m k')"
  by (simp add: gnum_def update_conv')

lemma gnum_gadd [gomap_simps]: "gnum (gadd k v m) k' = gnum m k' + (if k' = k then v else 0)"
  by (simp add: gadd_def gnum_update)

lemma gmap_of_update [gomap_simps]:
  "map_of (AList.update k v m) k' = (if k' = k then Some v else map_of m k')"
  by (simp add: update_conv')

lemma gmap_of_delete [gomap_simps]:
  "map_of (AList.delete k m) k' = (if k' = k then None else map_of m k')"
  by (simp add: delete_conv')

lemma gcontrib_Nil [simp]: "gcontrib [] k = 0"
  by (simp add: gcontrib_def)

lemma gcontrib_Cons [simp]: "gcontrib ((k', v) # m) k = (if k' = k then v else 0) + gcontrib m k"
  by (simp add: gcontrib_def)

lemma gcontrib_append [simp]: "gcontrib (m @ m') k = gcontrib m k + gcontrib m' k"
  by (simp add: gcontrib_def)

lemma gsum_into_Nil [simp]: "gsum_into [] d = d"
  by (simp add: gsum_into_def)

lemma gsum_into_Cons [simp]: "gsum_into ((k, v) # src) d = gsum_into src (gadd k v d)"
  by (simp add: gsum_into_def)

lemma gnum_gsum_into [gomap_simps]: "gnum (gsum_into src d) k = gnum d k + gcontrib src k"
  by (induction src arbitrary: d) (auto simp: gnum_gadd)

lemma gcontrib_notin: "k \<notin> fst ` set m \<Longrightarrow> gcontrib m k = 0"
  by (induction m) auto

lemma gcontrib_distinct: "distinct (map fst m) \<Longrightarrow> gcontrib m k = gnum m k"
proof (induction m)
  case Nil
  then show ?case by simp
next
  case (Cons e m)
  obtain k' v where e: "e = (k', v)" by (cases e)
  have "k' = k \<Longrightarrow> gcontrib m k = 0"
    using Cons.prems e by (intro gcontrib_notin) auto
  with Cons e show ?case by (auto simp: gnum_Cons)
qed

lemma fold_plus_rat: "fold (\<lambda>(k, v) total. total + v) m (a::rat) = a + sum_list (map snd m)"
  by (induction m arbitrary: a) auto

lemma gtotal_eq: "gtotal m = sum_list (map snd m)"
  by (simp add: gtotal_def fold_plus_rat)

lemma gtotal_Nil [simp]: "gtotal [] = 0"
  by (simp add: gtotal_eq)

lemma gtotal_gadd [gomap_simps]: "gtotal (gadd k v m) = gtotal m + v"
proof -
  have "sum_list (map snd (AList.update k (x + v) m)) = sum_list (map snd m) + v"
    if "map_of m k = Some x \<or> (map_of m k = None \<and> x = 0)" for x
    using that by (induction m) (auto split: if_splits)
  then show ?thesis
    by (auto simp: gtotal_eq gadd_def gnum_def split: option.splits)
qed

lemma gtotal_Cons: "gtotal ((k, v) # m) = v + gtotal m"
  by (simp add: gtotal_eq)

lemma gtotal_gsum_into [gomap_simps]: "gtotal (gsum_into src d) = gtotal d + gtotal src"
  by (induction src arbitrary: d) (auto simp: gtotal_gadd gtotal_Cons)

lemma distinct_gadd [intro]: "distinct (map fst m) \<Longrightarrow> distinct (map fst (gadd k v m))"
  by (simp add: gadd_def distinct_update)

lemma distinct_gsum_into [intro]: "distinct (map fst d) \<Longrightarrow> distinct (map fst (gsum_into src d))"
  by (induction src arbitrary: d) (auto simp: distinct_gadd)

lemma dom_gadd: "fst ` set (gadd k v m) = insert k (fst ` set m)"
  by (simp add: gadd_def dom_update)

lemma dom_gsum_into: "fst ` set (gsum_into src d) = fst ` set d \<union> fst ` set src"
proof (induction src arbitrary: d)
  case Nil
  then show ?case by simp
next
  case (Cons e src)
  then show ?case by (cases e) (auto simp: dom_gadd)
qed

text \<open>The sum of the values whose keys satisfy a predicate.\<close>

definition gwhere :: "('k \<Rightarrow> bool) \<Rightarrow> ('k, rat) gomap \<Rightarrow> rat" where
  "gwhere P m = sum_list (map (\<lambda>(k, v). if P k then v else 0) m)"

lemma gwhere_Nil [simp]: "gwhere P [] = 0"
  by (simp add: gwhere_def)

lemma gwhere_Cons [simp]: "gwhere P ((k, v) # m) = (if P k then v else 0) + gwhere P m"
  by (simp add: gwhere_def)

lemma gwhere_update:
  "gwhere P (AList.update k x m) = gwhere P m + (if P k then x - gnum m k else 0)"
  by (induction m) (auto simp: gnum_Cons)

lemma gwhere_gadd [gomap_simps]: "gwhere P (gadd k v m) = gwhere P m + (if P k then v else 0)"
  by (simp add: gadd_def gwhere_update)

subsection \<open>Strings\<close>

text \<open>\<^verbatim>\<open>strings.CutPrefix\<close> and \<^verbatim>\<open>strings.HasPrefix\<close>.\<close>

fun CutPrefix :: "string \<Rightarrow> string \<Rightarrow> string option" where
  "CutPrefix s [] = Some s"
| "CutPrefix [] (p # ps) = None"
| "CutPrefix (c # s) (p # ps) = (if c = p then CutPrefix s ps else None)"

definition HasPrefix :: "string \<Rightarrow> string \<Rightarrow> bool" where
  "HasPrefix s p \<longleftrightarrow> CutPrefix s p \<noteq> None"

lemma CutPrefix_Some: "CutPrefix s p = Some r \<longleftrightarrow> s = p @ r"
  by (induction s p rule: CutPrefix.induct) auto

lemma CutPrefix_append [simp]: "CutPrefix (p @ r) p = Some r"
  by (simp add: CutPrefix_Some)

lemma CutPrefix_self [simp]: "CutPrefix p p = Some []"
  by (simp add: CutPrefix_Some)

lemma HasPrefix_iff: "HasPrefix s p \<longleftrightarrow> prefix p s"
proof -
  have "CutPrefix s p \<noteq> None \<longleftrightarrow> (\<exists>r. CutPrefix s p = Some r)"
    by auto
  then show ?thesis
    by (simp add: HasPrefix_def CutPrefix_Some prefix_def)
qed

subsection \<open>JSON values\<close>

datatype json =
    JNull
  | JBool bool
  | JNumber rat
  | JString string
  | JArray "json list"
  | JObject "(string \<times> json) list"

type_synonym jsontext = "json option"

text \<open>
  \<^verbatim>\<open>json.Unmarshal\<close> into a \<^verbatim>\<open>map[string]string\<close>: the top level
  is an object or null, a null member decodes to the empty string, any other member that is
  not a string is an error, and the last of several members with one name wins.
\<close>

fun string_member :: "json \<Rightarrow> string option" where
  "string_member (JString s) = Some s"
| "string_member JNull = Some ''''"
| "string_member _ = None"

fun unmarshal_members :: "(string \<times> json) list \<Rightarrow> (string, string) gomap \<Rightarrow> (string, string) gomap option" where
  "unmarshal_members [] m = Some m"
| "unmarshal_members ((k, j) # js) m =
     (case string_member j of None \<Rightarrow> None | Some s \<Rightarrow> unmarshal_members js (AList.update k s m))"

fun unmarshal_strings :: "jsontext \<Rightarrow> (string, string) gomap option" where
  "unmarshal_strings (Some (JObject js)) = unmarshal_members js []"
| "unmarshal_strings (Some JNull) = Some []"
| "unmarshal_strings _ = None"

text \<open>\<^verbatim>\<open>json.Marshal\<close> of a \<^verbatim>\<open>map[string]string\<close> writes the members sorted by name.\<close>

definition marshal_strings :: "(string, string) gomap \<Rightarrow> jsontext" where
  "marshal_strings m = Some (JObject (map (\<lambda>(k, s). (k, JString s)) (sort_key fst m)))"

lemma unmarshal_members_strings:
  "unmarshal_members (map (\<lambda>(k, s). (k, JString s)) m) d = Some (AList.updates (map fst m) (map snd m) d)"
  by (induction m arbitrary: d) auto

lemma updates_map_of: "length ks = length vs \<Longrightarrow>
  map_of (AList.updates ks vs d) k = (map_of d ++ map_of (rev (zip ks vs))) k"
proof (induction ks vs arbitrary: d rule: list_induct2)
  case Nil
  then show ?case by (simp add: map_add_def)
next
  case (Cons a ks b vs)
  then show ?case
    by (auto simp: map_add_def gomap_simps split: option.splits)
qed

lemma zip_fst_snd: "zip (map fst m) (map snd m) = m"
  by (induction m) auto

lemma unmarshal_marshal_strings:
  assumes "distinct (map fst m)"
  shows "\<exists>m'. unmarshal_strings (marshal_strings m) = Some m' \<and> map_of m' = map_of m
    \<and> distinct (map fst m')"
proof -
  let ?s = "sort_key fst m"
  have ds: "distinct (map fst ?s)"
    using assms by (simp add: distinct_map inj_on_def)
  have "map_of (rev ?s) = map_of ?s"
    using ds by (metis map_of_inject_set distinct_rev rev_map set_rev)
  also have "\<dots> = map_of m"
    using ds assms by (metis map_of_inject_set set_sort)
  finally have "map_of (AList.updates (map fst ?s) (map snd ?s) []) = map_of m"
    by (simp add: updates_map_of zip_fst_snd fun_eq_iff)
  moreover have "distinct (map fst (AList.updates (map fst ?s) (map snd ?s) []))"
    by (rule distinct_updates) simp
  ultimately show ?thesis
    by (simp add: marshal_strings_def unmarshal_members_strings)
qed

end
