(* ===== verification/Go_Strconv.thy ===== *)
theory Go_Strconv
  imports Kaalm_Prelude
begin

text \<open>
  The parts of Go's \<^verbatim>\<open>strconv\<close> and \<^verbatim>\<open>fmt\<close> that the budget code uses to write and read
  amounts: decimal digits, \<^verbatim>\<open>FormatFloat(v, 'f', 2, 64)\<close> and
  \<^verbatim>\<open>ParseFloat(s, 64)\<close>. \<open>ParseFloat\<close> covers the decimal syntax; the spellings of
  infinities, NaN and hexadecimal floats, which no rational denotes, are read as errors.
  The last section proves the round trip: what \<open>FormatFloat\<close> writes, \<open>ParseFloat\<close> reads back
  as the amount rounded to cents.
\<close>

subsection \<open>Decimal digits\<close>

definition digit :: "nat \<Rightarrow> char" where
  "digit n = char_of (48 + n)"

definition is_digit :: "char \<Rightarrow> bool" where
  "is_digit c \<longleftrightarrow> 48 \<le> (of_char c :: nat) \<and> (of_char c :: nat) \<le> 57"

definition digit_val :: "char \<Rightarrow> nat" where
  "digit_val c = of_char c - 48"

fun show_nat :: "nat \<Rightarrow> string" where
  "show_nat n = (if n < 10 then [digit n] else show_nat (n div 10) @ [digit (n mod 10)])"

declare show_nat.simps [simp del]

definition digits_val :: "string \<Rightarrow> nat" where
  "digits_val s = foldl (\<lambda>a c. 10 * a + digit_val c) 0 s"

text \<open>\<^verbatim>\<open>%02d\<close> and \<^verbatim>\<open>%04d\<close> of a non-negative number.\<close>

definition pad :: "nat \<Rightarrow> string \<Rightarrow> string" where
  "pad w s = replicate (w - length s) (CHR ''0'') @ s"

definition show_pad :: "nat \<Rightarrow> nat \<Rightarrow> string" where
  "show_pad w n = pad w (show_nat n)"

lemma of_char_digit: "n < 10 \<Longrightarrow> (of_char (digit n) :: nat) = 48 + n"
  by (simp add: digit_def of_char_of)

lemma is_digit_digit [simp]: "n < 10 \<Longrightarrow> is_digit (digit n)"
  by (simp add: is_digit_def of_char_digit)

lemma digit_val_digit [simp]: "n < 10 \<Longrightarrow> digit_val (digit n) = n"
  by (simp add: digit_val_def of_char_digit)

lemma digit_0: "digit 0 = CHR ''0''"
  unfolding digit_def by code_simp

lemma digit_inj: "m < 10 \<Longrightarrow> n < 10 \<Longrightarrow> digit m = digit n \<longleftrightarrow> m = n"
  by (metis digit_val_digit)

lemma digit_less: "m < 10 \<Longrightarrow> n < 10 \<Longrightarrow> digit m < digit n \<longleftrightarrow> m < n"
  by (simp add: less_char_def of_char_digit)

lemma show_nat_nonempty [simp]: "show_nat n \<noteq> []"
  by (subst show_nat.simps) simp

lemma show_nat_digits: "\<forall>c \<in> set (show_nat n). is_digit c"
proof (induction n rule: show_nat.induct)
  case (1 n)
  then show ?case by (subst show_nat.simps) auto
qed

lemma digits_val_snoc [simp]: "digits_val (s @ [c]) = 10 * digits_val s + digit_val c"
  by (simp add: digits_val_def)

lemma digits_val_Nil [simp]: "digits_val [] = 0"
  by (simp add: digits_val_def)

lemma digits_val_show_nat [simp]: "digits_val (show_nat n) = n"
proof (induction n rule: show_nat.induct)
  case (1 n)
  show ?case
  proof (cases "n < 10")
    case True
    then show ?thesis by (subst show_nat.simps) (simp add: digits_val_def)
  next
    case False
    with 1 show ?thesis by (subst show_nat.simps) simp
  qed
qed

lemma show_nat_inj: "show_nat m = show_nat n \<longleftrightarrow> m = n"
  by (metis digits_val_show_nat)

lemma digits_val_zeros: "digits_val (replicate k (CHR ''0'') @ s) = digits_val s"
proof (induction s rule: rev_induct)
  case Nil
  have "digits_val (replicate k (CHR ''0'')) = 0"
  proof (induction k)
    case (Suc k)
    have "replicate (Suc k) (CHR ''0'') = replicate k (CHR ''0'') @ [CHR ''0'']"
      by (simp add: replicate_append_same)
    with Suc show ?case by (simp add: digit_val_def del: replicate.simps)
  qed simp
  then show ?case by simp
next
  case (snoc c s)
  then show ?case by (simp add: append_assoc [symmetric] del: append_assoc)
qed

lemma digits_val_show_pad [simp]: "digits_val (show_pad w n) = n"
  by (simp add: show_pad_def pad_def digits_val_zeros)

lemma show_pad_digits: "\<forall>c \<in> set (show_pad w n). is_digit c"
  using show_nat_digits [of n] by (auto simp: show_pad_def pad_def is_digit_def)

lemma length_show_nat_le: "n < 10 ^ w \<Longrightarrow> 0 < w \<Longrightarrow> length (show_nat n) \<le> w"
proof (induction n arbitrary: w rule: show_nat.induct)
  case (1 n)
  show ?case
  proof (cases "n < 10")
    case True
    with 1 show ?thesis by (subst show_nat.simps) simp
  next
    case False
    with "1.prems" obtain w' where w: "w = Suc w'" "0 < w'"
      by (cases w; cases "w - 1") auto
    with "1.prems" False have "n div 10 < 10 ^ w'"
      by (simp add: div_less_iff_less_mult mult.commute)
    with "1.IH" False w have "length (show_nat (n div 10)) \<le> w'" by blast
    with False w show ?thesis by (subst show_nat.simps) simp
  qed
qed

lemma length_show_pad: "n < 10 ^ w \<Longrightarrow> 0 < w \<Longrightarrow> length (show_pad w n) = w"
  using length_show_nat_le [of n w] by (simp add: show_pad_def pad_def)

lemma show_pad_inj: "show_pad w m = show_pad w n \<longleftrightarrow> m = n"
  by (metis digits_val_show_pad)

subsection \<open>Rounding to cents\<close>

text \<open>\<^verbatim>\<open>FormatFloat\<close> rounds a decimal that falls exactly between two to the even one.\<close>

definition round_half_even :: "rat \<Rightarrow> int" where
  "round_half_even x =
     (let f = \<lfloor>x\<rfloor>; d = x - of_int f
      in if d < 1 / 2 then f else if 1 / 2 < d then f + 1 else if even f then f else f + 1)"

lemma round_half_even_of_int [simp]: "round_half_even (of_int n) = n"
  by (simp add: round_half_even_def)

lemma round_half_even_nonneg: "0 \<le> x \<Longrightarrow> 0 \<le> round_half_even x"
  by (auto simp: round_half_even_def Let_def le_floor_iff)

lemma round_half_even_close: "\<bar>of_int (round_half_even x) - x\<bar> \<le> 1 / 2"
proof -
  define f where "f = \<lfloor>x\<rfloor>"
  have "of_int f \<le> x" "x < of_int f + 1" unfolding f_def by linarith+
  then show ?thesis
    unfolding round_half_even_def Let_def f_def [symmetric] by (auto simp: abs_le_iff)
qed

text \<open>The whole cents an amount is written as, the sign apart.\<close>

definition cents :: "rat \<Rightarrow> nat" where
  "cents v = nat (round_half_even (\<bar>v\<bar> * 100))"

text \<open>The amount the written text denotes.\<close>

definition to_cents :: "rat \<Rightarrow> rat" where
  "to_cents v = (if v < 0 then - (of_nat (cents v) / 100) else of_nat (cents v) / 100)"

definition whole_cents :: "rat \<Rightarrow> bool" where
  "whole_cents v \<longleftrightarrow> v * 100 \<in> \<int>"

lemma of_nat_cents: "(of_nat (cents v) :: rat) = of_int (round_half_even (\<bar>v\<bar> * 100))"
  by (simp add: cents_def round_half_even_nonneg)

lemma to_cents_whole: "whole_cents v \<Longrightarrow> to_cents v = v"
proof -
  assume "whole_cents v"
  then obtain n where n: "v * 100 = of_int n"
    by (auto simp: whole_cents_def elim: Ints_cases)
  then have "\<bar>v\<bar> * 100 = of_int \<bar>n\<bar>"
    by (metis abs_mult abs_numeral of_int_abs)
  then have "of_nat (cents v) = \<bar>v\<bar> * 100"
    by (simp add: of_nat_cents del: of_int_abs)
  then show ?thesis by (simp add: to_cents_def)
qed

lemma whole_cents_add [intro]: "whole_cents a \<Longrightarrow> whole_cents b \<Longrightarrow> whole_cents (a + b)"
  by (simp add: whole_cents_def distrib_right)

lemma whole_cents_0 [simp]: "whole_cents 0"
  by (simp add: whole_cents_def)

lemma whole_cents_to_cents [simp]: "whole_cents (to_cents v)"
  by (simp add: whole_cents_def to_cents_def)

lemma to_cents_close: "\<bar>to_cents v - v\<bar> \<le> 1 / 200"
proof -
  have "\<bar>of_nat (cents v) - \<bar>v\<bar> * 100\<bar> \<le> 1 / 2"
    using round_half_even_close [of "\<bar>v\<bar> * 100"] by (simp add: of_nat_cents)
  then show ?thesis by (auto simp: to_cents_def abs_if field_simps split: if_splits)
qed

subsection \<open>Writing and reading amounts\<close>

definition FormatFloat2 :: "rat \<Rightarrow> string" where
  "FormatFloat2 v =
     (if v < 0 then ''-'' else []) @ show_nat (cents v div 100) @ ''.'' @ show_pad 2 (cents v mod 100)"

text \<open>Beyond this the value rounds to infinity and \<open>ParseFloat\<close> returns \<^verbatim>\<open>ErrRange\<close>.\<close>

definition float_overflow :: rat where
  "float_overflow = 2 ^ 1024 - 2 ^ 970"

fun parse_sign :: "string \<Rightarrow> bool \<times> string" where
  "parse_sign (c # s) =
     (if c = CHR ''-'' then (True, s) else if c = CHR ''+'' then (False, s) else (False, c # s))"
| "parse_sign [] = (False, [])"

definition parse_exponent :: "string \<Rightarrow> int option" where
  "parse_exponent s = (case s of
       [] \<Rightarrow> Some 0
     | c # r \<Rightarrow>
         if c = CHR ''e'' \<or> c = CHR ''E'' then
           (let (neg, d) = parse_sign r
            in if d = [] \<or> (\<exists>x \<in> set d. \<not> is_digit x) then None
               else Some ((if neg then - 1 else 1) * int (digits_val d)))
         else None)"

definition scale10 :: "rat \<Rightarrow> int \<Rightarrow> rat" where
  "scale10 x e = (if 0 \<le> e then x * 10 ^ nat e else x / 10 ^ nat (- e))"

definition ParseFloat :: "string \<Rightarrow> rat option" where
  "ParseFloat s =
     (let (neg, s1) = parse_sign s;
          ip = takeWhile is_digit s1; s2 = dropWhile is_digit s1;
          (fp, s3) = (case s2 of
              c # r \<Rightarrow> if c = CHR ''.'' then (takeWhile is_digit r, dropWhile is_digit r) else ([], s2)
            | [] \<Rightarrow> ([], []))
      in if ip = [] \<and> fp = [] then None
         else case parse_exponent s3 of
             None \<Rightarrow> None
           | Some e \<Rightarrow>
               (let x = scale10 (of_nat (digits_val (ip @ fp))) (e - int (length fp))
                in if float_overflow \<le> x then None else Some (if neg then - x else x)))"

subsection \<open>The round trip\<close>

lemma not_digit_dot [simp]: "\<not> is_digit (CHR ''.'')" and not_digit_minus [simp]: "\<not> is_digit (CHR ''-'')"
  and not_digit_plus [simp]: "\<not> is_digit (CHR ''+'')"
  by (simp_all add: is_digit_def)

lemma digits_val_append: "digits_val (s @ t) = digits_val s * 10 ^ length t + digits_val t"
proof (induction t rule: rev_induct)
  case Nil
  then show ?case by simp
next
  case (snoc c t)
  then show ?case by (simp add: append_assoc [symmetric] del: append_assoc)
qed

lemma takeWhile_digits: "\<forall>c \<in> set s. is_digit c \<Longrightarrow> \<not> is_digit d \<Longrightarrow>
  takeWhile is_digit (s @ d # r) = s \<and> dropWhile is_digit (s @ d # r) = d # r"
  by (simp add: takeWhile_append dropWhile_append)

lemma parse_sign_FormatFloat2: "parse_sign (FormatFloat2 v) =
  (v < 0, show_nat (cents v div 100) @ ''.'' @ show_pad 2 (cents v mod 100))"
proof -
  obtain c s where cs: "show_nat (cents v div 100) = c # s"
    by (cases "show_nat (cents v div 100)") auto
  then have "is_digit c" using show_nat_digits [of "cents v div 100"] by simp
  then have "c \<noteq> CHR ''-''" "c \<noteq> CHR ''+''" by auto
  with cs show ?thesis by (simp add: FormatFloat2_def)
qed

lemma ParseFloat_FormatFloat2:
  assumes "\<bar>to_cents v\<bar> < float_overflow"
  shows "ParseFloat (FormatFloat2 v) = Some (to_cents v)"
proof -
  let ?w = "show_nat (cents v div 100)" and ?f = "show_pad 2 (cents v mod 100)"
  have f2: "length ?f = 2"
    by (rule length_show_pad) simp_all
  have tw: "takeWhile is_digit (?w @ CHR ''.'' # ?f) = ?w" "dropWhile is_digit (?w @ CHR ''.'' # ?f) = CHR ''.'' # ?f"
    using takeWhile_digits [OF show_nat_digits not_digit_dot] by simp_all
  have tf: "takeWhile is_digit ?f = ?f" "dropWhile is_digit ?f = []"
    using show_pad_digits [of 2 "cents v mod 100"] by simp_all
  have val: "digits_val (?w @ ?f) = cents v"
    by (simp add: digits_val_append f2)
  have small: "\<not> float_overflow \<le> of_nat (cents v) / 100"
    using assms by (auto simp: to_cents_def abs_if split: if_splits)
  show ?thesis
    using small
    by (simp add: ParseFloat_def parse_sign_FormatFloat2 tw tf val f2 parse_exponent_def scale10_def to_cents_def)
qed

end
