(* ===== verification/Go_Calendar.thy ===== *)
theory Go_Calendar
  imports Go_Strconv
begin

text \<open>
  The civil calendar behind Go's \<^verbatim>\<open>time\<close> package in UTC: year, month, day and ISO week of
  an instant, and the instant of a civil date. Years are found the way
  \<^verbatim>\<open>time\<close> finds them, by 400, 100, 4 and 1-year cycles; the lemmas characterise the
  result as the one year whose first day is not after the day and whose successor's is.
\<close>

definition nanos_per_day :: int where
  "nanos_per_day = 86400 * second"

lemma nanos_per_day_pos [simp]: "0 < nanos_per_day"
  by (simp add: nanos_per_day_def)

lemma nanos_per_day_neq [simp]: "nanos_per_day \<noteq> 0"
  using nanos_per_day_pos by linarith

text \<open>The day an instant falls on, counted from 1970-01-01.\<close>

definition unix_day :: "gotime \<Rightarrow> int" where
  "unix_day t = t div nanos_per_day"

text \<open>Midnight of a day.\<close>

definition day_start :: "int \<Rightarrow> gotime" where
  "day_start d = d * nanos_per_day"

text \<open>Days from 0001-01-01 to 1970-01-01.\<close>

definition epoch_days :: int where
  "epoch_days = 719162"

definition leap :: "int \<Rightarrow> bool" where
  "leap y \<longleftrightarrow> y mod 4 = 0 \<and> (y mod 100 \<noteq> 0 \<or> y mod 400 = 0)"

text \<open>Days from 0001-01-01 to the first of January of a year.\<close>

definition days_before_year :: "int \<Rightarrow> int" where
  "days_before_year y = 365 * (y - 1) + (y - 1) div 4 - (y - 1) div 100 + (y - 1) div 400"

definition year_days :: "int \<Rightarrow> int" where
  "year_days y = (if leap y then 366 else 365)"

text \<open>The year and the day within it, counted from zero, of a day counted from 0001-01-01.\<close>

definition civil :: "int \<Rightarrow> int \<times> int" where
  "civil a =
     (let n400 = a div 146097; d400 = a mod 146097;
          n100 = min 3 (d400 div 36524); d100 = d400 - 36524 * n100;
          n4 = d100 div 1461; d4 = d100 - 1461 * n4;
          n1 = min 3 (d4 div 365)
      in (400 * n400 + 100 * n100 + 4 * n4 + n1 + 1, d4 - 365 * n1))"

definition year_of :: "int \<Rightarrow> int" where
  "year_of d = fst (civil (d + epoch_days))"

definition year_day :: "int \<Rightarrow> int" where
  "year_day d = snd (civil (d + epoch_days))"

text \<open>The first day of each month, and of the next January, within a year.\<close>

definition month_starts :: "bool \<Rightarrow> int list" where
  "month_starts l = (let k = (if l then 1 else 0) in
     [0, 31, 59 + k, 90 + k, 120 + k, 151 + k, 181 + k, 212 + k, 243 + k, 273 + k, 304 + k, 334 + k, 365 + k])"

definition month_of :: "int \<Rightarrow> nat" where
  "month_of d = length (takeWhile (\<lambda>s. s \<le> year_day d) (month_starts (leap (year_of d))))"

definition month_day :: "int \<Rightarrow> int" where
  "month_day d = year_day d - month_starts (leap (year_of d)) ! (month_of d - 1) + 1"

text \<open>The first day of a month of a year, counted from 1970-01-01.\<close>

definition month_first :: "int \<Rightarrow> nat \<Rightarrow> int" where
  "month_first y m = days_before_year y + month_starts (leap y) ! (m - 1) - epoch_days"

text \<open>0 is Sunday, as in \<^verbatim>\<open>time.Weekday\<close>.\<close>

definition weekday :: "int \<Rightarrow> int" where
  "weekday d = (d + 4) mod 7"

text \<open>\<^verbatim>\<open>ISOWeek\<close>: the year and the number of the week of the Thursday of the day's week.\<close>

definition iso_thursday :: "int \<Rightarrow> int" where
  "iso_thursday d = (let k = 4 - weekday d in d + (if k = 4 then - 3 else k))"

definition iso_week :: "int \<Rightarrow> int \<times> int" where
  "iso_week d = (year_of (iso_thursday d), year_day (iso_thursday d) div 7 + 1)"

subsection \<open>Days and instants\<close>

lemma div_bounds: "0 < (b::int) \<Longrightarrow> b * (x div b) \<le> x \<and> x < b * (x div b) + b"
  using mult_div_mod_eq [of b x] pos_mod_sign [of b x] pos_mod_bound [of b x] by linarith

lemma pos_div_less_iff:
  assumes b: "0 < (b::int)"
  shows "x div b < d \<longleftrightarrow> x < d * b"
proof (cases "x div b < d")
  case True
  then have "b * (x div b + 1) \<le> b * d"
    using b by (intro mult_left_mono) auto
  with True show ?thesis
    using div_bounds [OF b, of x] by (simp add: algebra_simps)
next
  case False
  then have "b * d \<le> b * (x div b)"
    using b by (intro mult_left_mono) auto
  then have "b * d \<le> x"
    using div_bounds [OF b, of x] by linarith
  with False show ?thesis by (simp add: mult.commute [of d b])
qed

lemma unix_day_day_start [simp]: "unix_day (day_start d) = d"
  by (simp add: unix_day_def day_start_def)

lemma unix_day_less_iff: "unix_day t < d \<longleftrightarrow> t < day_start d"
  by (simp add: unix_day_def day_start_def pos_div_less_iff)

lemma unix_day_le_iff: "d \<le> unix_day t \<longleftrightarrow> day_start d \<le> t"
  using unix_day_less_iff [of t d] by linarith

lemma unix_day_mono: "t \<le> t' \<Longrightarrow> unix_day t \<le> unix_day t'"
  by (simp add: unix_day_def zdiv_mono1)

subsection \<open>The year of a day\<close>

lemma div_pred:
  assumes "0 < (b::int)"
  shows "y div b = (y - 1) div b + (if y mod b = 0 then 1 else 0)"
proof (cases "y mod b = 0")
  case True
  have "y - 1 = b * (y div b - 1) + (b - 1)"
    using True mult_div_mod_eq [of b y] by (simp add: algebra_simps)
  then have "(y - 1) div b = y div b - 1"
    by (rule int_div_pos_eq) (use assms in simp_all)
  with True show ?thesis by simp
next
  case False
  have "y - 1 = b * (y div b) + (y mod b - 1)"
    by (simp add: algebra_simps)
  moreover have "0 \<le> y mod b - 1" "y mod b - 1 < b"
    using False pos_mod_sign [OF assms, of y] pos_mod_bound [OF assms, of y] by linarith+
  ultimately have "(y - 1) div b = y div b"
    by (rule int_div_pos_eq)
  with False show ?thesis by simp
qed

lemma mod_cancels: "(y::int) mod 400 = 0 \<Longrightarrow> y mod 100 = 0" "(y::int) mod 100 = 0 \<Longrightarrow> y mod 4 = 0"
proof -
  have "y mod 400 mod 100 = y mod 100" by (rule mod_mod_cancel) simp
  then show "y mod 400 = 0 \<Longrightarrow> y mod 100 = 0" by (simp only: mod_0)
  have "y mod 100 mod 4 = y mod 4" by (rule mod_mod_cancel) simp
  then show "y mod 100 = 0 \<Longrightarrow> y mod 4 = 0" by (simp only: mod_0)
qed

lemma leap_count:
  "(R \<longrightarrow> Q) \<Longrightarrow> (Q \<longrightarrow> P) \<Longrightarrow>
   365 * y + (A + (if P then 1 else 0)) - (B + (if Q then 1 else 0)) + (C + (if R then 1 else 0))
     = 365 * (y - 1) + A - B + C + (if P \<and> (\<not> Q \<or> R) then 366 else (365::int))"
  by (cases P; cases Q; cases R) simp_all

lemma days_before_year_Suc: "days_before_year (y + 1) = days_before_year y + year_days y"
proof -
  define A B C where d: "A = (y - 1) div 4" "B = (y - 1) div 100" "C = (y - 1) div 400"
  define P Q R where m: "P = (y mod 4 = 0)" "Q = (y mod 100 = 0)" "R = (y mod 400 = 0)"
  have s: "y div 4 = A + (if P then 1 else 0)" "y div 100 = B + (if Q then 1 else 0)"
      "y div 400 = C + (if R then 1 else 0)"
    unfolding d m by (rule div_pred, simp)+
  have e1: "days_before_year (y + 1) =
      365 * y + (A + (if P then 1 else 0)) - (B + (if Q then 1 else 0)) + (C + (if R then 1 else 0))"
    unfolding days_before_year_def by (simp only: add_diff_cancel_right' s)
  have e2: "days_before_year y = 365 * (y - 1) + A - B + C"
    unfolding days_before_year_def d by (rule refl)
  have e3: "year_days y = (if P \<and> (\<not> Q \<or> R) then 366 else 365)"
    unfolding year_days_def leap_def m by (rule refl)
  have "R \<longrightarrow> Q" unfolding m by (rule impI, rule mod_cancels(1))
  moreover have "Q \<longrightarrow> P" unfolding m by (rule impI, rule mod_cancels(2))
  ultimately show ?thesis
    unfolding e1 e2 e3 by (rule leap_count)
qed

lemma year_days_bounds: "365 \<le> year_days y" "year_days y \<le> 366"
  by (simp_all add: year_days_def)

lemma days_before_year_step: "days_before_year y < days_before_year (y + 1)"
  using year_days_bounds [of y] by (simp add: days_before_year_Suc)

lemma days_before_year_mono_nat: "days_before_year y \<le> days_before_year (y + int n)"
proof (induction n)
  case (Suc n)
  have "days_before_year (y + int n) < days_before_year (y + int n + 1)"
    by (rule days_before_year_step)
  with Suc show ?case by (simp add: ac_simps)
qed simp

lemma days_before_year_mono: "y \<le> y' \<Longrightarrow> days_before_year y \<le> days_before_year y'"
  using days_before_year_mono_nat [of y "nat (y' - y)"] by simp

lemma days_before_year_less: "y < y' \<Longrightarrow> days_before_year y < days_before_year y'"
  using days_before_year_step [of y] days_before_year_mono [of "y + 1" y'] by simp

lemma cycle_arith:
  fixes a n400 d400 q100 n100 d100 n4 d4 q1 n1 yd :: int
  assumes "a = 146097 * n400 + d400" "0 \<le> d400" "d400 < 146097"
    and "36524 * q100 \<le> d400" "d400 < 36524 * q100 + 36524"
    and n100: "n100 = min 3 q100" "d100 = d400 - 36524 * n100"
    and n4: "1461 * n4 \<le> d100" "d100 < 1461 * n4 + 1461" "d4 = d100 - 1461 * n4"
    and n1: "365 * q1 \<le> d4" "d4 < 365 * q1 + 365" "n1 = min 3 q1" "yd = d4 - 365 * n1"
  shows "a = 146097 * n400 + 36524 * n100 + 1461 * n4 + 365 * n1 + yd"
    and "0 \<le> n100" "n100 \<le> 3" "0 \<le> n4" "n4 \<le> 24" "0 \<le> n1" "n1 \<le> 3" "0 \<le> yd" "yd \<le> 365"
    and "yd = 365 \<Longrightarrow> n1 = 3 \<and> (n4 = 24 \<longrightarrow> n100 = 3)"
proof -
  have b: "0 \<le> n100" "n100 \<le> 3" "0 \<le> d100" "d100 \<le> 36524" "n100 < 3 \<Longrightarrow> d100 < 36524"
    using assms(1-7) by (auto simp: min_def split: if_splits)
  have c: "0 \<le> n4" "n4 \<le> 24" "0 \<le> d4" "d4 < 1461" "n4 = 24 \<Longrightarrow> n100 < 3 \<Longrightarrow> d4 < 1460"
    using b n4 by auto
  have e: "0 \<le> n1" "n1 \<le> 3" "0 \<le> yd" "yd \<le> 365" "n1 < 3 \<Longrightarrow> yd < 365" "yd = 365 \<Longrightarrow> d4 = 1460"
    using c n1 by (auto simp: min_def split: if_splits)
  show "a = 146097 * n400 + 36524 * n100 + 1461 * n4 + 365 * n1 + yd"
    using assms(1) n100(2) n4(3) n1(4) by simp
  show "0 \<le> n100" "n100 \<le> 3" "0 \<le> n4" "n4 \<le> 24" "0 \<le> n1" "n1 \<le> 3" "0 \<le> yd" "yd \<le> 365"
    using b c e by simp_all
  show "n1 = 3 \<and> (n4 = 24 \<longrightarrow> n100 = 3)" if "yd = 365"
  proof -
    have "\<not> n1 < 3" "\<not> (n4 = 24 \<and> n100 < 3)"
      using that e(5,6) c(5) by auto
    then show ?thesis using e(2) b(2) by auto
  qed
qed

lemma cycle_year:
  fixes n400 n100 n4 n1 :: int
  assumes b: "0 \<le> n100" "n100 \<le> 3" "0 \<le> n4" "n4 \<le> 24" "0 \<le> n1" "n1 \<le> 3"
    and y: "y = 400 * n400 + 100 * n100 + 4 * n4 + n1 + 1"
  shows "days_before_year y = 146097 * n400 + 36524 * n100 + 1461 * n4 + 365 * n1"
proof -
  let ?z = "400 * n400 + 100 * n100 + 4 * n4 + n1"
  have "?z div 4 = 100 * n400 + 25 * n100 + n4"
    by (rule int_div_pos_eq [where r = n1]) (use b in auto)
  moreover have "?z div 100 = 4 * n400 + n100"
    by (rule int_div_pos_eq [where r = "4 * n4 + n1"]) (use b in auto)
  moreover have "?z div 400 = n400"
    by (rule int_div_pos_eq [where r = "100 * n100 + 4 * n4 + n1"]) (use b in auto)
  moreover have "y - 1 = ?z" using y by simp
  ultimately have "days_before_year y =
      365 * ?z + (100 * n400 + 25 * n100 + n4) - (4 * n400 + n100) + n400"
    unfolding days_before_year_def by (simp only:)
  then show ?thesis by simp
qed

lemma cycle_leap:
  fixes n400 n100 n4 :: int
  assumes "0 \<le> n4" "n4 \<le> 24" "n4 = 24 \<Longrightarrow> n100 = 3" and y: "y = 400 * n400 + 100 * n100 + 4 * n4 + 3 + 1"
  shows "leap y"
proof (cases "n4 = 24")
  case True
  then have "y = 400 * (n400 + 1)" using y assms(3) by simp
  then have m: "y mod 400 = 0" by (simp only: mod_mult_self1_is_0)
  then have "y mod 4 = 0" by (intro mod_cancels)
  with m show ?thesis by (simp only: leap_def simp_thms)
next
  case False
  have "y = 4 * (100 * n400 + 25 * n100 + n4 + 1)" using y by simp
  then have "y mod 4 = 0" by (simp only: mod_mult_self1_is_0)
  moreover have "y mod 100 = 4 * n4 + 4"
    by (rule int_mod_pos_eq [where q = "4 * n400 + n100"]) (use y False assms in auto)
  then have "y mod 100 \<noteq> 0" using assms(1) by (simp only:)
  ultimately show ?thesis unfolding leap_def by blast
qed

lemma civil_sound:
  assumes "civil a = (y, yd)"
  shows "days_before_year y + yd = a \<and> 0 \<le> yd \<and> yd < year_days y"
proof -
  define n400 d400 where 1: "n400 = a div 146097" "d400 = a mod 146097"
  define q100 where "q100 = d400 div 36524"
  define n100 where 2: "n100 = min 3 q100"
  define d100 where 3: "d100 = d400 - 36524 * n100"
  define n4 where 4: "n4 = d100 div 1461"
  define d4 where 5: "d4 = d100 - 1461 * n4"
  define q1 where "q1 = d4 div 365"
  define n1 where 6: "n1 = min 3 q1"
  have yd: "y = 400 * n400 + 100 * n100 + 4 * n4 + n1 + 1" "yd = d4 - 365 * n1"
    using assms unfolding civil_def Let_def prod.inject 1 2 3 4 5 6 q100_def q1_def by blast+
  have a: "a = 146097 * n400 + d400" "0 \<le> d400" "d400 < 146097"
    unfolding 1 by (simp_all only: mult_div_mod_eq pos_mod_sign pos_mod_bound zero_less_numeral simp_thms)
  note q = div_bounds [of 36524 d400, folded q100_def] div_bounds [of 1461 d100, folded 4]
    div_bounds [of 365 d4, folded q1_def]
  have qs: "36524 * q100 \<le> d400" "d400 < 36524 * q100 + 36524" "1461 * n4 \<le> d100" "d100 < 1461 * n4 + 1461"
    "365 * q1 \<le> d4" "d4 < 365 * q1 + 365"
    using q by simp_all
  note arith = cycle_arith [OF a qs(1,2) 2 3 qs(3,4) 5 qs(5,6) 6 yd(2)]
  have "days_before_year y + yd = a"
    using arith(1) cycle_year [OF arith(2-7) yd(1)] by simp
  moreover have "yd < year_days y"
  proof (cases "yd = 365")
    case False
    then show ?thesis using arith(9) year_days_bounds(1) [of y] by simp
  next
    case True
    then have "leap y"
      using cycle_leap [OF arith(4,5), of n100 y n400] arith(10) yd(1) by simp
    with True show ?thesis by (simp add: year_days_def)
  qed
  ultimately show ?thesis using arith(8) by simp
qed

lemma year_day_eq: "year_day d = d + epoch_days - days_before_year (year_of d)"
  and year_day_nonneg: "0 \<le> year_day d"
  and year_day_less: "year_day d < year_days (year_of d)"
  using civil_sound [of "d + epoch_days" "year_of d" "year_day d"]
  by (simp_all add: year_of_def year_day_def)

lemma year_of_iff:
  "year_of d = y \<longleftrightarrow> days_before_year y \<le> d + epoch_days \<and> d + epoch_days < days_before_year (y + 1)"
proof -
  have own: "days_before_year (year_of d) \<le> d + epoch_days"
    "d + epoch_days < days_before_year (year_of d + 1)"
    using year_day_eq [of d] year_day_nonneg [of d] year_day_less [of d]
    by (simp_all add: days_before_year_Suc)
  show ?thesis
  proof
    assume "days_before_year y \<le> d + epoch_days \<and> d + epoch_days < days_before_year (y + 1)"
    with own have "\<not> y < year_of d" "\<not> year_of d < y"
      using days_before_year_mono [of "y + 1" "year_of d"] days_before_year_mono [of "year_of d + 1" y]
      by auto
    then show "year_of d = y" by simp
  qed (use own in auto)
qed

lemma year_of_mono: "d \<le> d' \<Longrightarrow> year_of d \<le> year_of d'"
proof (rule ccontr)
  assume "d \<le> d'" "\<not> year_of d \<le> year_of d'"
  then have "days_before_year (year_of d' + 1) \<le> days_before_year (year_of d)"
    by (intro days_before_year_mono) simp
  with \<open>d \<le> d'\<close> show False
    using year_of_iff [of d "year_of d"] year_of_iff [of d' "year_of d'"] by simp
qed

end
