(* ===== verification/Budget_Period.thy ===== *)
theory Budget_Period
  imports Go_Calendar
begin

text \<open>
  The budget periods of \<^verbatim>\<open>internal/gateway/budget.go\<close>: \<open>PeriodKey\<close>, the text that tags
  every published figure, and \<open>nextPeriodStart\<close>, the instant a blocked caller is told to wait
  for. Instants from the year 1970 on, and years of up to four digits where the text is
  compared.

  Shown here: \<open>nextPeriodStart\<close> lies after the instant, every instant up to it carries the same
  key, it carries another key itself, and keys compare as texts the way their instants do
  (which the reducer's archive relies on).
\<close>

definition PeriodKey :: "string \<Rightarrow> gotime \<Rightarrow> string" where
  "PeriodKey scheme t =
     (let d = unix_day t
      in if scheme = ''monthly'' then show_pad 4 (nat (year_of d)) @ ''-'' @ show_pad 2 (month_of d)
         else if scheme = ''weekly'' then
           (let (year, week) = iso_week d in show_nat (nat year) @ ''-W'' @ show_pad 2 (nat week))
         else if scheme = ''daily'' then
           show_pad 4 (nat (year_of d)) @ ''-'' @ show_pad 2 (month_of d) @ ''-'' @ show_pad 2 (nat (month_day d))
         else '''')"

definition nextPeriodStart :: "string \<Rightarrow> gotime \<Rightarrow> gotime" where
  "nextPeriodStart scheme t =
     (let d = unix_day t
      in if scheme = ''monthly'' then
           day_start (if month_of d = 12 then month_first (year_of d + 1) 1
                      else month_first (year_of d) (month_of d + 1))
         else if scheme = ''weekly'' then
           (let n = (8 - weekday d) mod 7 in day_start (d + (if n = 0 then 7 else n)))
         else day_start (d + 1))"

definition schemes :: "string set" where
  "schemes = {''monthly'', ''weekly'', ''daily''}"

subsection \<open>Months and weeks\<close>

lemma month_starts_length [simp]: "length (month_starts l) = 13"
  by (simp add: month_starts_def Let_def)

lemma month_starts_ends [simp]: "month_starts l ! 0 = 0" "month_starts (leap y) ! 12 = year_days y"
  by (simp_all add: month_starts_def Let_def year_days_def)

lemma month_starts_less: "i < j \<Longrightarrow> j < 13 \<Longrightarrow> month_starts l ! i < month_starts l ! j"
proof -
  have "sorted_wrt (<) (month_starts l)"
    by (cases l) (simp_all add: month_starts_def)
  then show "i < j \<Longrightarrow> j < 13 \<Longrightarrow> ?thesis"
    by (simp add: sorted_wrt_iff_nth_less)
qed

lemma takeWhile_nthD: "i < length (takeWhile P xs) \<Longrightarrow> P (xs ! i)"
  by (induction xs arbitrary: i) (auto simp: nth_Cons split: if_splits nat.splits)

lemma month_of_bounds: "1 \<le> month_of d \<and> month_of d \<le> 12"
  and month_starts_le: "month_starts (leap (year_of d)) ! (month_of d - 1) \<le> year_day d"
  and month_starts_gr: "year_day d < month_starts (leap (year_of d)) ! month_of d"
proof -
  let ?xs = "month_starts (leap (year_of d))" and ?P = "\<lambda>s. s \<le> year_day d"
  have m: "month_of d = length (takeWhile ?P ?xs)"
    by (simp add: month_of_def)
  have "takeWhile ?P ?xs \<noteq> []"
    using year_day_nonneg [of d] by (simp add: month_starts_def Let_def)
  then have one: "1 \<le> month_of d" by (simp add: m Suc_le_eq)
  have "\<not> 12 < month_of d"
    using takeWhile_nthD [of 12 ?P ?xs] year_day_less [of d] m by auto
  then show b: "1 \<le> month_of d \<and> month_of d \<le> 12" using one by simp
  show "?P (?xs ! (month_of d - 1))"
    using takeWhile_nthD [of "month_of d - 1" ?P ?xs] m one by simp
  show "year_day d < ?xs ! month_of d"
    using nth_length_takeWhile [of ?P ?xs] m b by simp
qed

lemma month_first_le: "month_first (year_of d) (month_of d) \<le> d"
  and month_first_gr: "d < month_first (year_of d) (month_of d + 1)"
  using month_starts_le [of d] month_starts_gr [of d] year_day_eq [of d]
  by (simp_all add: month_first_def)

lemma month_first_13: "month_first y 13 = month_first (y + 1) 1"
  by (simp add: month_first_def days_before_year_Suc)

lemma month_first_mono: "1 \<le> m \<Longrightarrow> m \<le> m' \<Longrightarrow> m' \<le> 13 \<Longrightarrow> month_first y m \<le> month_first y m'"
proof (cases "m = m'")
  case False
  assume "1 \<le> m" "m \<le> m'" "m' \<le> 13"
  with False have "month_starts (leap y) ! (m - 1) < month_starts (leap y) ! (m' - 1)"
    by (intro month_starts_less) auto
  then show ?thesis by (simp add: month_first_def)
qed simp

text \<open>A day lies in the month whose first day is not after it and whose successor's is.\<close>

lemma month_unique:
  assumes "1 \<le> m" "m \<le> 12" "month_first y m \<le> d" "d < month_first y (m + 1)"
  shows "year_of d = y \<and> month_of d = m"
proof -
  have "month_first y 1 \<le> month_first y m" "month_first y (m + 1) \<le> month_first y 13"
    using assms by (intro month_first_mono; simp)+
  then have y: "year_of d = y"
    using assms(3,4) by (simp add: year_of_iff month_first_def days_before_year_Suc)
  have "\<not> month_of d < m" "\<not> m < month_of d"
    using month_first_mono [of "month_of d + 1" m y] month_first_mono [of "m + 1" "month_of d" y]
      month_first_le [of d] month_first_gr [of d] month_of_bounds [of d] assms y by auto
  with y show ?thesis by simp
qed

lemma nextPeriodStart_monthly:
  "nextPeriodStart ''monthly'' t =
     day_start (month_first (year_of (unix_day t)) (month_of (unix_day t) + 1))"
  using month_first_13 [of "year_of (unix_day t)"] by (simp add: nextPeriodStart_def Let_def)

definition week_of :: "int \<Rightarrow> int" where
  "week_of d = (d + 3) div 7"

lemma week_split:
  obtains q r where "d = 7 * q + r - 3" "0 \<le> r" "r < 7" "week_of d = q" "weekday d = (if r = 6 then 0 else r + 1)"
proof -
  define q r where q: "q = (d + 3) div 7" and r: "r = (d + 3) mod 7"
  have "7 * q + r = d + 3" unfolding q r by (rule mult_div_mod_eq)
  then have d: "d = 7 * q + r - 3" by linarith
  have b: "0 \<le> r" "r < 7" unfolding r by (rule pos_mod_sign pos_mod_bound, simp)+
  have "weekday d = (if r = 6 then 0 else r + 1)"
    unfolding weekday_def
    by (rule int_mod_pos_eq [where q = "if r = 6 then q + 1 else q"]) (use d b in auto)
  moreover have "week_of d = q" unfolding week_of_def q by (rule refl)
  ultimately show ?thesis using that d b by blast
qed

lemma iso_thursday_week: "iso_thursday d = 7 * week_of d"
  by (rule week_split [of d]) (auto simp: iso_thursday_def Let_def)

lemma nextPeriodStart_weekly: "nextPeriodStart ''weekly'' t = day_start (7 * (week_of (unix_day t) + 1) - 3)"
proof -
  obtain q r where d: "unix_day t = 7 * q + r - 3" "0 \<le> r" "r < 7" and w: "week_of (unix_day t) = q"
    and wd: "weekday (unix_day t) = (if r = 6 then 0 else r + 1)"
    by (rule week_split)
  have "(8 - weekday (unix_day t)) mod 7 = (if r = 0 then 0 else 7 - r)"
    by (rule int_mod_pos_eq [where q = "if r = 6 \<or> r = 0 then 1 else 0"]) (use d wd in auto)
  then show ?thesis using d w by (auto simp: nextPeriodStart_def Let_def)
qed

lemma week_unique: "7 * q - 3 \<le> d \<Longrightarrow> d < 7 * (q + 1) - 3 \<Longrightarrow> week_of d = q"
  unfolding week_of_def by (rule int_div_pos_eq [where r = "d + 3 - 7 * q"]) auto

lemma week_of_le: "7 * week_of d - 3 \<le> d" and week_of_gr: "d < 7 * (week_of d + 1) - 3"
  by (rule week_split [of d]; simp)+

lemma nextPeriodStart_daily: "nextPeriodStart ''daily'' t = day_start (unix_day t + 1)"
  by (simp add: nextPeriodStart_def Let_def)

subsection \<open>The period an instant belongs to\<close>

text \<open>The first day of the next period, for the three schemes.\<close>

definition next_day :: "string \<Rightarrow> int \<Rightarrow> int" where
  "next_day scheme d = unix_day (nextPeriodStart scheme (day_start d))"

lemma next_day_simps:
  "next_day ''monthly'' d = month_first (year_of d) (month_of d + 1)"
  "next_day ''weekly'' d = 7 * (week_of d + 1) - 3"
  "next_day ''daily'' d = d + 1"
  by (simp_all add: next_day_def nextPeriodStart_monthly nextPeriodStart_weekly nextPeriodStart_daily)

lemma nextPeriodStart_day: "scheme \<in> schemes \<Longrightarrow> nextPeriodStart scheme t = day_start (next_day scheme (unix_day t))"
  by (auto simp: schemes_def next_day_simps nextPeriodStart_monthly nextPeriodStart_weekly nextPeriodStart_daily)

lemma next_day_gr: "scheme \<in> schemes \<Longrightarrow> d < next_day scheme d"
  using month_first_gr [of d] week_of_gr [of d] by (auto simp: schemes_def next_day_simps)

lemma same_period_day:
  assumes "scheme \<in> schemes" "d \<le> d'" "d' < next_day scheme d"
  shows "(scheme = ''monthly'' \<longrightarrow> year_of d' = year_of d \<and> month_of d' = month_of d)
    \<and> (scheme = ''weekly'' \<longrightarrow> week_of d' = week_of d) \<and> (scheme = ''daily'' \<longrightarrow> d' = d)"
proof -
  have "scheme = ''monthly'' \<Longrightarrow> year_of d' = year_of d \<and> month_of d' = month_of d"
    using month_unique [of "month_of d" "year_of d" d'] month_of_bounds [of d] month_first_le [of d] assms
    by (simp add: next_day_simps)
  moreover have "scheme = ''weekly'' \<Longrightarrow> week_of d' = week_of d"
    using week_unique [of "week_of d" d'] week_of_le [of d] assms by (simp add: next_day_simps)
  moreover have "scheme = ''daily'' \<Longrightarrow> d' = d"
    using assms by (simp add: next_day_simps)
  ultimately show ?thesis by blast
qed

lemma PeriodKey_constant:
  assumes s: "scheme \<in> schemes" and "t \<le> t'" "t' < nextPeriodStart scheme t"
  shows "PeriodKey scheme t' = PeriodKey scheme t"
proof -
  have "unix_day t \<le> unix_day t'" "unix_day t' < next_day scheme (unix_day t)"
    using assms by (simp_all add: unix_day_mono unix_day_less_iff nextPeriodStart_day)
  note same = same_period_day [OF s this]
  show ?thesis
    using s same by (auto simp: schemes_def PeriodKey_def iso_week_def iso_thursday_week Let_def)
qed

lemma nextPeriodStart_after: "scheme \<in> schemes \<Longrightarrow> t < nextPeriodStart scheme t"
  by (simp add: nextPeriodStart_day next_day_gr flip: unix_day_less_iff)

subsection \<open>Keys as texts\<close>

lemma append_less_iff:
  "length a = length b \<Longrightarrow> a @ x < b @ y \<longleftrightarrow> a < b \<or> (a = b \<and> x < (y :: 'a::linorder list))"
  by (induction a b rule: list_induct2) auto

lemma show_pad_Suc:
  assumes "0 < w" "n < 10 ^ Suc w"
  shows "show_pad (Suc w) n = show_pad w (n div 10) @ [digit (n mod 10)]"
proof (cases "n < 10")
  case True
  then have "show_nat n = [digit n]" "show_nat 0 = [digit 0]" by (simp_all add: show_nat.simps)
  then show ?thesis
    using True assms(1)
    by (simp add: show_pad_def pad_def digit_0 replicate_append_same flip: replicate_Suc)
next
  case False
  then show ?thesis by (simp add: show_pad_def pad_def show_nat.simps [of n])
qed

lemma show_pad_less: "0 < w \<Longrightarrow> m < n \<Longrightarrow> n < 10 ^ w \<Longrightarrow> show_pad w m < show_pad w n"
proof (induction w arbitrary: m n)
  case (Suc w)
  show ?case
  proof (cases "w = 0")
    case True
    with Suc.prems show ?thesis
      by (simp add: show_pad_def pad_def show_nat.simps digit_less)
  next
    case False
    have len: "length (show_pad w (m div 10)) = length (show_pad w (n div 10))"
      using Suc.prems False by (simp add: length_show_pad div_less_iff_less_mult mult.commute)
    have "m div 10 < n div 10 \<or> (m div 10 = n div 10 \<and> m mod 10 < n mod 10)"
      using Suc.prems(2) by (metis div_le_mono div_mult_mod_eq le_neq_implies_less less_imp_le nat_add_left_cancel_less)
    moreover have "n div 10 < 10 ^ w"
      using Suc.prems by (simp add: div_less_iff_less_mult mult.commute)
    ultimately show ?thesis
      using Suc False len by (auto simp: show_pad_Suc append_less_iff digit_less)
  qed
qed simp

lemma show_pad_le: "0 < w \<Longrightarrow> m \<le> n \<Longrightarrow> n < 10 ^ w \<Longrightarrow> show_pad w m \<le> show_pad w n"
  using show_pad_less [of w m n] by (cases "m = n") auto

lemma show_nat_pad: "10 ^ w \<le> n \<Longrightarrow> n < 10 ^ Suc w \<Longrightarrow> show_nat n = show_pad (Suc w) n"
proof (induction w arbitrary: n)
  case 0
  then show ?case by (simp add: show_pad_def pad_def show_nat.simps [of n])
next
  case (Suc w)
  have "10 ^ w \<le> n div 10"
    using div_le_mono [OF Suc.prems(1), of 10] by simp
  moreover have "n div 10 < 10 ^ Suc w"
    using Suc.prems(2) by (intro less_mult_imp_div_less) simp
  moreover have "10 ^ 1 \<le> (10::nat) ^ Suc w" by (intro power_increasing) auto
  then have "10 ^ 1 \<le> n" using Suc.prems(1) by (rule order_trans)
  then have "\<not> n < 10" by simp
  ultimately show ?case
    using Suc.IH [of "n div 10"] Suc.prems(2) by (simp add: show_nat.simps [of n] show_pad_Suc)
qed

subsection \<open>Keys follow the clock\<close>

text \<open>The instants whose period keys have a four-digit year, one year of slack for ISO weeks apart.\<close>

definition modern :: "gotime \<Rightarrow> bool" where
  "modern t \<longleftrightarrow> 1970 \<le> year_of (unix_day t) \<and> year_of (unix_day t) \<le> 9998"

lemma month_order:
  assumes "month_first (year_of d) (month_of d + 1) \<le> d'"
  shows "year_of d < year_of d' \<or> (year_of d = year_of d' \<and> month_of d < month_of d')"
proof -
  have "d \<le> d'" using month_first_gr [of d] assms by simp
  then have y: "year_of d \<le> year_of d'" by (rule year_of_mono)
  have "month_of d < month_of d'" if "year_of d = year_of d'"
  proof (rule ccontr)
    assume "\<not> month_of d < month_of d'"
    then have "month_first (year_of d) (month_of d' + 1) \<le> month_first (year_of d) (month_of d + 1)"
      using month_of_bounds [of d] by (intro month_first_mono) auto
    then show False using month_first_gr [of d'] that assms by simp
  qed
  with y show ?thesis by linarith
qed

lemma day_order:
  assumes "d < d'"
  shows "year_of d < year_of d' \<or> (year_of d = year_of d' \<and> (month_of d < month_of d' \<or>
    (month_of d = month_of d' \<and> month_day d < month_day d')))"
proof (cases "month_first (year_of d) (month_of d + 1) \<le> d'")
  case True
  then show ?thesis using month_order by blast
next
  case False
  then have "year_of d' = year_of d \<and> month_of d' = month_of d"
    using month_unique [of "month_of d" "year_of d" d'] month_of_bounds [of d] month_first_le [of d] assms by simp
  moreover from this have "month_day d < month_day d'"
    using assms year_day_eq [of d] year_day_eq [of d'] by (simp add: month_day_def)
  ultimately show ?thesis by simp
qed

lemma month_day_bounds: "1 \<le> month_day d \<and> month_day d < 100"
proof -
  have "list_all (\<lambda>m. month_starts True ! m - month_starts True ! (m - 1) < 99) [1..<13]"
    "list_all (\<lambda>m. month_starts False ! m - month_starts False ! (m - 1) < 99) [1..<13]"
    by code_simp+
  then have "month_starts l ! m - month_starts l ! (m - 1) < 99" if "1 \<le> m" "m \<le> 12" for l m
    using that by (cases l) (simp_all add: list_all_iff)
  from this [of "month_of d" "leap (year_of d)"] show ?thesis
    using month_starts_le [of d] month_starts_gr [of d] month_of_bounds [of d] by (simp add: month_day_def)
qed

lemma iso_week_order:
  assumes "7 * (week_of d + 1) - 3 \<le> d'"
  shows "fst (iso_week d) < fst (iso_week d') \<or>
    (fst (iso_week d) = fst (iso_week d') \<and> snd (iso_week d) < snd (iso_week d'))"
proof -
  let ?t = "7 * week_of d" and ?t' = "7 * week_of d'"
  have w: "week_of d + 1 \<le> week_of d'"
    using assms week_of_gr [of d'] by simp
  then have y: "year_of ?t \<le> year_of ?t'" by (intro year_of_mono) simp
  have "year_day ?t div 7 < year_day ?t' div 7" if "year_of ?t = year_of ?t'"
  proof -
    have "year_day ?t + 7 \<le> year_day ?t'"
      using that w year_day_eq [of ?t] year_day_eq [of ?t'] by simp
    then have "(year_day ?t + 7) div 7 \<le> year_day ?t' div 7" by (rule zdiv_mono1) simp
    then show ?thesis by simp
  qed
  with y show ?thesis by (auto simp: iso_week_def iso_thursday_week)
qed

lemma iso_week_bounds: "1 \<le> snd (iso_week d) \<and> snd (iso_week d) < 100"
proof -
  let ?n = "year_day (iso_thursday d)"
  have "0 \<le> ?n" "?n < 366"
    using year_day_nonneg [of "iso_thursday d"] year_day_less [of "iso_thursday d"]
      year_days_bounds(2) [of "year_of (iso_thursday d)"] by simp_all
  then have "0 div 7 \<le> ?n div 7" "?n div 7 \<le> 366 div 7"
    by (intro zdiv_mono1; simp)+
  then show ?thesis by (simp add: iso_week_def)
qed

lemma iso_year_bounds:
  assumes "modern t"
  shows "1000 \<le> fst (iso_week (unix_day t)) \<and> fst (iso_week (unix_day t)) < 10000"
proof -
  let ?d = "unix_day t" and ?t = "7 * week_of (unix_day t)"
  let ?y = "year_of (unix_day t)"
  have b: "?d - 3 \<le> ?t" "?t \<le> ?d + 3"
    using week_of_le [of ?d] week_of_gr [of ?d] by simp_all
  have "days_before_year ?y \<le> ?d + epoch_days" "?d + epoch_days < days_before_year (?y + 1)"
    using year_of_iff [of ?d ?y] by simp_all
  moreover have "days_before_year (?y - 1) + 365 \<le> days_before_year ?y"
    using days_before_year_Suc [of "?y - 1"] year_days_bounds [of "?y - 1"] by simp
  moreover have "days_before_year (?y + 1) + 365 \<le> days_before_year (?y + 2)"
    using days_before_year_Suc [of "?y + 1"] year_days_bounds [of "?y + 1"] by (simp add: add.assoc)
  ultimately have "days_before_year (?y - 1) \<le> ?t + epoch_days" "?t + epoch_days < days_before_year (?y + 2)"
    using b by simp_all
  then have "\<not> year_of ?t < ?y - 1" "\<not> ?y + 1 < year_of ?t"
    using days_before_year_mono [of "year_of ?t + 1" "?y - 1"] days_before_year_mono [of "?y + 2" "year_of ?t"]
      year_of_iff [of ?t "year_of ?t"] by auto
  then show ?thesis
    using assms by (simp add: iso_week_def iso_thursday_week modern_def)
qed

lemma length_year: "0 \<le> y \<Longrightarrow> y < 10000 \<Longrightarrow> length (show_pad 4 (nat y)) = 4"
  by (rule length_show_pad) auto

lemma show_year: "1000 \<le> y \<Longrightarrow> y < 10000 \<Longrightarrow> show_nat (nat y) = show_pad 4 (nat y)"
  using show_nat_pad [of 3 "nat y"] by (simp add: le_nat_iff nat_less_iff)

lemma PeriodKey_less:
  assumes s: "scheme \<in> schemes" and m: "modern t" "modern t'" and "nextPeriodStart scheme t \<le> t'"
  shows "PeriodKey scheme t < PeriodKey scheme t'"
proof -
  let ?d = "unix_day t" and ?d' = "unix_day t'"
  have nd: "next_day scheme ?d \<le> ?d'"
    using assms by (simp add: nextPeriodStart_day unix_day_le_iff)
  have y4: "length (show_pad 4 (nat (year_of ?d))) = length (show_pad 4 (nat (year_of ?d')))"
    using m by (simp add: modern_def length_year)
  have m2: "length (show_pad 2 (month_of ?d)) = length (show_pad 2 (month_of ?d'))"
    using month_of_bounds [of ?d] month_of_bounds [of ?d'] by (simp add: length_show_pad)
  have yl: "year_of ?d < year_of ?d' \<Longrightarrow> show_pad 4 (nat (year_of ?d)) < show_pad 4 (nat (year_of ?d'))"
    using m by (intro show_pad_less) (auto simp: modern_def)
  have ml: "month_of ?d < month_of ?d' \<Longrightarrow> show_pad 2 (month_of ?d) < show_pad 2 (month_of ?d')"
    using month_of_bounds [of ?d'] by (intro show_pad_less) auto
  from s consider "scheme = ''monthly''" | "scheme = ''weekly''" | "scheme = ''daily''"
    by (auto simp: schemes_def)
  then show ?thesis
  proof cases
    case 1
    then have "year_of ?d < year_of ?d' \<or> (year_of ?d = year_of ?d' \<and> month_of ?d < month_of ?d')"
      using nd by (intro month_order) (simp add: next_day_simps)
    with 1 show ?thesis
      using yl ml y4 by (auto simp: PeriodKey_def Let_def append_less_iff)
  next
    case 2
    let ?y = "nat (fst (iso_week ?d))" and ?y' = "nat (fst (iso_week ?d'))"
    have four: "show_nat ?y = show_pad 4 ?y" "show_nat ?y' = show_pad 4 ?y'"
      using iso_year_bounds [OF m(1)] iso_year_bounds [OF m(2)] by (simp_all add: show_year)
    have "fst (iso_week ?d) < fst (iso_week ?d') \<or>
        (fst (iso_week ?d) = fst (iso_week ?d') \<and> snd (iso_week ?d) < snd (iso_week ?d'))"
      using nd 2 by (intro iso_week_order) (simp add: next_day_simps)
    moreover have "fst (iso_week ?d) < fst (iso_week ?d') \<Longrightarrow> show_pad 4 ?y < show_pad 4 ?y'"
      using iso_year_bounds [OF m(1)] iso_year_bounds [OF m(2)] by (intro show_pad_less) auto
    moreover have "snd (iso_week ?d) < snd (iso_week ?d') \<Longrightarrow>
        show_pad 2 (nat (snd (iso_week ?d))) < show_pad 2 (nat (snd (iso_week ?d')))"
      using iso_week_bounds [of ?d] iso_week_bounds [of ?d'] by (intro show_pad_less) auto
    moreover have "length (show_pad 4 ?y) = length (show_pad 4 ?y')"
      using iso_year_bounds [OF m(1)] iso_year_bounds [OF m(2)] by (simp add: length_year)
    ultimately show ?thesis
      using 2 four by (auto simp: PeriodKey_def Let_def append_less_iff split: prod.splits)
  next
    case 3
    have "?d < ?d'" using nd 3 by (simp add: next_day_simps)
    then have "year_of ?d < year_of ?d' \<or> (year_of ?d = year_of ?d' \<and> (month_of ?d < month_of ?d' \<or>
        (month_of ?d = month_of ?d' \<and> month_day ?d < month_day ?d')))"
      by (rule day_order)
    moreover have "month_day ?d < month_day ?d' \<Longrightarrow>
        show_pad 2 (nat (month_day ?d)) < show_pad 2 (nat (month_day ?d'))"
      using month_day_bounds [of ?d] month_day_bounds [of ?d'] by (intro show_pad_less) auto
    ultimately show ?thesis
      using 3 yl ml y4 m2 by (auto simp: PeriodKey_def Let_def append_less_iff)
  qed
qed

lemma PeriodKey_mono:
  assumes "scheme \<in> schemes" "modern t" "modern t'" "t \<le> t'"
  shows "PeriodKey scheme t \<le> PeriodKey scheme t'"
  using PeriodKey_less [OF assms(1-3)] PeriodKey_constant [OF assms(1,4)]
  by (cases "nextPeriodStart scheme t \<le> t'") auto

lemma PeriodKey_empty_iff: "PeriodKey scheme t = '''' \<longleftrightarrow> scheme \<notin> schemes"
  by (auto simp: PeriodKey_def schemes_def Let_def split: prod.splits)

subsection \<open>Properties\<close>

text \<open>
  C13. A budget period is exactly the time until its roll-over: from any instant of a scheme's
  period up to \<^verbatim>\<open>nextPeriodStart\<close> the period key stays the same, and at that instant
  it changes to a key that is greater as text, for every date whose year has four digits.
\<close>

theorem period_window:
  assumes "scheme \<in> schemes" "modern t" "modern (nextPeriodStart scheme t)"
  shows "t < nextPeriodStart scheme t
    \<and> (\<forall>t'. t \<le> t' \<and> t' < nextPeriodStart scheme t \<longrightarrow> PeriodKey scheme t' = PeriodKey scheme t)
    \<and> PeriodKey scheme t < PeriodKey scheme (nextPeriodStart scheme t)"
  using assms nextPeriodStart_after [OF assms(1)] PeriodKey_constant [OF assms(1)]
    PeriodKey_less [OF assms(1-3)]
  by auto

theorem period_window_witness:
  "PeriodKey ''weekly'' 0 = ''1970-W01'' \<and> nextPeriodStart ''weekly'' 0 = 4 * 86400 * second \<and>
   PeriodKey ''weekly'' 0 < PeriodKey ''weekly'' (nextPeriodStart ''weekly'' 0)"
proof -
  have "''weekly'' \<in> schemes" "modern 0" "modern (nextPeriodStart ''weekly'' 0)"
    by (simp add: schemes_def, code_simp, code_simp)
  note w = period_window [OF this]
  show ?thesis
  proof (intro conjI)
    show "PeriodKey ''weekly'' 0 = ''1970-W01''" by code_simp
    show "nextPeriodStart ''weekly'' 0 = 4 * 86400 * second" by code_simp
    show "PeriodKey ''weekly'' 0 < PeriodKey ''weekly'' (nextPeriodStart ''weekly'' 0)" using w by blast
  qed
qed

end
