(* ===== verification/Go_Path.thy ===== *)
theory Go_Path
  imports Kaalm_Prelude
begin

text \<open>
  Go's \<^verbatim>\<open>path.Match\<close>, which decides every namespace and image allowlist of the system.
  The definitions follow the standard library's own code (\<open>scanChunk\<close>, \<open>matchChunk\<close>,
  \<open>getEsc\<close>) over one-byte characters, the alphabet of namespace and image names. The result
  \<open>None\<close> is \<^verbatim>\<open>ErrBadPattern\<close>.

  The lemmas: a pattern is malformed or not whatever the name (\<open>Match_malformed_iff\<close>), a
  pattern without special characters matches exactly itself, and a literal prefix followed by
  a star matches exactly the names with that prefix and no slash after it.
\<close>

subsection \<open>Character classes\<close>

fun getEsc :: "string \<Rightarrow> (char \<times> string) option" where
  "getEsc [] = None"
| "getEsc (c # chunk) =
     (if c = CHR ''-'' \<or> c = CHR '']'' then None
      else if c = CHR 0x5C then
        (case chunk of
           r # nchunk \<Rightarrow> if nchunk = [] then None else Some (r, nchunk)
         | [] \<Rightarrow> None)
      else if chunk = [] then None else Some (c, chunk))"

lemma getEsc_length: "getEsc chunk = Some (r, n) \<Longrightarrow> length n < length chunk \<and> n \<noteq> []"
  by (cases chunk) (auto split: if_splits list.splits)

text \<open>
  The loop over the ranges of a class: \<open>seen\<close> is \<open>nrange > 0\<close>, \<open>m\<close> whether a range so far
  contains the rune \<open>r\<close>. The result is the rest of the chunk after the closing bracket.
\<close>

function classRanges :: "string \<Rightarrow> char \<Rightarrow> bool \<Rightarrow> bool \<Rightarrow> (string \<times> bool) option" where
  "classRanges chunk r seen m =
     (if chunk \<noteq> [] \<and> hd chunk = CHR '']'' \<and> seen then Some (tl chunk, m)
      else case getEsc chunk of
          None \<Rightarrow> None
        | Some (lo, c1) \<Rightarrow>
            if hd c1 = CHR ''-'' then
              (case getEsc (tl c1) of
                 None \<Rightarrow> None
               | Some (hi, c2) \<Rightarrow> classRanges c2 r True (m \<or> lo \<le> r \<and> r \<le> hi))
            else classRanges c1 r True (m \<or> lo \<le> r \<and> r \<le> lo))"
  by pat_completeness auto
termination
proof (relation "measure (\<lambda>(chunk, _). length chunk)", goal_cases)
  case (2 chunk r seen m p lo c1 q hi c2)
  then have "length c2 < length (tl c1)" "length c1 < length chunk"
    using getEsc_length by blast+
  then show ?case by simp
next
  case (3 chunk r seen m p lo c1)
  then have "length c1 < length chunk"
    using getEsc_length by blast
  then show ?case by simp
qed simp

declare classRanges.simps [simp del]

lemma classRanges_length: "classRanges chunk r seen m = Some (rest, m') \<Longrightarrow> length rest < length chunk"
proof (induction chunk r seen m rule: classRanges.induct)
  case (1 chunk r seen m)
  show ?case
  proof (cases "chunk \<noteq> [] \<and> hd chunk = CHR '']'' \<and> seen")
    case True
    with "1.prems" have "rest = tl chunk" by (simp add: classRanges.simps [of chunk])
    with True show ?thesis by simp
  next
    case False
    with "1.prems" obtain lo c1 where lo: "getEsc chunk = Some (lo, c1)"
      by (auto simp: classRanges.simps [of chunk] split: option.splits)
    then have c1: "length c1 < length chunk" by (simp add: getEsc_length)
    show ?thesis
    proof (cases "hd c1 = CHR ''-''")
      case True
      with "1.prems" False lo obtain hi c2 where hi: "getEsc (tl c1) = Some (hi, c2)"
        and r: "classRanges c2 r True (m \<or> lo \<le> r \<and> r \<le> hi) = Some (rest, m')"
        by (auto simp: classRanges.simps [of chunk] split: option.splits)
      have "length c2 < length (tl c1)" by (rule getEsc_length [OF hi, THEN conjunct1])
      moreover have "length rest < length c2"
        by (rule "1.IH"(1) [OF False lo refl True hi refl r])
      ultimately show ?thesis using c1 by simp
    next
      case nd: False
      with "1.prems" False lo have "classRanges c1 r True (m \<or> lo \<le> r \<and> r \<le> lo) = Some (rest, m')"
        by (simp add: classRanges.simps [of chunk])
      then have "length rest < length c1"
        by (rule "1.IH"(2) [OF False lo refl nd])
      then show ?thesis using c1 by simp
    qed
  qed
qed

subsection \<open>Matching one chunk\<close>

text \<open>
  \<open>matchChunk chunk s failed\<close>: \<open>None\<close> is a malformed chunk, \<open>Some None\<close> no match, and
  \<open>Some (Some rest)\<close> a match with what is left of the name. After a failure the chunk is
  still read to its end, for its syntax.
\<close>

function matchChunk :: "string \<Rightarrow> string \<Rightarrow> bool \<Rightarrow> string option option" where
  "matchChunk [] s failed = Some (if failed then None else Some s)"
| "matchChunk (c # chunk) s failed0 =
     (let failed = failed0 \<or> s = [] in
      if c = CHR ''['' then
        (let r = (if failed then CHR 0x00 else hd s);
             s' = (if failed then s else tl s);
             negated = (chunk \<noteq> [] \<and> hd chunk = CHR ''^'');
             chunk' = (if negated then tl chunk else chunk)
         in case classRanges chunk' r False False of
              None \<Rightarrow> None
            | Some (rest, m) \<Rightarrow> matchChunk rest s' (failed \<or> m = negated))
      else if c = CHR ''?'' then
        (if failed then matchChunk chunk s True
         else matchChunk chunk (tl s) (hd s = CHR ''/''))
      else if c = CHR 0x5C then
        (case chunk of
           [] \<Rightarrow> None
         | l # rest \<Rightarrow> if failed then matchChunk rest s True else matchChunk rest (tl s) (l \<noteq> hd s))
      else if failed then matchChunk chunk s True else matchChunk chunk (tl s) (c \<noteq> hd s))"
  by pat_completeness auto
termination
proof (relation "measure (\<lambda>(chunk, _). length chunk)", goal_cases)
  case (2 c chunk s failed0 failed r s' negated chunk' p rest m)
  then have "length rest < length chunk'"
    by (auto dest: classRanges_length)
  moreover have "length chunk' \<le> length chunk"
    using 2 by simp
  ultimately show ?case by simp
qed auto

declare matchChunk.simps(2) [simp del]

subsection \<open>Splitting off a chunk and the match loop\<close>

text \<open>\<open>esc\<close> marks that the character before was a backslash, whose successor is taken as it is.\<close>

fun scan :: "bool \<Rightarrow> bool \<Rightarrow> string \<Rightarrow> string \<times> string" where
  "scan esc inrange [] = ([], [])"
| "scan esc inrange (c # p) =
     (if \<not> esc \<and> c = CHR ''*'' \<and> \<not> inrange then ([], c # p)
      else map_prod ((#) c) id
        (if esc then scan False inrange p
         else if c = CHR 0x5C then scan True inrange p
         else if c = CHR ''['' then scan False True p
         else if c = CHR '']'' then scan False False p
         else scan False inrange p))"

definition scanChunk :: "string \<Rightarrow> bool \<times> string \<times> string" where
  "scanChunk pattern =
     (let rest = dropWhile (\<lambda>c. c = CHR ''*'') pattern
      in (pattern \<noteq> [] \<and> hd pattern = CHR ''*'', scan False False rest))"

lemma scan_length: "length (fst (scan e b p)) + length (snd (scan e b p)) = length p"
  by (induction e b p rule: scan.induct) auto

lemma scan_nonempty: "p \<noteq> [] \<Longrightarrow> hd p \<noteq> CHR ''*'' \<Longrightarrow> fst (scan e b p) \<noteq> []"
  by (cases p) auto

lemma dropWhile_hd: "p \<noteq> [] \<Longrightarrow> P (hd p) \<Longrightarrow> length (dropWhile P p) < length p"
  using length_dropWhile_le [of P "tl p"] by (cases p) auto

lemma scanChunk_length:
  assumes "scanChunk pattern = (star, chunk, rest)" "pattern \<noteq> []"
  shows "length rest < length pattern"
proof -
  let ?d = "dropWhile (\<lambda>c. c = CHR ''*'') pattern"
  have sc: "scan False False ?d = (chunk, rest)"
    using assms(1) by (simp add: scanChunk_def)
  then have len: "length chunk + length rest = length ?d"
    using scan_length [of False False ?d] by simp
  show ?thesis
  proof (cases "hd pattern = CHR ''*''")
    case True
    then have "length ?d < length pattern"
      using assms(2) by (intro dropWhile_hd) auto
    with len show ?thesis by simp
  next
    case False
    then have "?d = pattern" using assms(2) by (cases pattern) auto
    moreover from this have "chunk \<noteq> []"
      using scan_nonempty [OF assms(2) False, of False False] sc by simp
    ultimately show ?thesis using len by (cases chunk) auto
  qed
qed

text \<open>The search of a starred chunk: skip one more byte at a time, never over a slash.\<close>

fun starSearch :: "string \<Rightarrow> bool \<Rightarrow> string \<Rightarrow> string option option" where
  "starSearch chunk islast [] = Some None"
| "starSearch chunk islast (c # name) =
     (if c = CHR ''/'' then Some None
      else case matchChunk chunk name False of
          None \<Rightarrow> None
        | Some None \<Rightarrow> starSearch chunk islast name
        | Some (Some t) \<Rightarrow> if islast \<and> t \<noteq> [] then starSearch chunk islast name else Some (Some t))"

text \<open>Before a mismatch is reported, the rest of the pattern is checked for its syntax.\<close>

function wellFormedRest :: "string \<Rightarrow> bool" where
  "wellFormedRest pattern =
     (if pattern = [] then True
      else case scanChunk pattern of (_, chunk, rest) \<Rightarrow>
        matchChunk chunk [] False \<noteq> None \<and> wellFormedRest rest)"
  by pat_completeness auto
termination
  by (relation "measure length") (auto dest: scanChunk_length [OF sym])

declare wellFormedRest.simps [simp del]

function Match :: "string \<Rightarrow> string \<Rightarrow> bool option" where
  "Match pattern name =
     (if pattern = [] then Some (name = [])
      else case scanChunk pattern of (star, chunk, rest) \<Rightarrow>
        if star \<and> chunk = [] then Some (CHR ''/'' \<notin> set name)
        else
          (let mismatch = (if wellFormedRest rest then Some False else None)
           in case matchChunk chunk name False of
                None \<Rightarrow> None
              | Some r \<Rightarrow>
                  (case (if r \<noteq> None \<and> (the r = [] \<or> rest \<noteq> []) then Some r
                         else if star then starSearch chunk (rest = []) name
                         else Some None) of
                     None \<Rightarrow> None
                   | Some None \<Rightarrow> mismatch
                   | Some (Some t) \<Rightarrow> Match rest t)))"
  by pat_completeness auto
termination
  by (relation "measure (\<lambda>(p, _). length p)") (auto dest: scanChunk_length [OF sym])

declare Match.simps [simp del]

subsection \<open>A pattern is malformed whatever the name\<close>

lemma classRanges_rest:
  "map_option fst (classRanges chunk r seen m) = map_option fst (classRanges chunk r' seen m')"
proof (induction chunk r seen m arbitrary: m' rule: classRanges.induct)
  case (1 chunk r seen m)
  show ?case
  proof (cases "(chunk \<noteq> [] \<and> hd chunk = CHR '']'' \<and> seen) \<or> getEsc chunk = None")
    case True
    then show ?thesis by (auto simp: classRanges.simps [of chunk])
  next
    case False
    then obtain lo c1 where lo: "getEsc chunk = Some (lo, c1)"
      and nb: "\<not> (chunk \<noteq> [] \<and> hd chunk = CHR '']'' \<and> seen)" by auto
    show ?thesis
    proof (cases "hd c1 = CHR ''-''")
      case True
      then show ?thesis
        using "1.IH"(1) [OF nb lo refl True _ refl] lo nb
        by (cases "getEsc (tl c1)") (auto simp: classRanges.simps [of chunk])
    next
      case nd: False
      then show ?thesis
        using "1.IH"(2) [OF nb lo refl nd] lo nb by (auto simp: classRanges.simps [of chunk])
    qed
  qed
qed

lemma classRanges_other_rune:
  assumes "classRanges chunk r seen m = c"
  obtains m'' where "classRanges chunk r' seen m' = map_option (\<lambda>(rest, _). (rest, m'')) c"
proof -
  have "map_option fst (classRanges chunk r' seen m') = map_option fst c"
    using classRanges_rest [of chunk r seen m r' m'] assms by simp
  then show ?thesis
    using that by (cases c; cases "classRanges chunk r' seen m'") auto
qed

text \<open>The syntax check of a chunk, with no name to read.\<close>

definition wfChunk :: "string \<Rightarrow> bool" where
  "wfChunk chunk \<longleftrightarrow> matchChunk chunk [] True \<noteq> None"

abbreviation classBody :: "string \<Rightarrow> string" where
  "classBody chunk \<equiv> (if chunk \<noteq> [] \<and> hd chunk = CHR ''^'' then tl chunk else chunk)"

lemma wfChunk_class: "wfChunk (CHR ''['' # chunk) \<longleftrightarrow>
  (case classRanges (classBody chunk) (CHR 0x00) False False of None \<Rightarrow> False | Some (rest, _) \<Rightarrow> wfChunk rest)"
  by (auto simp: wfChunk_def matchChunk.simps(2) Let_def split: option.splits)

lemma wfChunk_any: "wfChunk (CHR ''?'' # chunk) \<longleftrightarrow> wfChunk chunk"
  by (auto simp: wfChunk_def matchChunk.simps(2))

lemma wfChunk_esc: "wfChunk (CHR 0x5C # chunk) \<longleftrightarrow> (case chunk of [] \<Rightarrow> False | l # rest \<Rightarrow> wfChunk rest)"
  by (auto simp: wfChunk_def matchChunk.simps(2) split: list.splits)

lemma wfChunk_lit: "c \<noteq> CHR ''['' \<Longrightarrow> c \<noteq> CHR ''?'' \<Longrightarrow> c \<noteq> CHR 0x5C \<Longrightarrow>
  wfChunk (c # chunk) \<longleftrightarrow> wfChunk chunk"
  by (auto simp: wfChunk_def matchChunk.simps(2))

lemma matchChunk_malformed: "matchChunk chunk s f = None \<longleftrightarrow> \<not> wfChunk chunk"
proof (induction chunk s f rule: matchChunk.induct)
  case (1 s f)
  then show ?case by (simp add: wfChunk_def)
next
  case (2 c chunk s f)
  consider (cls) "c = CHR ''[''" | (any) "c = CHR ''?''" | (esc) "c = CHR 0x5C"
    | (lit) "c \<noteq> CHR ''[''" "c \<noteq> CHR ''?''" "c \<noteq> CHR 0x5C" by blast
  then show ?case
  proof cases
    case cls
    let ?r = "if f \<or> s = [] then CHR 0x00 else hd s"
    obtain m'' where other: "classRanges (classBody chunk) (CHR 0x00) False False =
        map_option (\<lambda>(rest, _). (rest, m'')) (classRanges (classBody chunk) ?r False False)"
      using classRanges_other_rune [OF refl] by blast
    show ?thesis
    proof (cases "classRanges (classBody chunk) ?r False False")
      case None
      with other show ?thesis
        by (simp add: cls wfChunk_class matchChunk.simps(2) Let_def del: if_split)
    next
      case (Some p)
      obtain rest m where p: "p = (rest, m)" by (cases p)
      have "matchChunk rest (if f \<or> s = [] then s else tl s)
          ((f \<or> s = []) \<or> m = (chunk \<noteq> [] \<and> hd chunk = CHR ''^'')) = None \<longleftrightarrow> \<not> wfChunk rest"
        by (rule "2.IH"(1) [OF refl cls refl refl refl refl]) (simp_all add: Some p del: if_split)
      with Some p other show ?thesis
        by (simp add: cls wfChunk_class matchChunk.simps(2) Let_def del: if_split)
    qed
  next
    case any
    then show ?thesis
      using "2.IH"(2,3) [OF refl _ any] by (auto simp: matchChunk.simps(2) Let_def wfChunk_any)
  next
    case esc
    then show ?thesis
      using "2.IH"(4,5) [OF refl _ _ esc] by (auto simp: matchChunk.simps(2) Let_def wfChunk_esc split: list.splits)
  next
    case lit
    then show ?thesis
      using "2.IH"(6,7) [OF refl lit] by (auto simp: matchChunk.simps(2) Let_def wfChunk_lit)
  qed
qed

lemma starSearch_malformed: "wfChunk chunk \<Longrightarrow> starSearch chunk l name \<noteq> None"
proof (induction chunk l name rule: starSearch.induct)
  case (2 chunk l c name)
  then have "matchChunk chunk name False \<noteq> None"
    by (simp add: matchChunk_malformed)
  with 2 show ?case by (auto split: option.splits)
qed simp

lemma scanChunk_empty: "scanChunk pattern = (star, [], rest) \<Longrightarrow> rest = []"
proof -
  assume "scanChunk pattern = (star, [], rest)"
  then have sc: "scan False False (dropWhile (\<lambda>c. c = CHR ''*'') pattern) = ([], rest)"
    by (simp add: scanChunk_def)
  show ?thesis
  proof (cases "dropWhile (\<lambda>c. c = CHR ''*'') pattern")
    case Nil
    with sc show ?thesis by simp
  next
    case (Cons c p)
    then have "c \<noteq> CHR ''*''" by (simp add: dropWhile_eq_Cons_conv)
    with Cons sc show ?thesis using scan_nonempty [of "c # p" False False] by simp
  qed
qed

lemma Match_malformed: "Match pattern name = None \<longleftrightarrow> \<not> wellFormedRest pattern"
proof (induction pattern name rule: Match.induct)
  case (1 pattern name)
  show ?case
  proof (cases "pattern = []")
    case True
    then show ?thesis by (simp add: Match.simps wellFormedRest.simps)
  next
    case False
    obtain star chunk rest where sc: "scanChunk pattern = (star, chunk, rest)"
      by (cases "scanChunk pattern") auto
    have wf: "wellFormedRest pattern \<longleftrightarrow> wfChunk chunk \<and> wellFormedRest rest"
      using False sc by (simp add: wellFormedRest.simps [of pattern] matchChunk_malformed)
    show ?thesis
    proof (cases "star \<and> chunk = []")
      case True
      then have "rest = []" using sc scanChunk_empty by blast
      with True False sc wf show ?thesis by (simp add: Match.simps [of pattern] wellFormedRest.simps [of "[]"] wfChunk_def)
    next
      case ns: False
      show ?thesis
      proof (cases "matchChunk chunk name False")
        case None
        then have "\<not> wfChunk chunk" by (simp add: matchChunk_malformed)
        with None False sc ns wf show ?thesis by (simp add: Match.simps [of pattern])
      next
        case (Some r)
        let ?next = "if r \<noteq> None \<and> (the r = [] \<or> rest \<noteq> []) then Some r
                     else if star then starSearch chunk (rest = []) name else Some None"
        have ok: "wfChunk chunk"
          using Some matchChunk_malformed [of chunk name False] by simp
        have "?next \<noteq> None" using starSearch_malformed [OF ok] by auto
        then obtain q where q: "?next = Some q" by blast
        have M: "Match pattern name = (case q of
            None \<Rightarrow> if wellFormedRest rest then Some False else None | Some t \<Rightarrow> Match rest t)"
          using False sc ns Some q by (auto simp: Match.simps [of pattern])
        have IH: "q = Some t \<Longrightarrow> Match rest t = None \<longleftrightarrow> \<not> wellFormedRest rest" for t
          using "1.IH" [OF False sc [symmetric] refl ns refl Some q] by blast
        show ?thesis using M IH wf ok by (cases q) auto
      qed
    qed
  qed
qed

theorem Match_malformed_iff: "Match pattern name = None \<longleftrightarrow> Match pattern name' = None"
  by (simp add: Match_malformed)

subsection \<open>Literal patterns and literal prefixes\<close>

definition literal :: "string \<Rightarrow> bool" where
  "literal p \<longleftrightarrow> set p \<inter> {CHR ''*'', CHR ''?'', CHR ''['', CHR 0x5C} = {}"

lemma matchChunk_literal:
  "literal chunk \<Longrightarrow> matchChunk chunk s f = Some (if f then None else CutPrefix s chunk)"
proof (induction chunk arbitrary: s f)
  case Nil
  then show ?case by simp
next
  case (Cons c chunk)
  then have "literal chunk" by (simp add: literal_def)
  with Cons show ?case
    by (cases s) (auto simp: matchChunk.simps(2) Let_def literal_def)
qed

lemma scan_literal:
  "literal p \<Longrightarrow> scan False b p = (p, []) \<and> scan False False (p @ ''*'') = (p, ''*'')"
  by (induction p arbitrary: b) (auto simp: literal_def)

lemma scanChunk_literal:
  assumes "literal p" "p \<noteq> []"
  shows "scanChunk p = (False, p, []) \<and> scanChunk (p @ ''*'') = (False, p, ''*'')"
proof -
  have "hd p \<noteq> CHR ''*''"
    using assms by (cases p) (auto simp: literal_def)
  with assms show ?thesis
    using scan_literal [OF assms(1)] by (cases p) (auto simp: scanChunk_def)
qed

lemma scanChunk_star: "scanChunk ''*'' = (True, [], [])"
  by (simp add: scanChunk_def)

theorem Match_literal: "literal p \<Longrightarrow> Match p name = Some (name = p)"
proof (cases "p = []")
  case False
  assume "literal p"
  then show ?thesis
    using False
    by (auto simp: Match.simps [of p] scanChunk_literal matchChunk_literal wellFormedRest.simps [of "[]"]
        Match.simps [of "[]"] CutPrefix_Some split: option.splits)
qed (simp add: Match.simps)

lemma Match_star: "Match ''*'' name = Some (CHR ''/'' \<notin> set name)"
  by (simp add: Match.simps [of "''*''"] scanChunk_star)

theorem Match_prefix:
  assumes "literal p"
  shows "Match (p @ ''*'') name = Some (\<exists>r. name = p @ r \<and> CHR ''/'' \<notin> set r)"
proof (cases "p = []")
  case True
  then show ?thesis by (simp add: Match_star)
next
  case False
  have "wellFormedRest ''*''"
    by (simp add: wellFormedRest.simps [of "''*''"] scanChunk_star wellFormedRest.simps [of "[]"])
  then have "Match (p @ ''*'') name = (case CutPrefix name p of None \<Rightarrow> Some False | Some r \<Rightarrow> Match ''*'' r)"
    using scanChunk_literal [OF assms False]
    by (simp add: Match.simps [of "p @ ''*''"] matchChunk_literal [OF assms] split: option.split)
  then show ?thesis
    by (cases "CutPrefix name p") (auto simp: Match_star CutPrefix_Some)
qed

end
