(* ===== verification/Api_Types.thy ===== *)
theory Api_Types
  imports Kaalm_Prelude Go_Path
begin

text \<open>
  The custom resources as the modelled code reads them (\<^verbatim>\<open>src/api/v1beta1\<close>): a
  ModelProvider with its catalog, budget, rate limits and fallback edges, the provider formats
  a fallback edge may join (rule 12), the namespace admission of a class or a provider, and the
  host lists of rules 46 and 50.

  A Go pointer field is an option and a Go slice a list. Decimal amounts stay strings, because
  the code parses them where it uses them.
\<close>

subsection \<open>ModelProvider\<close>

record ModelProviderModel =
  ID :: string
  DisplayName :: string
  CostPer1MInputTokens :: string
  CostPer1MOutputTokens :: string
  MaxOutputTokens :: "int option"

record ModelProviderBudgetPolicy =
  AtPercent :: int
  Action :: string
  DegradeTo :: "string option"

record ModelProviderBudgetHard =
  BoundaryMarginPercent :: int

record ModelProviderBudget =
  Period :: string
  PerNamespaceUSD :: string
  Policies :: "ModelProviderBudgetPolicy list"
  ClusterUSD :: "string option"
  Enforcement :: string
  Hard :: "ModelProviderBudgetHard option"

record ModelProviderRateLimits =
  RequestsPerMinute :: int
  TokensPerMinute :: int

record FallbackReference =
  ref_Name :: string
  ModelMap :: "(string, string) gomap"

record ModelProviderHealthCheck =
  Enabled :: bool
  IntervalSeconds :: int
  TimeoutSeconds :: int

record SecretKeyReference =
  secret_Name :: string
  secret_Key :: string

record ModelProviderSpec =
  Type :: string
  Endpoint :: string
  CredentialsRef :: SecretKeyReference
  Models :: "ModelProviderModel list"
  AllowedNamespaces :: "string list"
  Budget :: ModelProviderBudget
  RateLimits :: ModelProviderRateLimits
  Fallback :: "FallbackReference list"
  HealthCheck :: "ModelProviderHealthCheck option"

text \<open>Of the object's metadata the code reads the name and the UID.\<close>

record ModelProvider =
  Name :: string
  UID :: uid
  Spec :: ModelProviderSpec

abbreviation budget_of :: "ModelProvider \<Rightarrow> ModelProviderBudget" where
  "budget_of provider \<equiv> Budget (Spec provider)"

abbreviation period_of :: "ModelProvider \<Rightarrow> string" where
  "period_of provider \<equiv> Period (Budget (Spec provider))"

text \<open>The budget actions and the enforcement mode (\<^verbatim>\<open>constants.go\<close>).\<close>

definition BudgetActionBlock :: string where "BudgetActionBlock = ''block''"
definition BudgetActionWarn :: string where "BudgetActionWarn = ''warn''"
definition BudgetActionDegrade :: string where "BudgetActionDegrade = ''degrade''"
definition BudgetEnforcementHard :: string where "BudgetEnforcementHard = ''hard''"

lemmas budget_constants = BudgetActionBlock_def BudgetActionWarn_def BudgetActionDegrade_def
  BudgetEnforcementHard_def

subsection \<open>Provider formats\<close>

definition ProviderTypeAnthropic :: string where "ProviderTypeAnthropic = ''anthropic''"
definition ProviderTypeOpenAI :: string where "ProviderTypeOpenAI = ''openai''"
definition ProviderTypeOpenAICompatible :: string where "ProviderTypeOpenAICompatible = ''openai-compatible''"
definition ProviderTypeGoogleVertex :: string where "ProviderTypeGoogleVertex = ''google-vertex''"

lemmas provider_types = ProviderTypeAnthropic_def ProviderTypeOpenAI_def
  ProviderTypeOpenAICompatible_def ProviderTypeGoogleVertex_def

definition ProviderFormat :: "string \<Rightarrow> string" where
  "ProviderFormat providerType =
     (if providerType = ProviderTypeOpenAICompatible then ProviderTypeOpenAI else providerType)"

definition translatableFormat :: "string \<Rightarrow> bool" where
  "translatableFormat providerType \<longleftrightarrow>
     providerType \<in> {ProviderTypeAnthropic, ProviderTypeOpenAI, ProviderTypeOpenAICompatible}"

definition FallbackFormatCompatible :: "string \<Rightarrow> string \<Rightarrow> bool" where
  "FallbackFormatCompatible parent child \<longleftrightarrow>
     (if parent = child then True else translatableFormat parent \<and> translatableFormat child)"

definition FallbackCrossesFormat :: "string \<Rightarrow> string \<Rightarrow> bool" where
  "FallbackCrossesFormat parent child \<longleftrightarrow> ProviderFormat parent \<noteq> ProviderFormat child"

text \<open>
  The compatible edges form an equivalence, so compatibility along each edge of a fallback
  chain gives compatibility of its two ends; and an edge that needs translation joins
  Anthropic's format with OpenAI's.
\<close>

lemma FallbackFormatCompatible_equiv: "equivp FallbackFormatCompatible"
  by (intro equivpI reflpI sympI transpI) (auto simp: FallbackFormatCompatible_def split: if_splits)

lemma crossing_pair:
  "FallbackFormatCompatible parent child \<Longrightarrow> FallbackCrossesFormat parent child \<Longrightarrow>
   {ProviderFormat parent, ProviderFormat child} = {ProviderTypeAnthropic, ProviderTypeOpenAI}"
  by (auto simp: FallbackFormatCompatible_def FallbackCrossesFormat_def ProviderFormat_def
      translatableFormat_def provider_types split: if_splits)

subsection \<open>Namespace admission\<close>

text \<open>
  \<open>globAny\<close> is the loop the three namespace checks share: some pattern matches, and a
  malformed pattern matches nothing.
\<close>

fun globAny :: "string \<Rightarrow> string list \<Rightarrow> bool" where
  "globAny ns [] = False"
| "globAny ns (pattern # rest) = (if Match pattern ns = Some True then True else globAny ns rest)"

text \<open>A class with no patterns admits every namespace; a provider with none admits no namespace.\<close>

record AgentClass =
  class_Name :: string
  class_AllowedNamespaces :: "string list"
  class_AllowedProviders :: "string list"

definition AdmitsNamespace :: "AgentClass \<Rightarrow> string \<Rightarrow> bool" where
  "AdmitsNamespace c ns \<longleftrightarrow>
     (if class_AllowedNamespaces c = [] then True else globAny ns (class_AllowedNamespaces c))"

definition namespaceAllowed :: "string \<Rightarrow> string list \<Rightarrow> bool" where
  "namespaceAllowed ns allowed \<longleftrightarrow> (if allowed = [] then False else globAny ns allowed)"

lemma globAny_iff: "globAny ns ps \<longleftrightarrow> (\<exists>p \<in> set ps. Match p ns = Some True)"
  by (induction ps) auto

lemma namespaceAllowed_iff: "namespaceAllowed ns ps \<longleftrightarrow> (\<exists>p \<in> set ps. Match p ns = Some True)"
  by (auto simp: namespaceAllowed_def globAny_iff)

lemma AdmitsNamespace_iff:
  "AdmitsNamespace c ns \<longleftrightarrow>
     class_AllowedNamespaces c = [] \<or> namespaceAllowed ns (class_AllowedNamespaces c)"
  by (auto simp: AdmitsNamespace_def namespaceAllowed_iff globAny_iff)

subsection \<open>Host lists\<close>

text \<open>
  Hostnames are ASCII: \<open>TrimSpace\<close> and \<open>EqualFold\<close> are modelled on the ASCII range.
\<close>

definition is_space :: "char \<Rightarrow> bool" where
  "is_space c \<longleftrightarrow> c \<in> {CHR '' '', CHR 0x09, CHR 0x0A, CHR 0x0B, CHR 0x0C, CHR 0x0D}"

definition TrimSpace :: "string \<Rightarrow> string" where
  "TrimSpace s = rev (dropWhile is_space (rev (dropWhile is_space s)))"

definition to_lower :: "char \<Rightarrow> char" where
  "to_lower c = (if CHR ''A'' \<le> c \<and> c \<le> CHR ''Z'' then char_of ((of_char c :: nat) + 32) else c)"

definition ToLower :: "string \<Rightarrow> string" where
  "ToLower s = map to_lower s"

definition EqualFold :: "string \<Rightarrow> string \<Rightarrow> bool" where
  "EqualFold s t \<longleftrightarrow> ToLower s = ToLower t"

text \<open>\<^verbatim>\<open>strings.Cut(s, ",")\<close> for a one-byte separator: before, after, found.\<close>

fun Cut :: "string \<Rightarrow> char \<Rightarrow> string \<times> string \<times> bool" where
  "Cut [] sep = ([], [], False)"
| "Cut (c # s) sep = (if c = sep then ([], s, True) else (let (b, a, f) = Cut s sep in (c # b, a, f)))"

lemma Cut_length: "length (fst (snd (Cut s sep))) \<le> length s" "s \<noteq> [] \<Longrightarrow> length (fst (snd (Cut s sep))) < length s"
  by (induction s) (auto split: prod.splits)

function hostListed_loop :: "string \<Rightarrow> string \<Rightarrow> bool" where
  "hostListed_loop rest host =
     (if rest = [] then False
      else let (entry, rest', f) = Cut rest (CHR '',''); entry = TrimSpace entry
           in if entry \<noteq> [] \<and> EqualFold entry host then True else hostListed_loop rest' host)"
  by auto
termination
proof (relation "measure (\<lambda>(rest, host). length rest)")
  show "wf (measure (\<lambda>(rest, host). length rest))" by simp
next
  fix rest host x entry y rest' f z
  assume "rest \<noteq> []" "x = Cut rest (CHR '','')" "(entry, y) = x" "(rest', f) = y"
  then show "((rest', host), rest, host) \<in> measure (\<lambda>(rest, host). length rest)"
    using Cut_length(2) [of rest "CHR '',''"] by (metis fst_conv in_measure old.prod.case snd_conv)
qed

declare hostListed_loop.simps [simp del]

definition hostListed :: "string \<Rightarrow> string \<Rightarrow> bool" where
  "hostListed list host \<longleftrightarrow> (if host = [] then False else hostListed_loop list host)"

definition gstring :: "(string, string) gomap \<Rightarrow> string \<Rightarrow> string" where
  "gstring m k = (case map_of m k of None \<Rightarrow> '''' | Some v \<Rightarrow> v)"

definition ProviderCredentialOptedIn :: "(string, string) gomap \<Rightarrow> bool" where
  "ProviderCredentialOptedIn labels \<longleftrightarrow> gstring labels ''kaalm.io/provider-credential'' = ''true''"

definition ChannelCredentialOptedIn :: "(string, string) gomap \<Rightarrow> bool" where
  "ChannelCredentialOptedIn labels \<longleftrightarrow> gstring labels ''kaalm.io/channel-credential'' = ''true''"

definition ProviderHostApproved :: "(string, string) gomap \<Rightarrow> string \<Rightarrow> bool" where
  "ProviderHostApproved annotations host \<longleftrightarrow> hostListed (gstring annotations ''kaalm.io/provider-hosts'') host"

definition CallbackHostApproved :: "(string, string) gomap \<Rightarrow> string \<Rightarrow> bool" where
  "CallbackHostApproved annotations host \<longleftrightarrow> hostListed (gstring annotations ''kaalm.io/callback-hosts'') host"

text \<open>The entries of a comma-separated list, as a reference definition of the walk.\<close>

fun commaSplit :: "string \<Rightarrow> string list" where
  "commaSplit [] = [[]]"
| "commaSplit (c # s) =
     (if c = CHR '','' then [] # commaSplit s
      else (case commaSplit s of [] \<Rightarrow> [[c]] | e # es \<Rightarrow> (c # e) # es))"

lemma commaSplit_Cut:
  "commaSplit s = (let (b, a, f) = Cut s (CHR '','') in if f then b # commaSplit a else [b])"
  by (induction s) (auto simp: Let_def split: prod.splits list.splits if_splits)

lemma Cut_not_found: "Cut s sep = (b, a, False) \<Longrightarrow> a = []"
  by (induction s arbitrary: b) (auto split: if_splits prod.splits)

lemma TrimSpace_Nil [simp]: "TrimSpace [] = []"
  by (simp add: TrimSpace_def)

lemma hostListed_loop_iff:
  "host \<noteq> [] \<Longrightarrow> hostListed_loop list host \<longleftrightarrow> (\<exists>e \<in> set (commaSplit list). EqualFold (TrimSpace e) host)"
proof (induction list host rule: hostListed_loop.induct)
  case (1 rest host)
  have nil: "\<not> EqualFold [] host"
    using 1(2) by (simp add: EqualFold_def ToLower_def)
  show ?case
  proof (cases "rest = []")
    case True
    then show ?thesis using nil by (simp add: hostListed_loop.simps [of "[]"])
  next
    case False
    obtain b a f where c: "Cut rest (CHR '','') = (b, a, f)" by (metis prod.exhaust)
    have ih: "hostListed_loop a host \<longleftrightarrow> (\<exists>e \<in> set (commaSplit a). EqualFold (TrimSpace e) host)"
      if "\<not> EqualFold (TrimSpace b) host"
      using 1(1) [OF False c [symmetric] refl refl refl] 1(2) that by blast
    have "\<not> f \<Longrightarrow> a = []" using c Cut_not_found by (cases f) auto
    then show ?thesis
      using False c ih nil
      by (auto simp: hostListed_loop.simps [of rest] commaSplit_Cut [of rest] Let_def split: if_splits)
  qed
qed

lemma hostListed_iff:
  "hostListed list host \<longleftrightarrow> host \<noteq> [] \<and> (\<exists>e \<in> set (commaSplit list). EqualFold (TrimSpace e) host)"
  by (simp add: hostListed_def hostListed_loop_iff)

end
