(* ===== verification/Budget_Partial.thy ===== *)
theory Budget_Partial
  imports Api_Types Go_Strconv
begin

text \<open>
  The wire format of the budget exchange (\<^verbatim>\<open>src/internal/gateway/budget.go\<close>): one
  JSON value per gateway replica in the provider's budget ConfigMap, its encoder
  \<open>marshal_partial\<close> (\<^verbatim>\<open>budgetPartial.MarshalJSON\<close>), its decoder
  \<open>ParseBudgetPartial\<close>, and \<open>FoldPartials\<close>, the sum of the peers' values.

  The lemmas describe the decoder by what the decoded object holds under each name, so every
  result below is independent of the iteration order of the Go maps. The round trip needs that
  no namespace is called \<^verbatim>\<open>period\<close>, and \<open>period_namespace_replaces_tag\<close> shows
  what happens to the value when one is.
\<close>

subsection \<open>Names\<close>

definition BudgetConfigMapName :: "string \<Rightarrow> string" where
  "BudgetConfigMapName providerName = ''kaalm-budget-'' @ providerName"

definition AgentSpendConfigMapName :: "string \<Rightarrow> string" where
  "AgentSpendConfigMapName providerName = ''kaalm-agentspend-'' @ providerName"

definition CanonicalKey :: string where "CanonicalKey = ''_canonical''"
definition RetiredKey :: string where "RetiredKey = ''_retired''"
definition PreviousKey :: string where "PreviousKey = ''_previous''"
definition marginExceededField :: string where "marginExceededField = ''_marginExceeded''"
definition providerUIDField :: string where "providerUIDField = ''_providerUID''"

lemmas reserved_keys = CanonicalKey_def RetiredKey_def PreviousKey_def
lemmas reserved_fields = marginExceededField_def providerUIDField_def

subsection \<open>Encoding\<close>

record budgetPartial =
  bp_Period :: string
  bp_Spend :: "(string, string) gomap"
  bp_MarginExceeded :: bool
  bp_ProviderUID :: string

definition flatten_partial :: "budgetPartial \<Rightarrow> (string, string) gomap" where
  "flatten_partial p =
     (let out = [(''period'', bp_Period p)];
          out = fold (\<lambda>(ns, v) out. AList.update ns v out) (bp_Spend p) out;
          out = (if bp_MarginExceeded p then AList.update marginExceededField ''true'' out else out)
      in if bp_ProviderUID p \<noteq> '''' then AList.update providerUIDField (bp_ProviderUID p) out else out)"

definition marshal_partial :: "budgetPartial \<Rightarrow> jsontext" where
  "marshal_partial p = marshal_strings (flatten_partial p)"

definition format_spend :: "(string, usd) gomap \<Rightarrow> (string, string) gomap" where
  "format_spend m = map (\<lambda>(k, v). (k, FormatFloat2 v)) m"

definition RetiredPartial :: "string \<Rightarrow> (string, usd) gomap \<Rightarrow> string \<Rightarrow> budgetPartial" where
  "RetiredPartial period spend providerUID =
     \<lparr>bp_Period = period, bp_Spend = format_spend spend, bp_MarginExceeded = False,
      bp_ProviderUID = providerUID\<rparr>"

subsection \<open>Decoding\<close>

record partialView =
  pv_period :: string
  pv_spend :: "(string, usd) gomap"
  pv_marginExceeded :: bool
  pv_providerUID :: string

definition empty_view :: partialView where
  "empty_view = \<lparr>pv_period = '''', pv_spend = [], pv_marginExceeded = False, pv_providerUID = ''''\<rparr>"

fun parse_field :: "string \<times> string \<Rightarrow> partialView \<Rightarrow> partialView" where
  "parse_field (k, v) r =
     (if k = ''period'' then r\<lparr>pv_period := v\<rparr>
      else if HasPrefix k ''_'' then
        (if k = marginExceededField \<and> v = ''true'' then r\<lparr>pv_marginExceeded := True\<rparr>
         else if k = providerUIDField then r\<lparr>pv_providerUID := v\<rparr>
         else r)
      else case ParseFloat v of
          None \<Rightarrow> r
        | Some f \<Rightarrow> r\<lparr>pv_spend := AList.update k f (pv_spend r)\<rparr>)"

definition ParseBudgetPartial :: "jsontext \<Rightarrow> partialView option" where
  "ParseBudgetPartial raw =
     (case unmarshal_strings raw of None \<Rightarrow> None | Some flat \<Rightarrow> Some (fold parse_field flat empty_view))"

definition FoldPartials ::
  "(string, jsontext) gomap \<Rightarrow> string \<Rightarrow> string \<Rightarrow> string \<Rightarrow> (string, usd) gomap" where
  "FoldPartials data ownPodName currentPeriod providerUID =
     fold (\<lambda>(key, raw) peers.
       if key = ownPodName \<or> key = CanonicalKey \<or> key = PreviousKey then peers
       else case ParseBudgetPartial raw of
           None \<Rightarrow> peers
         | Some r \<Rightarrow>
             if pv_period r \<noteq> currentPeriod \<or> (pv_providerUID r \<noteq> '''' \<and> pv_providerUID r \<noteq> providerUID)
             then peers
             else gsum_into (pv_spend r) peers) data []"

subsection \<open>The decoder by field\<close>

text \<open>A field is a namespace's spend when it is neither the period nor underscore-prefixed.\<close>

definition spend_field :: "string \<Rightarrow> bool" where
  "spend_field k \<longleftrightarrow> k \<noteq> ''period'' \<and> \<not> HasPrefix k ''_''"

lemma spend_field_reserved [simp]:
  "\<not> spend_field ''period''" "\<not> spend_field marginExceededField" "\<not> spend_field providerUIDField"
  by (simp_all add: spend_field_def HasPrefix_def reserved_fields)

lemma parse_field_fold:
  "distinct (map fst flat) \<Longrightarrow>
   pv_period (fold parse_field flat r) = (case map_of flat ''period'' of None \<Rightarrow> pv_period r | Some v \<Rightarrow> v)
   \<and> pv_marginExceeded (fold parse_field flat r) =
       (pv_marginExceeded r \<or> map_of flat marginExceededField = Some ''true'')
   \<and> pv_providerUID (fold parse_field flat r) =
       (case map_of flat providerUIDField of None \<Rightarrow> pv_providerUID r | Some v \<Rightarrow> v)"
proof (induction flat arbitrary: r)
  case Nil
  then show ?case by simp
next
  case (Cons e flat)
  obtain k v where e: "e = (k, v)" by (cases e)
  have nin: "map_of flat k = None"
    using Cons.prems e by (simp add: map_of_eq_None_iff)
  consider "k = ''period''" | "k = marginExceededField" | "k = providerUIDField"
    | "k \<noteq> ''period''" "k \<noteq> marginExceededField" "k \<noteq> providerUIDField"
    by blast
  then show ?case
    using Cons nin e
    by cases (auto simp: reserved_fields HasPrefix_def split: option.splits)
qed

lemma parse_field_spend:
  "distinct (map fst flat) \<Longrightarrow>
   map_of (pv_spend (fold parse_field flat r)) k =
     (case (if spend_field k then Option.bind (map_of flat k) ParseFloat else None) of
        Some f \<Rightarrow> Some f | None \<Rightarrow> map_of (pv_spend r) k)"
proof (induction flat arbitrary: r)
  case Nil
  then show ?case by simp
next
  case (Cons e flat)
  obtain k' v where e: "e = (k', v)" by (cases e)
  have nin: "map_of flat k' = None"
    using Cons.prems e by (simp add: map_of_eq_None_iff)
  have step: "map_of (pv_spend (parse_field (k', v) r)) k =
      (if k = k' \<and> spend_field k then (case ParseFloat v of None \<Rightarrow> map_of (pv_spend r) k | Some f \<Rightarrow> Some f)
       else map_of (pv_spend r) k)"
    by (auto simp: spend_field_def gomap_simps split: option.splits)
  show ?case
    using Cons nin e step by (auto split: option.splits)
qed

lemma parse_field_distinct:
  "distinct (map fst (pv_spend r)) \<Longrightarrow> distinct (map fst (pv_spend (fold parse_field flat r)))"
proof (induction flat arbitrary: r)
  case Nil
  then show ?case by simp
next
  case (Cons e flat)
  obtain k v where e: "e = (k, v)" by (cases e)
  have "distinct (map fst (pv_spend (parse_field (k, v) r)))"
    using Cons.prems by (auto simp: distinct_update split: option.splits)
  then show ?case using Cons.IH e by simp
qed

lemma fold_update_map_of:
  "distinct (map fst m) \<Longrightarrow>
   map_of (fold (\<lambda>(k, v) out. AList.update k v out) m d) k =
     (case map_of m k of Some v \<Rightarrow> Some v | None \<Rightarrow> map_of d k)"
proof (induction m arbitrary: d)
  case Nil
  then show ?case by simp
next
  case (Cons e m)
  obtain k' v where e: "e = (k', v)" by (cases e)
  have "map_of m k' = None"
    using Cons.prems e by (simp add: map_of_eq_None_iff)
  then show ?case
    using Cons e by (auto simp: gomap_simps split: option.splits)
qed

lemma fold_update_distinct:
  "distinct (map fst d) \<Longrightarrow> distinct (map fst (fold (\<lambda>(k, v) out. AList.update k v out) m d))"
  by (induction m arbitrary: d) (auto simp: distinct_update)

lemma flatten_distinct: "distinct (map fst (flatten_partial p))"
  by (simp add: flatten_partial_def Let_def distinct_update fold_update_distinct)

lemma flatten_map_of:
  assumes "distinct (map fst (bp_Spend p))"
  shows "map_of (flatten_partial p) k =
    (if k = providerUIDField \<and> bp_ProviderUID p \<noteq> '''' then Some (bp_ProviderUID p)
     else if k = marginExceededField \<and> bp_MarginExceeded p then Some ''true''
     else case map_of (bp_Spend p) k of Some v \<Rightarrow> Some v
       | None \<Rightarrow> if k = ''period'' then Some (bp_Period p) else None)"
  using assms
  by (auto simp: flatten_partial_def Let_def gomap_simps fold_update_map_of reserved_fields split: option.splits)

text \<open>What the decoder makes of an encoded partial, for every partial.\<close>

lemma parse_marshal:
  assumes "distinct (map fst (bp_Spend p))"
  shows "\<exists>r. ParseBudgetPartial (marshal_partial p) = Some r
    \<and> pv_period r = (case map_of (flatten_partial p) ''period'' of None \<Rightarrow> '''' | Some v \<Rightarrow> v)
    \<and> pv_marginExceeded r = (map_of (flatten_partial p) marginExceededField = Some ''true'')
    \<and> pv_providerUID r = (case map_of (flatten_partial p) providerUIDField of None \<Rightarrow> '''' | Some v \<Rightarrow> v)
    \<and> (\<forall>k. map_of (pv_spend r) k =
          (if spend_field k then Option.bind (map_of (flatten_partial p) k) ParseFloat else None))
    \<and> distinct (map fst (pv_spend r))"
proof -
  obtain m where m: "unmarshal_strings (marshal_strings (flatten_partial p)) = Some m"
    and eq: "map_of m = map_of (flatten_partial p)" and d: "distinct (map fst m)"
    using unmarshal_marshal_strings [OF flatten_distinct] by blast
  let ?r = "fold parse_field m empty_view"
  have "ParseBudgetPartial (marshal_partial p) = Some ?r"
    by (simp add: ParseBudgetPartial_def marshal_partial_def m)
  moreover have "distinct (map fst (pv_spend ?r))"
    by (rule parse_field_distinct) (simp add: empty_view_def)
  ultimately show ?thesis
    using parse_field_fold [OF d, of empty_view] parse_field_spend [OF d, of empty_view] eq
    by (auto simp: empty_view_def split: option.splits)
qed

lemma format_spend_keys [simp]: "map fst (format_spend m) = map fst m"
  by (induction m) (auto simp: format_spend_def)

lemma format_spend_map_of: "map_of (format_spend m) k = map_option FormatFloat2 (map_of m k)"
  by (induction m) (auto simp: format_spend_def)

text \<open>The spend of a replica that the format can carry.\<close>

definition encodable :: "(string, usd) gomap \<Rightarrow> bool" where
  "encodable m \<longleftrightarrow> distinct (map fst m)
     \<and> (\<forall>(k, v) \<in> set m. spend_field k \<and> \<bar>to_cents v\<bar> < float_overflow)"

lemma encodable_map_of:
  "encodable m \<Longrightarrow> map_of m k = Some v \<Longrightarrow> spend_field k \<and> \<bar>to_cents v\<bar> < float_overflow"
  by (auto simp: encodable_def dest: map_of_SomeD)

lemma parse_marshal_spend:
  assumes "encodable m"
  shows "\<exists>r. ParseBudgetPartial (marshal_partial
        \<lparr>bp_Period = period, bp_Spend = format_spend m, bp_MarginExceeded = e, bp_ProviderUID = u\<rparr>) = Some r
    \<and> pv_period r = period \<and> pv_marginExceeded r = e \<and> pv_providerUID r = u
    \<and> (\<forall>k. map_of (pv_spend r) k = map_option to_cents (map_of m k)) \<and> distinct (map fst (pv_spend r))"
proof -
  let ?p = "\<lparr>bp_Period = period, bp_Spend = format_spend m, bp_MarginExceeded = e, bp_ProviderUID = u\<rparr>"
  have d: "distinct (map fst (bp_Spend ?p))"
    using assms by (simp add: encodable_def)
  have none: "map_of m ''period'' = None" "map_of m marginExceededField = None" "map_of m providerUIDField = None"
    using encodable_map_of [OF assms] spend_field_reserved by (metis not_Some_eq)+
  have flat: "map_of (flatten_partial ?p) k =
      (if k = providerUIDField \<and> u \<noteq> '''' then Some u else if k = marginExceededField \<and> e then Some ''true''
       else case map_of m k of Some v \<Rightarrow> Some (FormatFloat2 v)
         | None \<Rightarrow> if k = ''period'' then Some period else None)" for k
    unfolding flatten_map_of [OF d] by (auto simp: format_spend_map_of split: option.splits)
  have spend: "(if spend_field k then Option.bind (map_of (flatten_partial ?p) k) ParseFloat else None) =
      map_option to_cents (map_of m k)" for k
  proof (cases "map_of m k")
    case None
    then show ?thesis by (auto simp: flat)
  next
    case (Some v)
    then show ?thesis
      using encodable_map_of [OF assms Some] by (auto simp: flat ParseFloat_FormatFloat2)
  qed
  have ne: "marginExceededField \<noteq> ''period''" "providerUIDField \<noteq> ''period''"
    "marginExceededField \<noteq> providerUIDField"
    by (simp_all add: reserved_fields)
  have "map_of (flatten_partial ?p) ''period'' = Some period"
    "map_of (flatten_partial ?p) marginExceededField = (if e then Some ''true'' else None)"
    "map_of (flatten_partial ?p) providerUIDField = (if u \<noteq> '''' then Some u else None)"
    using ne by (simp_all add: flat none)
  then show ?thesis
    using parse_marshal [OF d] by (auto simp: spend split: if_splits)
qed

subsection \<open>The fold of the peers\<close>

text \<open>The amounts one ConfigMap entry contributes to a replica's peer view.\<close>

definition counted :: "string \<Rightarrow> string \<Rightarrow> string \<Rightarrow> string \<times> jsontext \<Rightarrow> (string, usd) gomap" where
  "counted ownPodName currentPeriod providerUID e =
     (if fst e \<in> {ownPodName, CanonicalKey, PreviousKey} then []
      else case ParseBudgetPartial (snd e) of
          None \<Rightarrow> []
        | Some r \<Rightarrow>
            if pv_period r = currentPeriod \<and> pv_providerUID r \<in> {'''', providerUID} then pv_spend r else [])"

lemma ParseBudgetPartial_distinct:
  "ParseBudgetPartial raw = Some r \<Longrightarrow> distinct (map fst (pv_spend r))"
  by (auto simp: ParseBudgetPartial_def empty_view_def intro!: parse_field_distinct split: option.splits)

lemma counted_distinct: "distinct (map fst (counted own per u e))"
  by (auto simp: counted_def intro: ParseBudgetPartial_distinct split: option.splits)

lemma FoldPartials_counted:
  "FoldPartials data own per u = fold (\<lambda>e. gsum_into (counted own per u e)) data []"
proof -
  have "(\<lambda>(key, raw) peers.
       if key = own \<or> key = CanonicalKey \<or> key = PreviousKey then peers
       else case ParseBudgetPartial raw of None \<Rightarrow> peers
         | Some r \<Rightarrow> if pv_period r \<noteq> per \<or> (pv_providerUID r \<noteq> '''' \<and> pv_providerUID r \<noteq> u) then peers
             else gsum_into (pv_spend r) peers) = (\<lambda>e. gsum_into (counted own per u e))"
    by (auto simp: fun_eq_iff counted_def split: option.splits)
  then show ?thesis by (simp add: FoldPartials_def)
qed

lemma gnum_fold_gsum_into:
  assumes "\<And>e. distinct (map fst (f e))"
  shows "gnum (fold (\<lambda>e. gsum_into (f e)) xs d) k = gnum d k + (\<Sum>e\<leftarrow>xs. gnum (f e) k)"
  by (induction xs arbitrary: d) (auto simp: gomap_simps gcontrib_distinct [OF assms])

lemma distinct_fold_gsum_into:
  "distinct (map fst d) \<Longrightarrow> distinct (map fst (fold (\<lambda>e. gsum_into (f e)) xs d))"
  by (induction xs arbitrary: d) auto

lemma FoldPartials_num:
  "gnum (FoldPartials data own per u) ns = (\<Sum>e\<leftarrow>data. gnum (counted own per u e) ns)"
  by (simp add: FoldPartials_counted gnum_fold_gsum_into [OF counted_distinct])

lemma FoldPartials_distinct: "distinct (map fst (FoldPartials data own per u))"
  by (simp add: FoldPartials_counted distinct_fold_gsum_into)

lemma FoldPartials_own:
  "FoldPartials (filter (\<lambda>e. fst e \<notin> {own, CanonicalKey, PreviousKey}) data) own per u =
   FoldPartials data own per u"
proof -
  have "fold (\<lambda>e. gsum_into (counted own per u e))
      (filter (\<lambda>e. fst e \<notin> {own, CanonicalKey, PreviousKey}) data) d =
    fold (\<lambda>e. gsum_into (counted own per u e)) data d" for d
    by (induction data arbitrary: d) (auto simp: counted_def)
  then show ?thesis by (simp add: FoldPartials_counted)
qed

subsection \<open>Properties\<close>

text \<open>
  C8. Round trip of the exchange format: decoding an encoded partial gives back its period, its
  margin flag and its provider UID, and for every namespace the amount rounded to cents, no more
  and no fewer namespaces, for spend whose keys are neither \<^verbatim>\<open>period\<close> nor
  underscore-prefixed.
\<close>

theorem partial_roundtrip:
  assumes "encodable m"
  shows "\<exists>r. ParseBudgetPartial (marshal_partial
        \<lparr>bp_Period = period, bp_Spend = format_spend m, bp_MarginExceeded = e, bp_ProviderUID = u\<rparr>) = Some r
    \<and> pv_period r = period \<and> pv_marginExceeded r = e \<and> pv_providerUID r = u
    \<and> (\<forall>k. map_of (pv_spend r) k = map_option to_cents (map_of m k))"
  using parse_marshal_spend [OF assms] by blast

lemma float_overflow_gr: "10000 < float_overflow"
  unfolding float_overflow_def by simp

lemma team_spend_encodable: "encodable [(''team-a'', 1234 / 100), (''team-b'', 1 / 3)]"
  using float_overflow_gr to_cents_close [of "1 / 3"]
  by (auto simp: encodable_def spend_field_def HasPrefix_def to_cents_whole whole_cents_def abs_if split: if_splits)

theorem partial_roundtrip_witness:
  "encodable [(''team-a'', 1234 / 100), (''team-b'', 1 / 3)] \<and>
   (\<exists>r. ParseBudgetPartial (marshal_partial
        \<lparr>bp_Period = ''2026-03'', bp_Spend = format_spend [(''team-a'', 1234 / 100), (''team-b'', 1 / 3)],
         bp_MarginExceeded = True, bp_ProviderUID = ''u1''\<rparr>) = Some r
    \<and> pv_period r = ''2026-03'' \<and> map_of (pv_spend r) ''team-b'' = Some (to_cents (1 / 3)))"
  using partial_roundtrip [OF team_spend_encodable, of "''2026-03''" True "''u1''"] team_spend_encodable
  by auto

text \<open>
  C19. A namespace called \<^verbatim>\<open>period\<close> replaces the period tag of its replica's partial
  by an amount. The decoder then reads that amount as the period, so no fold for a real period
  counts anything of that replica's value: the spend of every namespace in it disappears from
  the peers' view.
\<close>

theorem period_namespace_replaces_tag:
  assumes "distinct (map fst m)" "map_of m ''period'' = Some v"
    and "currentPeriod \<noteq> FormatFloat2 v"
  shows "FoldPartials [(pod, marshal_partial
      \<lparr>bp_Period = period, bp_Spend = format_spend m, bp_MarginExceeded = e, bp_ProviderUID = u\<rparr>)]
      own currentPeriod u = []"
proof -
  let ?p = "\<lparr>bp_Period = period, bp_Spend = format_spend m, bp_MarginExceeded = e, bp_ProviderUID = u\<rparr>"
  have d: "distinct (map fst (bp_Spend ?p))"
    using assms(1) by simp
  have "map_of (flatten_partial ?p) ''period'' = Some (FormatFloat2 v)"
    using assms(2) by (auto simp: flatten_map_of [OF d] format_spend_map_of reserved_fields)
  then obtain r where "ParseBudgetPartial (marshal_partial ?p) = Some r" "pv_period r = FormatFloat2 v"
    using parse_marshal [OF d] by auto
  then show ?thesis
    using assms(3) by (simp add: FoldPartials_counted counted_def)
qed

theorem period_namespace_replaces_tag_witness:
  "FoldPartials [(''gw-1'', marshal_partial
      \<lparr>bp_Period = ''2026-03'', bp_Spend = format_spend [(''team-a'', 90), (''period'', 1)],
       bp_MarginExceeded = False, bp_ProviderUID = ''u1''\<rparr>)] ''gw-0'' ''2026-03'' ''u1'' = []"
  by (rule period_namespace_replaces_tag [where v = 1])
    (simp_all add: FormatFloat2_def cents_def round_half_even_def show_nat.simps [of "Suc 0"] show_nat.simps [of 0] show_pad_def pad_def
      digit_def)

text \<open>
  C10. The peer view is, for every namespace, the sum over the ConfigMap's entries of what each
  counts: an entry under the replica's own key, under \<^verbatim>\<open>_canonical\<close> or under
  \<^verbatim>\<open>_previous\<close>, for another period, or tagged with another provider UID counts
  nothing. The order of the entries plays no part.
\<close>

theorem FoldPartials_sum:
  "gnum (FoldPartials data ownPodName currentPeriod providerUID) ns =
     (\<Sum>(key, raw)\<leftarrow>data.
        if key \<in> {ownPodName, CanonicalKey, PreviousKey} then 0
        else case ParseBudgetPartial raw of
            None \<Rightarrow> 0
          | Some r \<Rightarrow> if pv_period r = currentPeriod \<and> pv_providerUID r \<in> {'''', providerUID}
                      then gnum (pv_spend r) ns else 0)"
  unfolding FoldPartials_num
  by (intro arg_cong [where f = sum_list] map_cong) (auto simp: counted_def split: option.splits)

end
