(* ===== verification/Budget_Ledger.thy ===== *)
theory Budget_Ledger
  imports Budget_Period Budget_Partial "HOL-Library.Word"
begin

text \<open>
  The in-memory spend ledger of a gateway replica
  (\<^verbatim>\<open>src/internal/gateway/budget.go\<close>, with the traffic tracker of
  \<^verbatim>\<open>budget_hard.go\<close> and the utilization view of \<^verbatim>\<open>budget_metrics.go\<close>).

  \<open>BudgetLedger\<close> is the Go struct; the clock \<^verbatim>\<open>b.now\<close> and the replica counter
  \<^verbatim>\<open>b.replicas\<close> are arguments of the operations that read them. The mutex makes every
  operation one step, and an operation reads the clock once. \<^verbatim>\<open>ledgerFor\<close> returns a
  pointer in Go: here it returns the ledger's value beside the state, and \<open>withLedger\<close> stores
  the updated value back, unless the ledger is the detached one of a superseded UID, whose
  writes nobody sees.

  The locale \<open>ledger_update\<close> is the contract of a critical section on one provider's ledger.
  What it gives every operation once: the structural invariant \<open>wf_ledger\<close>, that a section
  touches no other provider, and that a section for a superseded UID changes nothing.
\<close>

subsection \<open>State\<close>

type_synonym token = "64 word"

record providerLedger =
  l_uid :: uid
  l_period :: string
  own :: "(string, usd) gomap"
  peers :: "(string, usd) gomap"
  ownW :: "(string, usd) gomap"
  peersW :: "(string, usd) gomap"
  adm :: "(string, token) gomap"
  nextToken :: token
  maxCostPerCall :: usd
  rateBucketStart :: "gotime option"
  rateBucketSum :: usd
  peakRatePerSec :: usd
  dirtySince :: "gotime option"
  lastFoldOK :: "gotime option"
  marginRaised :: bool

record BudgetLedger =
  providers :: "(string, providerLedger) gomap"
  superseded :: "uid set"
  kick :: "string list"
  stalenessWindow :: duration

definition rateBucketWidth :: duration where "rateBucketWidth = 10 * second"
definition defaultPublishInterval :: duration where "defaultPublishInterval = 10 * second"
definition clusterSlotKey :: string where "clusterSlotKey = ''''"
definition UnattributedWorkload :: string where "UnattributedWorkload = ''(unattributed)''"

definition NewBudgetLedger :: BudgetLedger where
  "NewBudgetLedger =
     \<lparr>providers = [], superseded = {}, kick = [], stalenessWindow = 3 * defaultPublishInterval\<rparr>"

definition newProviderLedger :: "string \<Rightarrow> uid \<Rightarrow> providerLedger" where
  "newProviderLedger period u =
     \<lparr>l_uid = u, l_period = period, own = [], peers = [], ownW = [], peersW = [], adm = [],
      nextToken = 0, maxCostPerCall = 0, rateBucketStart = None, rateBucketSum = 0,
      peakRatePerSec = 0, dirtySince = None, lastFoldOK = None, marginRaised = False\<rparr>"

text \<open>The reset of \<^verbatim>\<open>ledgerFor\<close> at a period boundary.\<close>

definition rollover :: "string \<Rightarrow> providerLedger \<Rightarrow> providerLedger" where
  "rollover period l =
     l\<lparr>l_period := period, own := [], peers := [], ownW := [], peersW := [], adm := [],
       maxCostPerCall := 0, rateBucketStart := None, rateBucketSum := 0, peakRatePerSec := 0,
       marginRaised := False\<rparr>"

definition ledgerFor ::
  "gotime \<Rightarrow> string \<Rightarrow> uid \<Rightarrow> string \<Rightarrow> BudgetLedger \<Rightarrow> BudgetLedger \<times> providerLedger" where
  "ledgerFor now providerName u scheme b =
     (let period = PeriodKey scheme now
      in if u \<in> superseded b then (b, newProviderLedger period u)
         else
           let (b, found) =
                 (case map_of (providers b) providerName of
                    None \<Rightarrow> (b, None)
                  | Some l \<Rightarrow> if l_uid l \<noteq> u then (b\<lparr>superseded := insert (l_uid l) (superseded b)\<rparr>, None)
                             else (b, Some l));
               l = (case found of None \<Rightarrow> newProviderLedger period u | Some l \<Rightarrow> l);
               l = (if l_period l \<noteq> period then rollover period l else l)
           in (b\<lparr>providers := AList.update providerName l (providers b)\<rparr>, l))"

definition storeLedger :: "string \<Rightarrow> providerLedger \<Rightarrow> BudgetLedger \<Rightarrow> BudgetLedger" where
  "storeLedger providerName l b =
     (if l_uid l \<in> superseded b then b else b\<lparr>providers := AList.update providerName l (providers b)\<rparr>)"

text \<open>A critical section: look the ledger up, change it, store it.\<close>

definition withLedger ::
  "gotime \<Rightarrow> string \<Rightarrow> uid \<Rightarrow> string \<Rightarrow> (providerLedger \<Rightarrow> providerLedger \<times> 'r) \<Rightarrow> BudgetLedger
    \<Rightarrow> BudgetLedger \<times> 'r" where
  "withLedger now providerName u scheme f b =
     (let (b, l) = ledgerFor now providerName u scheme b; (l, r) = f l in (storeLedger providerName l b, r))"

subsection \<open>Recording spend\<close>

record Usage =
  InputTokens :: int
  OutputTokens :: int

fun costOf_models :: "ModelProviderModel list \<Rightarrow> string \<Rightarrow> Usage \<Rightarrow> usd" where
  "costOf_models [] modelID usage = 0"
| "costOf_models (m # ms) modelID usage =
     (if ID m \<noteq> modelID then costOf_models ms modelID usage
      else case (ParseFloat (CostPer1MInputTokens m), ParseFloat (CostPer1MOutputTokens m)) of
          (Some inp, Some out) \<Rightarrow>
            of_int (InputTokens usage) * inp / 1000000 + of_int (OutputTokens usage) * out / 1000000
        | _ \<Rightarrow> 0)"

definition costOf :: "ModelProvider \<Rightarrow> string \<Rightarrow> Usage \<Rightarrow> usd" where
  "costOf provider modelID usage = costOf_models (Models (Spec provider)) modelID usage"

definition seconds_of :: "duration \<Rightarrow> rat" where
  "seconds_of d = of_int d / of_int second"

definition trackLocked :: "gotime \<Rightarrow> usd \<Rightarrow> providerLedger \<Rightarrow> providerLedger" where
  "trackLocked now cost l =
     (if cost \<le> 0 then l
      else
        let l = (if cost > maxCostPerCall l then l\<lparr>maxCostPerCall := cost\<rparr> else l);
            l = (case rateBucketStart l of
                   None \<Rightarrow> l\<lparr>rateBucketStart := Some now, rateBucketSum := 0\<rparr>
                 | Some start \<Rightarrow>
                     if now - start \<ge> rateBucketWidth then
                       (let r = rateBucketSum l / seconds_of rateBucketWidth;
                            l = (if r > peakRatePerSec l then l\<lparr>peakRatePerSec := r\<rparr> else l)
                        in l\<lparr>rateBucketStart := Some now, rateBucketSum := 0\<rparr>)
                     else l)
        in l\<lparr>rateBucketSum := rateBucketSum l + cost\<rparr>)"

text \<open>The four statements \<^verbatim>\<open>Add\<close> and \<^verbatim>\<open>settle\<close> share.\<close>

definition recordSpend :: "gotime \<Rightarrow> string \<Rightarrow> string \<Rightarrow> usd \<Rightarrow> providerLedger \<Rightarrow> providerLedger" where
  "recordSpend now namespace workload costUSD l =
     (let l = l\<lparr>own := gadd namespace costUSD (own l)\<rparr>;
          l = l\<lparr>ownW := gadd (namespace @ ''/'' @ workload) costUSD (ownW l)\<rparr>;
          l = trackLocked now costUSD l
      in if dirtySince l = None then l\<lparr>dirtySince := Some now\<rparr> else l)"

definition Add :: "gotime \<Rightarrow> ModelProvider \<Rightarrow> string \<Rightarrow> string \<Rightarrow> usd \<Rightarrow> BudgetLedger \<Rightarrow> BudgetLedger" where
  "Add now provider namespace workload costUSD b =
     (let scheme = period_of provider
      in if PeriodKey scheme now = '''' \<or> costUSD = 0 then b
         else fst (withLedger now (Name provider) (UID provider) scheme
                     (\<lambda>l. (recordSpend now namespace workload costUSD l, ())) b))"

definition FoldPeers :: "gotime \<Rightarrow> ModelProvider \<Rightarrow> (string, usd) gomap \<Rightarrow> BudgetLedger \<Rightarrow> BudgetLedger" where
  "FoldPeers now provider ps b =
     fst (withLedger now (Name provider) (UID provider) (period_of provider)
            (\<lambda>l. (l\<lparr>peers := ps, lastFoldOK := Some now\<rparr>, ())) b)"

definition InitCanonical :: "gotime \<Rightarrow> ModelProvider \<Rightarrow> (string, usd) gomap \<Rightarrow> BudgetLedger \<Rightarrow> BudgetLedger" where
  "InitCanonical now provider canonical b = FoldPeers now provider canonical b"

definition FoldWorkloadPeers :: "gotime \<Rightarrow> ModelProvider \<Rightarrow> (string, usd) gomap \<Rightarrow> BudgetLedger \<Rightarrow> BudgetLedger" where
  "FoldWorkloadPeers now provider ps b =
     fst (withLedger now (Name provider) (UID provider) (period_of provider)
            (\<lambda>l. (l\<lparr>peersW := ps\<rparr>, ())) b)"

subsection \<open>Publishing\<close>

definition boundLedger :: "ModelProvider \<Rightarrow> BudgetLedger \<Rightarrow> providerLedger option" where
  "boundLedger provider b =
     (case map_of (providers b) (Name provider) of
        None \<Rightarrow> None
      | Some l \<Rightarrow> if l_uid l \<noteq> UID provider then None else Some l)"

definition OwnWorkloadPartial :: "ModelProvider \<Rightarrow> BudgetLedger \<Rightarrow> (string \<times> (string, string) gomap) option" where
  "OwnWorkloadPartial provider b =
     (case boundLedger provider b of
        None \<Rightarrow> None
      | Some l \<Rightarrow> if ownW l = [] then None else Some (l_period l, format_spend (ownW l)))"

definition OwnPartial :: "ModelProvider \<Rightarrow> BudgetLedger \<Rightarrow> (string \<times> (string, string) gomap \<times> bool) option" where
  "OwnPartial provider b =
     (case boundLedger provider b of
        None \<Rightarrow> None
      | Some l \<Rightarrow> if own l = [] then None else Some (l_period l, format_spend (own l), marginRaised l))"

definition MarkPublished :: "ModelProvider \<Rightarrow> gotime \<Rightarrow> BudgetLedger \<Rightarrow> BudgetLedger" where
  "MarkPublished provider snapshot b =
     (case boundLedger provider b of
        None \<Rightarrow> b
      | Some l \<Rightarrow>
          (case dirtySince l of
             Some d \<Rightarrow> if d \<le> snapshot
                        then b\<lparr>providers := AList.update (Name provider) (l\<lparr>dirtySince := None\<rparr>) (providers b)\<rparr>
                        else b
           | None \<Rightarrow> b))"

record WorkloadProviderSpend =
  wps_Period :: string
  wps_Workloads :: "(string, string) gomap"

text \<open>The two loops of \<^verbatim>\<open>WorkloadSpend\<close> that collect one namespace's rows.\<close>

definition workload_rows :: "string \<Rightarrow> (string, usd) gomap \<Rightarrow> (string, usd) gomap \<Rightarrow> (string, usd) gomap" where
  "workload_rows pre m acc =
     fold (\<lambda>(key, v) acc. case CutPrefix key pre of None \<Rightarrow> acc | Some workload \<Rightarrow> gadd workload v acc) m acc"

definition WorkloadSpend :: "string \<Rightarrow> BudgetLedger \<Rightarrow> (string, WorkloadProviderSpend) gomap" where
  "WorkloadSpend namespace b =
     (let pre = namespace @ ''/''
      in fold (\<lambda>(providerName, l) out.
           let acc = workload_rows pre (ownW l) []; acc = workload_rows pre (peersW l) acc
           in if acc = [] then out
              else AList.update providerName
                     \<lparr>wps_Period = l_period l, wps_Workloads = format_spend acc\<rparr> out) (providers b) [])"

subsection \<open>The lookup\<close>

lemma rollover_simps [simp]:
  "l_uid (rollover p l) = l_uid l" "l_period (rollover p l) = p"
  "own (rollover p l) = []" "peers (rollover p l) = []" "ownW (rollover p l) = []"
  "peersW (rollover p l) = []" "adm (rollover p l) = []" "nextToken (rollover p l) = nextToken l"
  "dirtySince (rollover p l) = dirtySince l" "lastFoldOK (rollover p l) = lastFoldOK l"
  by (simp_all add: rollover_def)

lemma newProviderLedger_simps [simp]:
  "l_uid (newProviderLedger p u) = u" "l_period (newProviderLedger p u) = p"
  "own (newProviderLedger p u) = []" "peers (newProviderLedger p u) = []"
  "ownW (newProviderLedger p u) = []" "peersW (newProviderLedger p u) = []"
  "adm (newProviderLedger p u) = []" "nextToken (newProviderLedger p u) = 0"
  "dirtySince (newProviderLedger p u) = None" "lastFoldOK (newProviderLedger p u) = None"
  by (simp_all add: newProviderLedger_def)

text \<open>The ledger a section works on.\<close>

abbreviation current :: "gotime \<Rightarrow> string \<Rightarrow> uid \<Rightarrow> string \<Rightarrow> BudgetLedger \<Rightarrow> providerLedger" where
  "current now n u scheme b \<equiv> snd (ledgerFor now n u scheme b)"

lemma ledgerFor_superseded:
  "u \<in> superseded b \<Longrightarrow> ledgerFor now n u scheme b = (b, newProviderLedger (PeriodKey scheme now) u)"
  by (simp add: ledgerFor_def Let_def)

lemma current_cases:
  obtains (detached) "u \<in> superseded b" "current now n u scheme b = newProviderLedger (PeriodKey scheme now) u"
  | (fresh) "u \<notin> superseded b" "\<forall>l. map_of (providers b) n = Some l \<longrightarrow> l_uid l \<noteq> u"
      "current now n u scheme b = newProviderLedger (PeriodKey scheme now) u"
  | (same) l where "u \<notin> superseded b" "map_of (providers b) n = Some l" "l_uid l = u"
      "l_period l = PeriodKey scheme now" "current now n u scheme b = l"
  | (rolled) l where "u \<notin> superseded b" "map_of (providers b) n = Some l" "l_uid l = u"
      "l_period l \<noteq> PeriodKey scheme now" "current now n u scheme b = rollover (PeriodKey scheme now) l"
  by (cases "u \<in> superseded b"; cases "map_of (providers b) n")
    (auto simp: ledgerFor_def Let_def split: if_splits)

lemma current_uid [simp]: "l_uid (current now n u scheme b) = u"
  by (rule current_cases [of u b now n scheme]) auto

lemma current_period [simp]: "l_period (current now n u scheme b) = PeriodKey scheme now"
  by (rule current_cases [of u b now n scheme]) auto

lemma ledgerFor_state:
  assumes "u \<notin> superseded b"
  shows "fst (ledgerFor now n u scheme b) =
    b\<lparr>providers := AList.update n (current now n u scheme b) (providers b),
      superseded := superseded b \<union> {l_uid l | l. map_of (providers b) n = Some l \<and> l_uid l \<noteq> u}\<rparr>"
  using assms by (cases "map_of (providers b) n") (auto simp: ledgerFor_def Let_def split: if_splits)

subsection \<open>The contract of a critical section\<close>

text \<open>
  The maps a section writes itself are proper maps. The peer views are handed in by the folds,
  which build them as proper maps (\<open>FoldPartials_distinct\<close>).
\<close>

definition wf_pl :: "providerLedger \<Rightarrow> bool" where
  "wf_pl l \<longleftrightarrow> distinct (map fst (own l)) \<and> distinct (map fst (ownW l)) \<and> distinct (map fst (adm l))"

text \<open>
  \<open>owner\<close> says which name each UID belongs to: the API server never reuses a UID, so a UID
  belongs to one object and that object has one name.
\<close>

definition wf_ledger :: "(uid \<Rightarrow> string) \<Rightarrow> BudgetLedger \<Rightarrow> bool" where
  "wf_ledger owner b \<longleftrightarrow> distinct (map fst (providers b)) \<and>
     (\<forall>n l. map_of (providers b) n = Some l \<longrightarrow> owner (l_uid l) = n \<and> l_uid l \<notin> superseded b \<and> wf_pl l)"

definition all_ledgers :: "(providerLedger \<Rightarrow> bool) \<Rightarrow> BudgetLedger \<Rightarrow> bool" where
  "all_ledgers P b \<longleftrightarrow> (\<forall>n l. map_of (providers b) n = Some l \<longrightarrow> P l)"

lemma wf_pl_new [simp]: "wf_pl (newProviderLedger p u)"
  by (simp add: wf_pl_def)

lemma wf_pl_rollover [simp]: "wf_pl (rollover p l)"
  by (simp add: wf_pl_def)

lemma current_all:
  assumes "all_ledgers P b" "\<And>p u. P (newProviderLedger p u)" "\<And>p l. P l \<Longrightarrow> P (rollover p l)"
  shows "P (current now n u scheme b)"
  using assms by (cases rule: current_cases [of u b now n scheme]) (auto simp: all_ledgers_def)

lemma wf_ledger_all: "wf_ledger owner b \<Longrightarrow> all_ledgers wf_pl b"
  by (simp add: wf_ledger_def all_ledgers_def)

lemma wf_current: "wf_ledger owner b \<Longrightarrow> wf_pl (current now n u scheme b)"
  by (rule current_all [OF wf_ledger_all]) simp_all

lemma wf_NewBudgetLedger [simp]: "wf_ledger owner NewBudgetLedger"
  by (simp add: wf_ledger_def NewBudgetLedger_def)

locale ledger_update =
  fixes upd :: "providerLedger \<Rightarrow> providerLedger \<times> 'r"
  assumes upd_uid: "l_uid (fst (upd l)) = l_uid l"
    and upd_period: "l_period (fst (upd l)) = l_period l"
    and upd_wf: "wf_pl l \<Longrightarrow> wf_pl (fst (upd l))"
begin

lemma result: "snd (withLedger now n u scheme upd b) = snd (upd (current now n u scheme b))"
  by (simp add: withLedger_def Let_def split: prod.splits)

lemma on_superseded: "u \<in> superseded b \<Longrightarrow> fst (withLedger now n u scheme upd b) = b"
  using upd_uid [of "newProviderLedger (PeriodKey scheme now) u"]
  by (auto simp: withLedger_def ledgerFor_superseded storeLedger_def split: prod.splits)

lemma on_live:
  assumes "u \<notin> superseded b"
  shows "fst (withLedger now n u scheme upd b) =
    b\<lparr>providers := AList.update n (fst (upd (current now n u scheme b))) (providers b),
      superseded := superseded b \<union> {l_uid l | l. map_of (providers b) n = Some l \<and> l_uid l \<noteq> u}\<rparr>"
proof -
  obtain b' l where bl: "ledgerFor now n u scheme b = (b', l)" by (metis prod.exhaust)
  have b': "b' = b\<lparr>providers := AList.update n l (providers b),
      superseded := superseded b \<union> {l_uid l | l. map_of (providers b) n = Some l \<and> l_uid l \<noteq> u}\<rparr>"
    using ledgerFor_state [OF assms, of now n scheme] bl by simp
  have "l_uid (fst (upd l)) = u"
    using upd_uid [of l] current_uid [of now n u scheme b] bl by simp
  then have "l_uid (fst (upd l)) \<notin> superseded b'"
    using assms b' by auto
  then show ?thesis
    using bl b' by (auto simp: withLedger_def storeLedger_def split: prod.splits)
qed

lemma stored:
  "u \<notin> superseded b \<Longrightarrow>
   map_of (providers (fst (withLedger now n u scheme upd b))) n = Some (fst (upd (current now n u scheme b)))"
  by (simp add: on_live gomap_simps)

lemma frame: "n' \<noteq> n \<Longrightarrow> map_of (providers (fst (withLedger now n u scheme upd b))) n' = map_of (providers b) n'"
  by (cases "u \<in> superseded b") (simp_all add: on_superseded on_live gomap_simps)

lemma unchanged [simp]:
  "kick (fst (withLedger now n u scheme upd b)) = kick b"
  "stalenessWindow (fst (withLedger now n u scheme upd b)) = stalenessWindow b"
  by (cases "u \<in> superseded b"; simp add: on_superseded on_live)+

lemma superseded_grows: "superseded b \<subseteq> superseded (fst (withLedger now n u scheme upd b))"
  by (cases "u \<in> superseded b") (auto simp: on_superseded on_live)

lemma keeps_wf [inv_intros]:
  assumes "wf_ledger owner b" "owner u = n"
  shows "wf_ledger owner (fst (withLedger now n u scheme upd b))"
proof (cases "u \<in> superseded b")
  case False
  have "l_uid (fst (upd (current now n u scheme b))) = u" "wf_pl (fst (upd (current now n u scheme b)))"
    using upd_uid upd_wf wf_current [OF assms(1)] by auto
  then show ?thesis
    using assms False
    by (auto simp: wf_ledger_def on_live gomap_simps distinct_update split: if_splits) metis
qed (use assms in \<open>simp add: on_superseded\<close>)

end

text \<open>A section that keeps a property of single ledgers keeps it of all stored ones.\<close>

locale ledger_invariant = ledger_update upd for upd :: "providerLedger \<Rightarrow> providerLedger \<times> 'r" +
  fixes P :: "providerLedger \<Rightarrow> bool"
  assumes P_new: "P (newProviderLedger p u)"
    and P_rollover: "P l \<Longrightarrow> P (rollover p l)"
    and P_upd: "P l \<Longrightarrow> P (fst (upd l))"
begin

lemma keeps_all [inv_intros]: "all_ledgers P b \<Longrightarrow> all_ledgers P (fst (withLedger now n u scheme upd b))"
proof (cases "u \<in> superseded b")
  case False
  assume "all_ledgers P b"
  moreover have "P (fst (upd (current now n u scheme b)))"
    using \<open>all_ledgers P b\<close> by (rule P_upd [OF current_all [OF _ P_new P_rollover]])
  ultimately show ?thesis
    using False by (auto simp: all_ledgers_def on_live gomap_simps split: if_splits)
qed (simp add: on_superseded)

end

subsection \<open>The sections of this file\<close>

lemma trackLocked_simps [simp]:
  "l_uid (trackLocked now c l) = l_uid l" "l_period (trackLocked now c l) = l_period l"
  "own (trackLocked now c l) = own l" "peers (trackLocked now c l) = peers l"
  "ownW (trackLocked now c l) = ownW l" "peersW (trackLocked now c l) = peersW l"
  "adm (trackLocked now c l) = adm l" "nextToken (trackLocked now c l) = nextToken l"
  "dirtySince (trackLocked now c l) = dirtySince l" "lastFoldOK (trackLocked now c l) = lastFoldOK l"
  "marginRaised (trackLocked now c l) = marginRaised l"
  by (auto simp: trackLocked_def Let_def split: option.splits)

lemma trackLocked_max: "maxCostPerCall (trackLocked now c l) = (if 0 < c then max c (maxCostPerCall l) else maxCostPerCall l)"
  by (auto simp: trackLocked_def Let_def max_def split: option.splits)

lemma trackLocked_peak: "peakRatePerSec l \<le> peakRatePerSec (trackLocked now c l)"
  by (auto simp: trackLocked_def Let_def split: option.splits)

lemma recordSpend_simps [simp]:
  "l_uid (recordSpend now ns w c l) = l_uid l" "l_period (recordSpend now ns w c l) = l_period l"
  "own (recordSpend now ns w c l) = gadd ns c (own l)" "peers (recordSpend now ns w c l) = peers l"
  "ownW (recordSpend now ns w c l) = gadd (ns @ ''/'' @ w) c (ownW l)"
  "peersW (recordSpend now ns w c l) = peersW l"
  "adm (recordSpend now ns w c l) = adm l" "nextToken (recordSpend now ns w c l) = nextToken l"
  "lastFoldOK (recordSpend now ns w c l) = lastFoldOK l"
  "dirtySince (recordSpend now ns w c l) = Some (case dirtySince l of None \<Rightarrow> now | Some d \<Rightarrow> d)"
  "marginRaised (recordSpend now ns w c l) = marginRaised l"
  by (auto simp: recordSpend_def Let_def split: option.splits)

lemma recordSpend_max:
  "maxCostPerCall (recordSpend now ns w c l) = (if 0 < c then max c (maxCostPerCall l) else maxCostPerCall l)"
  by (simp add: recordSpend_def Let_def trackLocked_max)

text \<open>
  The workload rows of a namespace sum to its spend: \<open>rows_sum\<close> says so of the counters a
  replica keeps itself. A namespace name has no slash, so a row belongs to one namespace.
\<close>

definition row_of :: "string \<Rightarrow> string \<Rightarrow> bool" where
  "row_of ns key \<longleftrightarrow> HasPrefix key (ns @ ''/'')"

definition is_namespace :: "string \<Rightarrow> bool" where
  "is_namespace ns \<longleftrightarrow> ns \<noteq> [] \<and> CHR ''/'' \<notin> set ns"

definition rows_sum :: "providerLedger \<Rightarrow> bool" where
  "rows_sum l \<longleftrightarrow> (\<forall>ns. is_namespace ns \<longrightarrow> gwhere (row_of ns) (ownW l) = gnum (own l) ns)"

lemma row_of_key:
  "is_namespace ns \<Longrightarrow> is_namespace ns' \<Longrightarrow> row_of ns (ns' @ CHR ''/'' # w) \<longleftrightarrow> ns = ns'"
proof (unfold row_of_def HasPrefix_iff is_namespace_def, elim conjE)
  assume "CHR ''/'' \<notin> set ns" "CHR ''/'' \<notin> set ns'"
  then show "prefix (ns @ ''/'') (ns' @ CHR ''/'' # w) \<longleftrightarrow> ns = ns'"
  proof (induction ns arbitrary: ns')
    case Nil
    then show ?case by (cases ns') (auto simp: prefix_def)
  next
    case (Cons c ns)
    then show ?case by (cases ns') (auto simp: prefix_def)
  qed
qed

interpretation recording: ledger_update "\<lambda>l. (recordSpend now ns w c l, ())" for now ns w c
  by unfold_locales (auto simp: wf_pl_def)

interpretation folding: ledger_update "\<lambda>l. (l\<lparr>peers := ps, lastFoldOK := Some now\<rparr>, ())" for ps now
  by unfold_locales (auto simp: wf_pl_def)

interpretation folding_rows: ledger_update "\<lambda>l. (l\<lparr>peersW := ps\<rparr>, ())" for ps
  by unfold_locales (auto simp: wf_pl_def)

lemma rows_sum_new [simp]: "rows_sum (newProviderLedger p u)"
  by (simp add: rows_sum_def)

lemma rows_sum_rollover [simp]: "rows_sum (rollover p l)"
  by (simp add: rows_sum_def)

lemma rows_sum_recordSpend:
  "is_namespace ns \<Longrightarrow> rows_sum l \<Longrightarrow> rows_sum (recordSpend now ns w c l)"
  by (auto simp: rows_sum_def gomap_simps row_of_key)

interpretation folding_inv: ledger_invariant "\<lambda>l. (l\<lparr>peers := ps, lastFoldOK := Some now\<rparr>, ())" rows_sum for ps now
  by unfold_locales (auto simp: rows_sum_def)

interpretation folding_rows_inv: ledger_invariant "\<lambda>l. (l\<lparr>peersW := ps\<rparr>, ())" rows_sum for ps
  by unfold_locales (auto simp: rows_sum_def)

lemma recording_inv: "is_namespace ns \<Longrightarrow> ledger_invariant (\<lambda>l. (recordSpend now ns w c l, ())) rows_sum"
  by unfold_locales (auto simp: rows_sum_recordSpend)

subsection \<open>The rows a namespace is shown\<close>

lemma workload_rows_total:
  "gtotal (workload_rows (ns @ ''/'') m acc) = gtotal acc + gwhere (row_of ns) m"
proof (induction m arbitrary: acc)
  case (Cons e m)
  obtain k v where e: "e = (k, v)" by (cases e)
  show ?case
    using Cons.IH e
    by (auto simp: workload_rows_def gomap_simps row_of_def HasPrefix_def split: option.splits)
qed (simp add: workload_rows_def)

lemma workload_rows_distinct:
  "distinct (map fst acc) \<Longrightarrow> distinct (map fst (workload_rows pre m acc))"
proof (induction m arbitrary: acc)
  case (Cons e m)
  obtain k v where e: "e = (k, v)" by (cases e)
  show ?case
    using Cons.IH Cons.prems e
    by (auto simp: workload_rows_def intro!: distinct_gadd split: option.splits)
qed (simp add: workload_rows_def)

lemma WorkloadSpend_other:
  "n \<notin> fst ` set ps \<Longrightarrow>
   map_of (fold (\<lambda>(providerName, l) out.
           let acc = workload_rows pre (ownW l) []; acc = workload_rows pre (peersW l) acc
           in if acc = [] then out
              else AList.update providerName
                     \<lparr>wps_Period = l_period l, wps_Workloads = format_spend acc\<rparr> out) ps out) n = map_of out n"
  by (induction ps arbitrary: out) (auto simp: Let_def gomap_simps)

lemma WorkloadSpend_lookup:
  assumes "distinct (map fst (providers b))" "map_of (providers b) n = Some l"
    and "rows = workload_rows (ns @ ''/'') (peersW l) (workload_rows (ns @ ''/'') (ownW l) [])"
  shows "map_of (WorkloadSpend ns b) n =
    (if rows = [] then None else Some \<lparr>wps_Period = l_period l, wps_Workloads = format_spend rows\<rparr>)"
proof -
  obtain xs ys where split: "providers b = xs @ (n, l) # ys"
    using assms(2) by (meson map_of_SomeD split_list)
  then have "n \<notin> fst ` set xs" "n \<notin> fst ` set ys"
    using assms(1) by auto
  then show ?thesis
    using split assms(3) by (simp add: WorkloadSpend_def Let_def WorkloadSpend_other [unfolded Let_def] gomap_simps)
qed

subsection \<open>Properties\<close>

text \<open>
  C17. What recording spend does, and that it does nothing else. In the current period of a
  provider whose UID is live, \<open>Add\<close> raises the namespace's counter and the workload's row by the
  cost and leaves every other counter and row as the lookup left it; it notes the time of the
  oldest unpublished settle without moving one already noted; it feeds the traffic trackers,
  whose maxima never fall. The peers' view, the slots, the tokens and the last fold stay, and so
  do every other provider's ledger and the queue of publishes.
\<close>

theorem Add_records:
  assumes "UID p \<notin> superseded b" "period_of p \<in> schemes" "c \<noteq> 0"
    and "cur = current now (Name p) (UID p) (period_of p) b"
  shows "\<exists>l. Add now p ns wl c b = b\<lparr>providers := AList.update (Name p) l (providers b),
        superseded := superseded b \<union> {l_uid l' | l'. map_of (providers b) (Name p) = Some l' \<and> l_uid l' \<noteq> UID p}\<rparr>
    \<and> (\<forall>k. gnum (own l) k = gnum (own cur) k + (if k = ns then c else 0))
    \<and> (\<forall>k. gnum (ownW l) k = gnum (ownW cur) k + (if k = ns @ ''/'' @ wl then c else 0))
    \<and> dirtySince l = Some (case dirtySince cur of None \<Rightarrow> now | Some d \<Rightarrow> d)
    \<and> maxCostPerCall l = (if 0 < c then max c (maxCostPerCall cur) else maxCostPerCall cur)
    \<and> peakRatePerSec cur \<le> peakRatePerSec l
    \<and> l = cur\<lparr>own := own l, ownW := ownW l, dirtySince := dirtySince l, maxCostPerCall := maxCostPerCall l,
        rateBucketStart := rateBucketStart l, rateBucketSum := rateBucketSum l, peakRatePerSec := peakRatePerSec l\<rparr>"
proof (intro exI conjI)
  let ?l = "recordSpend now ns wl c cur"
  show "Add now p ns wl c b = b\<lparr>providers := AList.update (Name p) ?l (providers b),
      superseded := superseded b \<union> {l_uid l' | l'. map_of (providers b) (Name p) = Some l' \<and> l_uid l' \<noteq> UID p}\<rparr>"
    using assms by (simp add: Add_def Let_def PeriodKey_empty_iff recording.on_live)
  show "\<forall>k. gnum (own ?l) k = gnum (own cur) k + (if k = ns then c else 0)"
    "\<forall>k. gnum (ownW ?l) k = gnum (ownW cur) k + (if k = ns @ ''/'' @ wl then c else 0)"
    by (simp_all add: gomap_simps)
  show "dirtySince ?l = Some (case dirtySince cur of None \<Rightarrow> now | Some d \<Rightarrow> d)"
    by (simp add: recordSpend_def Let_def split: option.split)
  show "maxCostPerCall ?l = (if 0 < c then max c (maxCostPerCall cur) else maxCostPerCall cur)"
    by (simp add: recordSpend_max)
  show "peakRatePerSec cur \<le> peakRatePerSec ?l"
    using trackLocked_peak [of "cur\<lparr>own := gadd ns c (own cur), ownW := gadd (ns @ ''/'' @ wl) c (ownW cur)\<rparr>" now c]
    by (simp add: recordSpend_def Let_def)
  show "?l = cur\<lparr>own := own ?l, ownW := ownW ?l, dirtySince := dirtySince ?l, maxCostPerCall := maxCostPerCall ?l,
      rateBucketStart := rateBucketStart ?l, rateBucketSum := rateBucketSum ?l, peakRatePerSec := peakRatePerSec ?l\<rparr>"
    by (intro providerLedger.equality) simp_all
qed

definition demo_provider :: ModelProvider where
  "demo_provider = \<lparr>Name = ''claude'', UID = ''u1'', Spec = \<lparr>Type = ''anthropic'', Endpoint = ''https://api.example.com'',
     CredentialsRef = \<lparr>secret_Name = ''creds'', secret_Key = ''key''\<rparr>,
     Models = [\<lparr>ID = ''opus'', DisplayName = [], CostPer1MInputTokens = ''15'', CostPer1MOutputTokens = ''75'', MaxOutputTokens = None\<rparr>,
               \<lparr>ID = ''haiku'', DisplayName = [], CostPer1MInputTokens = ''1'', CostPer1MOutputTokens = ''5'', MaxOutputTokens = Some 4096\<rparr>],
     AllowedNamespaces = [''team-*''],
     Budget = \<lparr>Period = ''monthly'', PerNamespaceUSD = ''100'',
       Policies = [\<lparr>AtPercent = 80, Action = ''warn'', DegradeTo = None\<rparr>,
                   \<lparr>AtPercent = 90, Action = ''degrade'', DegradeTo = Some ''haiku''\<rparr>,
                   \<lparr>AtPercent = 100, Action = ''block'', DegradeTo = None\<rparr>],
       ClusterUSD = Some ''1000'', Enforcement = ''hard'', Hard = Some \<lparr>BoundaryMarginPercent = 5\<rparr>\<rparr>,
     RateLimits = \<lparr>RequestsPerMinute = 60, TokensPerMinute = 0\<rparr>, Fallback = [], HealthCheck = None\<rparr>\<rparr>"

theorem Add_records_witness:
  "\<exists>l. map_of (providers (Add 0 demo_provider ''team-a'' ''agent/a'' (3 / 2) NewBudgetLedger)) ''claude'' = Some l
    \<and> gnum (own l) ''team-a'' = 3 / 2 \<and> gnum (own l) ''team-b'' = 0"
proof -
  have "UID demo_provider \<notin> superseded NewBudgetLedger" "period_of demo_provider \<in> schemes" "(3 / 2 :: usd) \<noteq> 0"
    by (simp_all add: demo_provider_def NewBudgetLedger_def schemes_def)
  from Add_records [OF this refl, of 0 "''team-a''" "''agent/a''"] obtain l where
    "Add 0 demo_provider ''team-a'' ''agent/a'' (3 / 2) NewBudgetLedger = NewBudgetLedger\<lparr>providers := AList.update (Name demo_provider) l
       (providers NewBudgetLedger), superseded := superseded NewBudgetLedger \<union> {l_uid l' | l'. map_of (providers NewBudgetLedger)
       (Name demo_provider) = Some l' \<and> l_uid l' \<noteq> UID demo_provider}\<rparr>"
    "\<forall>k. gnum (own l) k = gnum (own (current 0 (Name demo_provider) (UID demo_provider) (period_of demo_provider) NewBudgetLedger)) k
       + (if k = ''team-a'' then 3 / 2 else 0)"
    by blast
  moreover have "own (current 0 (Name demo_provider) (UID demo_provider) (period_of demo_provider) NewBudgetLedger) = []"
    by (simp add: ledgerFor_def NewBudgetLedger_def Let_def)
  ultimately show ?thesis by (auto simp: demo_provider_def gomap_simps)
qed

text \<open>
  C18. The per-workload rows shown for a namespace account for all of its spend: when a provider
  has rows for a namespace, \<^verbatim>\<open>WorkloadSpend\<close> shows the cents of amounts that sum to the
  replica's own counter of the namespace plus the rows its peers published, and when it shows
  none, both are zero.
\<close>

theorem WorkloadSpend_accounts:
  assumes "distinct (map fst (providers b))" "map_of (providers b) n = Some l" "rows_sum l" "is_namespace ns"
  shows "\<exists>rows. gtotal rows = gnum (own l) ns + gwhere (row_of ns) (peersW l) \<and> distinct (map fst rows)
    \<and> map_of (WorkloadSpend ns b) n =
        (if rows = [] then None else Some \<lparr>wps_Period = l_period l, wps_Workloads = format_spend rows\<rparr>)"
proof -
  let ?rows = "workload_rows (ns @ ''/'') (peersW l) (workload_rows (ns @ ''/'') (ownW l) [])"
  have "gtotal ?rows = gnum (own l) ns + gwhere (row_of ns) (peersW l)"
    using assms(3,4) by (simp add: workload_rows_total rows_sum_def)
  moreover have "distinct (map fst ?rows)"
    by (simp add: workload_rows_distinct)
  ultimately show ?thesis
    using WorkloadSpend_lookup [OF assms(1,2) refl, of ns] by blast
qed

definition demo_ledger :: providerLedger where
  "demo_ledger = (newProviderLedger ''2026-03'' ''u1'')\<lparr>own := [(''team-a'', 5)],
     ownW := [(''team-a/agent/a'', 3), (''team-a/task/t'', 2)], peersW := [(''team-a/agent/a'', 1), (''team-b/agent/z'', 7)]\<rparr>"

lemma demo_ledger_rows: "rows_sum demo_ledger"
proof -
  have a: "''team-a/agent/a'' = ''team-a'' @ CHR ''/'' # ''agent/a''" "''team-a/task/t'' = ''team-a'' @ CHR ''/'' # ''task/t''"
    by simp_all
  have "is_namespace ''team-a''" by (simp add: is_namespace_def)
  then show ?thesis
    unfolding rows_sum_def demo_ledger_def
    by (simp add: a row_of_key gnum_Cons del: append.simps)
qed

theorem WorkloadSpend_accounts_witness:
  "map_of (WorkloadSpend ''team-a'' (NewBudgetLedger\<lparr>providers := [(''claude'', demo_ledger)]\<rparr>)) ''claude'' \<noteq> None"
proof -
  have r: "gwhere (row_of ''team-a'') (peersW demo_ledger) = 1"
    by (simp add: demo_ledger_def row_of_def HasPrefix_def)
  obtain rows where "gtotal rows = gnum (own demo_ledger) ''team-a'' + gwhere (row_of ''team-a'') (peersW demo_ledger)"
    "map_of (WorkloadSpend ''team-a'' (NewBudgetLedger\<lparr>providers := [(''claude'', demo_ledger)]\<rparr>)) ''claude'' =
      (if rows = [] then None else Some \<lparr>wps_Period = l_period demo_ledger, wps_Workloads = format_spend rows\<rparr>)"
    using WorkloadSpend_accounts [of "NewBudgetLedger\<lparr>providers := [(''claude'', demo_ledger)]\<rparr>" "''claude''" demo_ledger "''team-a''"]
      demo_ledger_rows by (auto simp: is_namespace_def)
  moreover from this(1) have "rows \<noteq> []"
    using r by (auto simp: demo_ledger_def gnum_Cons)
  ultimately show ?thesis by simp
qed

end
