(* ===== verification/Budget_Enforce.thy ===== *)
theory Budget_Enforce
  imports Budget_Ledger
begin

text \<open>
  The soft half of budget enforcement (\<^verbatim>\<open>src/internal/gateway/budget.go\<close>): the two
  ceiling ratios, the policy ladder and \<open>Enforce\<close>, with the utilization gauge of
  \<^verbatim>\<open>budget_metrics.go\<close>.

  The lemmas characterise the ladder (the winner is the first policy of the highest crossed
  threshold) and show that it is monotone: more spend never selects a lower threshold.
\<close>

subsection \<open>Spend and ceilings\<close>

definition spent :: "providerLedger \<Rightarrow> string \<Rightarrow> usd" where
  "spent l namespace = gnum (own l) namespace + gnum (peers l) namespace"

definition clusterSpent :: "providerLedger \<Rightarrow> usd" where
  "clusterSpent l =
     fold (\<lambda>(k, v) total. total + v) (peers l) (fold (\<lambda>(k, v) total. total + v) (own l) 0)"

lemma clusterSpent_eq: "clusterSpent l = gtotal (own l) + gtotal (peers l)"
  by (simp add: clusterSpent_def fold_plus_rat gtotal_eq)

record utilization =
  nsPct :: rat
  clPct :: rat
  nsUSD :: usd
  clUSD :: usd
  worst :: rat
  worstIsCluster :: bool

definition utilizationOf :: "ModelProviderBudget \<Rightarrow> usd \<Rightarrow> usd \<Rightarrow> utilization" where
  "utilizationOf budget nsSpent clSpent =
     (let u = \<lparr>nsPct = 0, clPct = 0, nsUSD = 0, clUSD = 0, worst = 0, worstIsCluster = False\<rparr>;
          u = (case ParseFloat (PerNamespaceUSD budget) of
                 Some ceil \<Rightarrow>
                   if ceil > 0 then
                     (let u = u\<lparr>nsUSD := ceil\<rparr>; u = u\<lparr>nsPct := nsSpent / ceil * 100\<rparr>
                      in u\<lparr>worst := nsPct u\<rparr>)
                   else u
               | None \<Rightarrow> u)
      in case ClusterUSD budget of
           None \<Rightarrow> u
         | Some c \<Rightarrow>
             (case ParseFloat c of
                Some ceil \<Rightarrow>
                  if ceil > 0 then
                    (let u = u\<lparr>clUSD := ceil\<rparr>; u = u\<lparr>clPct := clSpent / ceil * 100\<rparr>
                     in if clPct u > worst u then u\<lparr>worst := clPct u, worstIsCluster := True\<rparr> else u)
                  else u
              | None \<Rightarrow> u))"

definition utilizationLocked :: "ModelProviderBudget \<Rightarrow> providerLedger \<Rightarrow> string \<Rightarrow> utilization" where
  "utilizationLocked budget l namespace = utilizationOf budget (spent l namespace) (clusterSpent l)"

definition BudgetUtilization :: "ModelProviderBudget \<Rightarrow> usd \<Rightarrow> usd \<Rightarrow> rat" where
  "BudgetUtilization budget nsSpent clSpent = worst (utilizationOf budget nsSpent clSpent)"

text \<open>A ceiling that is enforced: set, parseable and positive.\<close>

definition ceiling_of :: "string option \<Rightarrow> usd option" where
  "ceiling_of s = (case s of None \<Rightarrow> None | Some t \<Rightarrow>
     (case ParseFloat t of None \<Rightarrow> None | Some c \<Rightarrow> if c > 0 then Some c else None))"

definition ratio :: "usd \<Rightarrow> usd option \<Rightarrow> rat" where
  "ratio spend c = (case c of None \<Rightarrow> 0 | Some c \<Rightarrow> spend / c * 100)"

lemma ceiling_of_pos: "ceiling_of s = Some c \<Longrightarrow> 0 < c"
  by (auto simp: ceiling_of_def split: option.splits if_splits)

lemma utilizationOf_fields:
  "nsUSD (utilizationOf budget ns cl) = (case ceiling_of (Some (PerNamespaceUSD budget)) of None \<Rightarrow> 0 | Some c \<Rightarrow> c)"
  "clUSD (utilizationOf budget ns cl) = (case ceiling_of (ClusterUSD budget) of None \<Rightarrow> 0 | Some c \<Rightarrow> c)"
  "nsPct (utilizationOf budget ns cl) = ratio ns (ceiling_of (Some (PerNamespaceUSD budget)))"
  "clPct (utilizationOf budget ns cl) = ratio cl (ceiling_of (ClusterUSD budget))"
  by (auto simp: utilizationOf_def Let_def ceiling_of_def ratio_def split: option.splits)

lemma ratio_nonneg: "0 \<le> s \<Longrightarrow> c = None \<or> (\<exists>x > 0. c = Some x) \<Longrightarrow> 0 \<le> ratio s c"
  by (auto simp: ratio_def)

lemma utilizationOf_worst:
  assumes "0 \<le> ns" "0 \<le> cl"
  shows "worst (utilizationOf budget ns cl) =
    max (ratio ns (ceiling_of (Some (PerNamespaceUSD budget)))) (ratio cl (ceiling_of (ClusterUSD budget)))"
proof -
  let ?w = "ratio ns (ceiling_of (Some (PerNamespaceUSD budget)))"
  have "worst (utilizationOf budget ns cl) =
      (case ceiling_of (ClusterUSD budget) of None \<Rightarrow> ?w
       | Some c \<Rightarrow> if ratio cl (Some c) > ?w then ratio cl (Some c) else ?w)"
    by (auto simp: utilizationOf_def Let_def ceiling_of_def ratio_def split: option.splits)
  moreover have "0 \<le> ?w"
    using assms(1) ceiling_of_pos by (cases "ceiling_of (Some (PerNamespaceUSD budget))") (auto intro: ratio_nonneg)
  ultimately show ?thesis
    by (auto simp: ratio_def [of _ None] max_def split: option.splits)
qed

lemma utilizationOf_mono:
  assumes "0 \<le> ns" "ns \<le> ns'" "0 \<le> cl" "cl \<le> cl'"
  shows "worst (utilizationOf budget ns cl) \<le> worst (utilizationOf budget ns' cl')"
proof -
  have "ratio s (ceiling_of t) \<le> ratio s' (ceiling_of t)" if "s \<le> s'" for s s' t
    using that ceiling_of_pos [of t] by (auto simp: ratio_def divide_right_mono split: option.splits)
  moreover have "0 \<le> ns'" "0 \<le> cl'" using assms by simp_all
  ultimately show ?thesis
    unfolding utilizationOf_worst [OF assms(1,3)] utilizationOf_worst [OF \<open>0 \<le> ns'\<close> \<open>0 \<le> cl'\<close>]
    using assms by (intro max.mono) auto
qed

subsection \<open>The policy ladder\<close>

definition policy_step ::
  "rat \<Rightarrow> ModelProviderBudgetPolicy \<Rightarrow> ModelProviderBudgetPolicy option \<Rightarrow> ModelProviderBudgetPolicy option" where
  "policy_step percent p winner =
     (if percent \<ge> of_int (AtPercent p) \<and> (case winner of None \<Rightarrow> True | Some w \<Rightarrow> AtPercent p > AtPercent w)
      then Some p else winner)"

definition BudgetPolicyAt :: "ModelProviderBudget \<Rightarrow> rat \<Rightarrow> ModelProviderBudgetPolicy option" where
  "BudgetPolicyAt budget percent = fold (policy_step percent) (Policies budget) None"

text \<open>
  What the ladder promises: no policy is crossed, or the winner is crossed, has the highest
  threshold of the crossed ones, and is the first in the list with that threshold.
\<close>

definition ladder_choice :: "rat \<Rightarrow> ModelProviderBudgetPolicy list \<Rightarrow> ModelProviderBudgetPolicy option \<Rightarrow> bool" where
  "ladder_choice percent ps choice \<longleftrightarrow> (case choice of
       None \<Rightarrow> \<forall>p \<in> set ps. percent < of_int (AtPercent p)
     | Some w \<Rightarrow> \<exists>xs ys. ps = xs @ w # ys \<and> of_int (AtPercent w) \<le> percent
         \<and> (\<forall>p \<in> set xs. of_int (AtPercent p) \<le> percent \<longrightarrow> AtPercent p < AtPercent w)
         \<and> (\<forall>p \<in> set ys. of_int (AtPercent p) \<le> percent \<longrightarrow> AtPercent p \<le> AtPercent w))"

lemma ladder_choice_Some:
  "ps = xs @ w # ys \<Longrightarrow> of_int (AtPercent w) \<le> percent \<Longrightarrow>
   \<forall>p \<in> set xs. of_int (AtPercent p) \<le> percent \<longrightarrow> AtPercent p < AtPercent w \<Longrightarrow>
   \<forall>p \<in> set ys. of_int (AtPercent p) \<le> percent \<longrightarrow> AtPercent p \<le> AtPercent w \<Longrightarrow>
   ladder_choice percent ps (Some w)"
  unfolding ladder_choice_def option.case by blast

lemma ladder_fold: "ladder_choice percent ps (fold (policy_step percent) ps None)"
proof (induction ps rule: rev_induct)
  case Nil
  then show ?case by (simp add: ladder_choice_def)
next
  case (snoc p ps)
  let ?w = "fold (policy_step percent) ps None"
  show ?case
  proof (cases ?w)
    case None
    then have ps: "\<forall>q \<in> set ps. percent < of_int (AtPercent q)"
      using snoc by (simp add: ladder_choice_def)
    show ?thesis
    proof (cases "of_int (AtPercent p) \<le> percent")
      case True
      then have "ladder_choice percent (ps @ [p]) (Some p)"
        using ps by (intro ladder_choice_Some [of _ ps _ "[]"]) auto
      then show ?thesis using None True by (simp add: policy_step_def [of percent p])
    next
      case False
      then show ?thesis using None ps by (simp add: policy_step_def [of percent p] ladder_choice_def)
    qed
  next
    case (Some w)
    then obtain xs ys where w: "ps = xs @ w # ys" "of_int (AtPercent w) \<le> percent"
      "\<forall>p \<in> set xs. of_int (AtPercent p) \<le> percent \<longrightarrow> AtPercent p < AtPercent w"
      "\<forall>p \<in> set ys. of_int (AtPercent p) \<le> percent \<longrightarrow> AtPercent p \<le> AtPercent w"
      using snoc by (auto simp: ladder_choice_def)
    show ?thesis
    proof (cases "of_int (AtPercent p) \<le> percent \<and> AtPercent w < AtPercent p")
      case True
      then have "fold (policy_step percent) (ps @ [p]) None = Some p"
        using Some by (simp add: policy_step_def [of percent p])
      moreover have "\<forall>q \<in> set ps. of_int (AtPercent q) \<le> percent \<longrightarrow> AtPercent q < AtPercent p"
        using w True by fastforce
      ultimately show ?thesis
        using True ladder_choice_Some [of "ps @ [p]" ps p "[]"] by simp
    next
      case False
      then have "fold (policy_step percent) (ps @ [p]) None = Some w"
        using Some by (auto simp: policy_step_def [of percent p])
      moreover have "ps @ [p] = xs @ w # (ys @ [p])"
        "\<forall>q \<in> set (ys @ [p]). of_int (AtPercent q) \<le> percent \<longrightarrow> AtPercent q \<le> AtPercent w"
        using w False by auto
      ultimately show ?thesis
        using w(2,3) ladder_choice_Some [of "ps @ [p]" xs w "ys @ [p]"] by metis
    qed
  qed
qed

lemma BudgetPolicyAt_choice: "ladder_choice percent (Policies budget) (BudgetPolicyAt budget percent)"
  by (simp add: BudgetPolicyAt_def ladder_fold)

lemma BudgetPolicyAt_SomeD:
  assumes "BudgetPolicyAt budget percent = Some w"
  shows "w \<in> set (Policies budget)" "of_int (AtPercent w) \<le> percent"
    and "p \<in> set (Policies budget) \<Longrightarrow> of_int (AtPercent p) \<le> percent \<Longrightarrow> AtPercent p \<le> AtPercent w"
  using BudgetPolicyAt_choice [of percent budget] assms by (fastforce simp: ladder_choice_def)+

lemma BudgetPolicyAt_NoneD:
  "BudgetPolicyAt budget percent = None \<Longrightarrow> p \<in> set (Policies budget) \<Longrightarrow> percent < of_int (AtPercent p)"
  using BudgetPolicyAt_choice [of percent budget] by (simp add: ladder_choice_def)

subsection \<open>The decision\<close>

record budgetDecision =
  d_Action :: string
  d_DegradeTo :: string
  d_RetryAfter :: int
  d_Percent :: int
  d_Ceiling :: string
  Throttled :: bool
  Unavailable :: bool
  BoundaryEngaged :: bool
  MarginRaisedNow :: bool

definition no_decision :: budgetDecision where
  "no_decision = \<lparr>d_Action = [], d_DegradeTo = [], d_RetryAfter = 0, d_Percent = 0, d_Ceiling = [],
     Throttled = False, Unavailable = False, BoundaryEngaged = False, MarginRaisedNow = False\<rparr>"

definition decide :: "gotime \<Rightarrow> ModelProviderBudget \<Rightarrow> utilization \<Rightarrow> budgetDecision" where
  "decide now budget u =
     (let d = no_decision\<lparr>d_Percent := trunc (worst u), d_Ceiling := ''namespace''\<rparr>;
          d = (if worstIsCluster u then d\<lparr>d_Ceiling := ''cluster''\<rparr> else d)
      in case BudgetPolicyAt budget (worst u) of
           None \<Rightarrow> d
         | Some winner \<Rightarrow>
             (let d = d\<lparr>d_Action := Action winner\<rparr>;
                  d = (case DegradeTo winner of
                         Some m \<Rightarrow> if Action winner = BudgetActionDegrade then d\<lparr>d_DegradeTo := m\<rparr> else d
                       | None \<Rightarrow> d)
              in if Action winner = BudgetActionBlock
                 then d\<lparr>d_RetryAfter := trunc (seconds_of (nextPeriodStart (Period budget) now - now)) + 1\<rparr>
                 else d))"

definition Enforce :: "gotime \<Rightarrow> ModelProvider \<Rightarrow> string \<Rightarrow> BudgetLedger \<Rightarrow> BudgetLedger \<times> budgetDecision" where
  "Enforce now provider namespace b =
     (let budget = budget_of provider
      in if PeriodKey (Period budget) now = [] \<or> Policies budget = [] then (b, no_decision)
         else let (b, u) = withLedger now (Name provider) (UID provider) (Period budget)
                             (\<lambda>l. (l, utilizationLocked budget l namespace)) b
              in (b, decide now budget u))"

text \<open>The utilization gauge: each namespace with spend, as a ratio of the per-namespace ceiling.\<close>

definition Utilization :: "gotime \<Rightarrow> ModelProvider \<Rightarrow> BudgetLedger \<Rightarrow> BudgetLedger \<times> (string \<times> (string, rat) gomap)" where
  "Utilization now provider b =
     (case ParseFloat (PerNamespaceUSD (budget_of provider)) of
        None \<Rightarrow> (b, [], [])
      | Some ceil \<Rightarrow>
          if ceil \<le> 0 then (b, [], [])
          else withLedger now (Name provider) (UID provider) (period_of provider)
                 (\<lambda>l. let out = fold (\<lambda>(ns, v) out. AList.update ns (spent l ns / ceil) out) (own l) [];
                          out = fold (\<lambda>(ns, v) out. AList.update ns (spent l ns / ceil) out) (peers l) out
                      in (l, l_period l, out)) b)"

interpretation reading: ledger_update "\<lambda>l. (l, f l)" for f
  by unfold_locales auto

interpretation reading_inv: ledger_invariant "\<lambda>l. (l, f l)" rows_sum for f
  by unfold_locales auto

lemma decide_simps [simp]:
  "Throttled (decide now budget u) = False" "Unavailable (decide now budget u) = False"
  "BoundaryEngaged (decide now budget u) = False" "MarginRaisedNow (decide now budget u) = False"
  "d_Percent (decide now budget u) = trunc (worst u)"
  by (auto simp: decide_def no_decision_def Let_def split: option.splits)

lemma decide_action:
  "d_Action (decide now budget u) = (case BudgetPolicyAt budget (worst u) of None \<Rightarrow> [] | Some w \<Rightarrow> Action w)"
  by (auto simp: decide_def no_decision_def Let_def split: option.splits)

lemma Enforce_decision:
  "snd (Enforce now provider ns b) =
     (if PeriodKey (period_of provider) now = [] \<or> Policies (budget_of provider) = [] then no_decision
      else decide now (budget_of provider)
             (utilizationLocked (budget_of provider)
               (current now (Name provider) (UID provider) (period_of provider) b) ns))"
  by (simp add: Enforce_def Let_def withLedger_def split: prod.splits)

subsection \<open>Properties\<close>

text \<open>The example provider of the witnesses: a 100 USD namespace ceiling and a 1000 USD cluster ceiling.\<close>

lemma ParseFloat_demo [simp]: "ParseFloat ''100'' = Some 100" "ParseFloat ''1000'' = Some 1000"
  using float_overflow_gr
  by (simp_all add: ParseFloat_def is_digit_def digits_val_def digit_val_def parse_exponent_def scale10_def)

lemma demo_utilization:
  "utilizationOf (budget_of demo_provider) ns cl =
     \<lparr>nsPct = ns, clPct = cl / 10, nsUSD = 100, clUSD = 1000, worst = max ns (cl / 10), worstIsCluster = (ns < cl / 10)\<rparr>"
  by (auto simp: utilizationOf_def demo_provider_def max_def Let_def)

text \<open>
  C14. The policy ladder selects the highest crossed threshold: \<^verbatim>\<open>BudgetPolicyAt\<close>
  returns no policy exactly when the utilization is below every threshold, and else the first
  policy, in list order, among those with the highest threshold at or below the utilization.
\<close>

theorem BudgetPolicyAt_highest:
  "case BudgetPolicyAt budget percent of
     None \<Rightarrow> \<forall>p \<in> set (Policies budget). percent < of_int (AtPercent p)
   | Some w \<Rightarrow> \<exists>xs ys. Policies budget = xs @ w # ys \<and> of_int (AtPercent w) \<le> percent
       \<and> (\<forall>p \<in> set xs. of_int (AtPercent p) \<le> percent \<longrightarrow> AtPercent p < AtPercent w)
       \<and> (\<forall>p \<in> set ys. of_int (AtPercent p) \<le> percent \<longrightarrow> AtPercent p \<le> AtPercent w)"
  using BudgetPolicyAt_choice [of percent budget] by (simp add: ladder_choice_def)

theorem BudgetPolicyAt_highest_witness:
  "\<exists>w. BudgetPolicyAt (budget_of demo_provider) 95 = Some w \<and> AtPercent w = 90 \<and> Action w = ''degrade''"
proof -
  have "BudgetPolicyAt (budget_of demo_provider) 95 = Some \<lparr>AtPercent = 90, Action = ''degrade'', DegradeTo = Some ''haiku''\<rparr>"
    by (simp add: BudgetPolicyAt_def demo_provider_def policy_step_def)
  then show ?thesis
    using BudgetPolicyAt_highest [of "budget_of demo_provider" 95] by simp
qed

text \<open>
  C15. More spend never softens the decision: when a namespace's spend and the cluster's spend
  grow, the reported percentage does not fall, whether a policy is selected or not, and where a
  policy was selected one with an equal or higher threshold is.
\<close>

theorem spend_monotone:
  assumes "0 \<le> ns" "ns \<le> ns'" "0 \<le> cl" "cl \<le> cl'"
  shows "d_Percent (decide now budget (utilizationOf budget ns cl)) \<le> d_Percent (decide now budget (utilizationOf budget ns' cl'))
    \<and> (\<forall>w. BudgetPolicyAt budget (BudgetUtilization budget ns cl) = Some w \<longrightarrow>
        (\<exists>w'. BudgetPolicyAt budget (BudgetUtilization budget ns' cl') = Some w' \<and> AtPercent w \<le> AtPercent w'))"
proof (intro conjI allI impI)
  let ?p = "BudgetUtilization budget ns cl" and ?p' = "BudgetUtilization budget ns' cl'"
  have le: "?p \<le> ?p'" using utilizationOf_mono [OF assms] by (simp add: BudgetUtilization_def)
  have "0 \<le> ratio ns (ceiling_of (Some (PerNamespaceUSD budget)))"
    using assms(1) ceiling_of_pos by (cases "ceiling_of (Some (PerNamespaceUSD budget))") (auto intro: ratio_nonneg)
  then have "0 \<le> ?p" using assms by (simp add: BudgetUtilization_def utilizationOf_worst)
  then show "d_Percent (decide now budget (utilizationOf budget ns cl)) \<le> d_Percent (decide now budget (utilizationOf budget ns' cl'))"
    using le trunc_nonneg_mono by (auto simp: BudgetUtilization_def)
  fix w
  assume sel: "BudgetPolicyAt budget ?p = Some w"
  have w: "w \<in> set (Policies budget)" "of_int (AtPercent w) \<le> ?p'"
    using BudgetPolicyAt_SomeD(1,2) [OF sel] le by auto
  then obtain w' where w': "BudgetPolicyAt budget ?p' = Some w'"
    using BudgetPolicyAt_NoneD [of budget ?p' w] by (cases "BudgetPolicyAt budget ?p'") auto
  then show "\<exists>w'. BudgetPolicyAt budget ?p' = Some w' \<and> AtPercent w \<le> AtPercent w'"
    using BudgetPolicyAt_SomeD(3) [OF w' w] by blast
qed

theorem spend_monotone_witness:
  "\<exists>w'. BudgetPolicyAt (budget_of demo_provider) (BudgetUtilization (budget_of demo_provider) 101 300) = Some w'
    \<and> 80 \<le> AtPercent w'"
proof -
  have "BudgetUtilization (budget_of demo_provider) 85 300 = 85"
    by (simp add: BudgetUtilization_def demo_utilization)
  then have "BudgetPolicyAt (budget_of demo_provider) (BudgetUtilization (budget_of demo_provider) 85 300) =
      Some \<lparr>AtPercent = 80, Action = ''warn'', DegradeTo = None\<rparr>"
    by (simp add: BudgetPolicyAt_def demo_provider_def policy_step_def)
  then show ?thesis using spend_monotone [of 85 101 300 300 0 "budget_of demo_provider"] by auto
qed

text \<open>
  C16. A blocked caller is told when to come back: waiting the \<^verbatim>\<open>RetryAfter\<close> seconds of
  a block decision carries the clock past the start of the next period, and by no more than one
  second.
\<close>

lemma RetryAfter_block:
  "d_Action (decide now budget u) = BudgetActionBlock \<Longrightarrow>
   d_RetryAfter (decide now budget u) = trunc (seconds_of (nextPeriodStart (Period budget) now - now)) + 1"
  by (auto simp: decide_def no_decision_def Let_def BudgetActionBlock_def split: option.splits if_splits)

lemma trunc_seconds: "0 \<le> x \<Longrightarrow> trunc (seconds_of x) = x div second"
  using less_imp_le [OF second_pos] by (simp add: trunc_def seconds_of_def floor_divide_of_int_eq)

theorem RetryAfter_next_period:
  assumes "Period budget \<in> schemes" "d_Action (decide now budget u) = BudgetActionBlock"
  shows "nextPeriodStart (Period budget) now < now + d_RetryAfter (decide now budget u) * second
    \<and> now + d_RetryAfter (decide now budget u) * second \<le> nextPeriodStart (Period budget) now + second"
proof -
  let ?x = "nextPeriodStart (Period budget) now - now"
  have pos: "0 < ?x" using nextPeriodStart_after [OF assms(1), of now] by simp
  have "trunc (seconds_of ?x) = ?x div second"
    using pos by (simp add: trunc_seconds)
  then have r: "d_RetryAfter (decide now budget u) * second = ?x div second * second + second"
    using RetryAfter_block [OF assms(2)] by (simp add: distrib_right)
  have "?x div second * second + ?x mod second = ?x" "0 \<le> ?x mod second" "?x mod second < second"
    by simp_all
  then show ?thesis unfolding r by linarith
qed

theorem RetryAfter_next_period_witness:
  "nextPeriodStart ''monthly'' 0 < 0 + d_RetryAfter (decide 0 (budget_of demo_provider) (utilizationOf (budget_of demo_provider) 120 0)) * second"
proof -
  have "Period (budget_of demo_provider) \<in> schemes" "Period (budget_of demo_provider) = ''monthly''"
    by (simp_all add: demo_provider_def schemes_def)
  moreover have "d_Action (decide 0 (budget_of demo_provider) (utilizationOf (budget_of demo_provider) 120 0)) = BudgetActionBlock"
  proof -
    have "worst (utilizationOf (budget_of demo_provider) 120 0) = 120" by (simp add: demo_utilization)
    then show ?thesis
      by (simp add: decide_action BudgetPolicyAt_def demo_provider_def policy_step_def BudgetActionBlock_def)
  qed
  ultimately show ?thesis using RetryAfter_next_period [of "budget_of demo_provider" 0] by metis
qed

end
