(* ===== verification/Budget_Hard.thy ===== *)
theory Budget_Hard
  imports Budget_Enforce
begin

text \<open>
  Hard enforcement (\<^verbatim>\<open>src/internal/gateway/budget_hard.go\<close>): inside the boundary
  region below a block threshold \<open>Admit\<close> takes one admission slot per governed ceiling and
  returns a settle, which lands the cost and frees the slots.

  The settle closure is a \<open>ticket\<close>, the values the closure captures, with the flag of its
  \<^verbatim>\<open>sync.Once\<close>. \<open>admit_section_cases\<close> lists what an admission can do to the
  ledger, which is all that the other theories use of it.
\<close>

subsection \<open>The boundary region\<close>

definition hardActive :: "ModelProvider \<Rightarrow> bool" where
  "hardActive provider \<longleftrightarrow>
     (if Enforcement (budget_of provider) \<noteq> BudgetEnforcementHard then False
      else list_ex (\<lambda>p. Action p = BudgetActionBlock) (Policies (budget_of provider)))"

definition minBlockAt :: "ModelProviderBudget \<Rightarrow> rat" where
  "minBlockAt budget =
     fold (\<lambda>p low. if Action p = BudgetActionBlock \<and> of_int (AtPercent p) < low then of_int (AtPercent p) else low)
       (Policies budget) 101"

definition configuredMarginPercent :: "ModelProviderBudget \<Rightarrow> rat" where
  "configuredMarginPercent budget =
     (case Hard budget of Some h \<Rightarrow> of_int (BoundaryMarginPercent h) | None \<Rightarrow> 5)"

text \<open>\<open>replicas\<close> is \<open>None\<close> for a nil counter, else what the counter returns.\<close>

definition replicasCount :: "int option \<Rightarrow> int" where
  "replicasCount replicas = (case replicas of None \<Rightarrow> 1 | Some r \<Rightarrow> if r > 1 then r else 1)"

definition effectiveMarginPctLocked ::
  "int option \<Rightarrow> duration \<Rightarrow> providerLedger \<Rightarrow> usd \<Rightarrow> rat \<Rightarrow> rat" where
  "effectiveMarginPctLocked replicas window l ceilingUSD configured =
     (if ceilingUSD \<le> 0 then configured
      else
        let reps = of_int (replicasCount replicas);
            marginUSD = reps * maxCostPerCall l + (reps - 1) * peakRatePerSec l * seconds_of window;
            pct = 100 * marginUSD / ceilingUSD
        in if pct > configured then pct else configured)"

subsection \<open>Admission\<close>

record ticket =
  tk_name :: string
  tk_uid :: uid
  tk_scheme :: string
  tk_period :: string
  tk_ns :: string
  tk_workload :: string
  tk_keys :: "string list"
  tk_token :: token

text \<open>
  The boundary test and the staleness test of \<open>Admit\<close>. The write path is stale when a settle
  has waited longer than the window for its publish, the read path when the last successful
  fold is older than the window or there was none.
\<close>

definition stale :: "gotime \<Rightarrow> duration \<Rightarrow> providerLedger \<Rightarrow> bool" where
  "stale now window l \<longleftrightarrow>
     (case dirtySince l of None \<Rightarrow> False | Some d \<Rightarrow> now - d > window) \<or>
     (case lastFoldOK l of None \<Rightarrow> True | Some f \<Rightarrow> now - f > window)"

definition in_boundary ::
  "int option \<Rightarrow> duration \<Rightarrow> ModelProviderBudget \<Rightarrow> providerLedger \<Rightarrow> usd \<Rightarrow> rat \<Rightarrow> bool" where
  "in_boundary replicas window budget l usd pct \<longleftrightarrow>
     usd > 0 \<and> pct \<ge> minBlockAt budget
       - effectiveMarginPctLocked replicas window l usd (configuredMarginPercent budget)"

definition admit_section ::
  "gotime \<Rightarrow> int option \<Rightarrow> duration \<Rightarrow> ModelProvider \<Rightarrow> string \<Rightarrow> string \<Rightarrow> providerLedger
    \<Rightarrow> providerLedger \<times> budgetDecision \<times> ticket option" where
  "admit_section now replicas window provider namespace workload l =
     (let budget = budget_of provider;
          u = utilizationLocked budget l namespace;
          d = decide now budget u
      in if \<not> hardActive provider \<or> d_Action d = BudgetActionBlock then (l, d, None)
         else if map_of (adm l) namespace \<noteq> None then (l, d\<lparr>Throttled := True\<rparr>, None)
         else if map_of (adm l) clusterSlotKey \<noteq> None \<and> clUSD u > 0 then (l, d\<lparr>Throttled := True\<rparr>, None)
         else
           let configured = configuredMarginPercent budget;
               effNS = effectiveMarginPctLocked replicas window l (nsUSD u) configured;
               effCL = effectiveMarginPctLocked replicas window l (clUSD u) configured;
               inBoundaryNS = in_boundary replicas window budget l (nsUSD u) (nsPct u);
               inBoundaryCL = in_boundary replicas window budget l (clUSD u) (clPct u)
           in if \<not> inBoundaryNS \<and> \<not> inBoundaryCL then (l, d, None)
              else if stale now window l then (l, d\<lparr>Unavailable := True\<rparr>, None)
              else
                let raise = ((inBoundaryNS \<and> effNS > configured \<or> inBoundaryCL \<and> effCL > configured)
                             \<and> \<not> marginRaised l);
                    l = (if raise then l\<lparr>marginRaised := True\<rparr> else l);
                    d = (if raise then d\<lparr>MarginRaisedNow := True\<rparr> else d);
                    l = l\<lparr>nextToken := nextToken l + 1\<rparr>;
                    token = nextToken l;
                    l = (if inBoundaryNS then l\<lparr>adm := AList.update namespace token (adm l)\<rparr> else l);
                    l = (if inBoundaryCL then l\<lparr>adm := AList.update clusterSlotKey token (adm l)\<rparr> else l);
                    keys = (if inBoundaryNS then [namespace] else []) @ (if inBoundaryCL then [clusterSlotKey] else [])
                in (l, d\<lparr>BoundaryEngaged := True\<rparr>,
                    Some \<lparr>tk_name = Name provider, tk_uid = UID provider, tk_scheme = Period budget,
                          tk_period = l_period l, tk_ns = namespace, tk_workload = workload,
                          tk_keys = keys, tk_token = token\<rparr>))"

definition Admit ::
  "gotime \<Rightarrow> int option \<Rightarrow> ModelProvider \<Rightarrow> string \<Rightarrow> string \<Rightarrow> BudgetLedger
    \<Rightarrow> BudgetLedger \<times> budgetDecision \<times> ticket option" where
  "Admit now replicas provider namespace workload b =
     (let budget = budget_of provider; scheme = Period budget
      in if PeriodKey scheme now = [] \<or> Policies budget = [] then (b, no_decision, None)
         else withLedger now (Name provider) (UID provider) scheme
                (admit_section now replicas (stalenessWindow b) provider namespace workload) b)"

subsection \<open>Settling\<close>

definition free_slots :: "string list \<Rightarrow> token \<Rightarrow> (string, token) gomap \<Rightarrow> (string, token) gomap" where
  "free_slots keys token slots =
     fold (\<lambda>k slots. if (case map_of slots k of None \<Rightarrow> 0 | Some t \<Rightarrow> t) = token
                       then AList.delete k slots else slots) keys slots"

definition settle_section :: "gotime \<Rightarrow> ticket \<Rightarrow> usd \<Rightarrow> providerLedger \<Rightarrow> providerLedger" where
  "settle_section now tk costUSD l =
     (let l = (if l_period l = tk_period tk
               then l\<lparr>adm := free_slots (tk_keys tk) (tk_token tk) (adm l)\<rparr> else l)
      in if costUSD \<noteq> 0 then recordSpend now (tk_ns tk) (tk_workload tk) costUSD l else l)"

text \<open>The kick channel has room for 64 names; a send to a full channel is dropped.\<close>

definition send_kick :: "string \<Rightarrow> BudgetLedger \<Rightarrow> BudgetLedger" where
  "send_kick name b = (if length (kick b) < 64 then b\<lparr>kick := kick b @ [name]\<rparr> else b)"

definition settle :: "gotime \<Rightarrow> ticket \<Rightarrow> usd \<Rightarrow> BudgetLedger \<Rightarrow> BudgetLedger" where
  "settle now tk costUSD b =
     (let b = fst (withLedger now (tk_name tk) (tk_uid tk) (tk_scheme tk)
                     (\<lambda>l. (settle_section now tk costUSD l, ())) b)
      in if costUSD \<noteq> 0 then send_kick (tk_name tk) b else b)"

text \<open>The closure with its \<^verbatim>\<open>sync.Once\<close>: the flag says that it has run.\<close>

definition call_settle :: "gotime \<Rightarrow> usd \<Rightarrow> ticket \<times> bool \<Rightarrow> BudgetLedger \<Rightarrow> BudgetLedger \<times> (ticket \<times> bool)" where
  "call_settle now costUSD c b =
     (if snd c then (b, c) else (settle now (fst c) costUSD b, (fst c, True)))"

subsection \<open>What an admission can do\<close>

lemma minBlockAt_gen:
  "fold (\<lambda>p low. if Action p = BudgetActionBlock \<and> of_int (AtPercent p) < low then of_int (AtPercent p) else low) ps a \<le> a
   \<and> (\<forall>p \<in> set ps. Action p = BudgetActionBlock \<longrightarrow>
        fold (\<lambda>p low. if Action p = BudgetActionBlock \<and> of_int (AtPercent p) < low then of_int (AtPercent p) else low) ps a
          \<le> (of_int (AtPercent p) :: rat))"
proof (induction ps arbitrary: a)
  case (Cons p ps)
  let ?a = "if Action p = BudgetActionBlock \<and> of_int (AtPercent p) < a then of_int (AtPercent p) else a"
  have "?a \<le> a" "Action p = BudgetActionBlock \<Longrightarrow> ?a \<le> of_int (AtPercent p)" by auto
  then show ?case using Cons.IH [of ?a] by (auto intro: order_trans)
qed simp

lemma minBlockAt_le:
  "p \<in> set (Policies budget) \<Longrightarrow> Action p = BudgetActionBlock \<Longrightarrow> minBlockAt budget \<le> of_int (AtPercent p)"
  unfolding minBlockAt_def using minBlockAt_gen by blast

text \<open>
  An admission leaves the ledger as it is, or engages: it found every slot it takes free, the
  replica's view of the budget fresh, and it issues the next token.
\<close>

lemma admit_section_cases:
  obtains (plain) d where "admit_section now r w p ns wl l = (l, d, None)" "\<not> BoundaryEngaged d"
  | (engaged) d tk l' where "admit_section now r w p ns wl l = (l', d, Some tk)"
      "BoundaryEngaged d" "\<not> Throttled d" "\<not> Unavailable d" "d_Action d \<noteq> BudgetActionBlock"
      "hardActive p" "\<not> stale now w l"
      "l' = l\<lparr>adm := adm l', nextToken := nextToken l + 1, marginRaised := marginRaised l'\<rparr>"
      "distinct (map fst (adm l)) \<Longrightarrow> distinct (map fst (adm l'))"
      "\<And>k. map_of (adm l') k = (if k \<in> set (tk_keys tk) then Some (nextToken l + 1) else map_of (adm l) k)"
      "tk_keys tk \<noteq> []" "set (tk_keys tk) \<subseteq> {ns, clusterSlotKey}"
      "\<And>k. k \<in> set (tk_keys tk) \<Longrightarrow> map_of (adm l) k = None"
      "tk_name tk = Name p" "tk_uid tk = UID p" "tk_scheme tk = period_of p" "tk_period tk = l_period l"
      "tk_ns tk = ns" "tk_workload tk = wl" "tk_token tk = nextToken l + 1"
proof -
  define budget u where "budget = budget_of p" and "u = utilizationLocked budget l ns"
  define nsb clb where "nsb = in_boundary r w budget l (nsUSD u) (nsPct u)"
    and "clb = in_boundary r w budget l (clUSD u) (clPct u)"
  show thesis
  proof (cases "hardActive p \<and> d_Action (decide now budget u) \<noteq> BudgetActionBlock
      \<and> map_of (adm l) ns = None \<and> \<not> (map_of (adm l) clusterSlotKey \<noteq> None \<and> clUSD u > 0)
      \<and> (nsb \<or> clb) \<and> \<not> stale now w l")
    case False
    then have "\<exists>d. admit_section now r w p ns wl l = (l, d, None) \<and> \<not> BoundaryEngaged d"
      unfolding admit_section_def Let_def budget_def [symmetric] u_def [symmetric] nsb_def [symmetric]
        clb_def [symmetric]
      by auto
    then show thesis using plain by blast
  next
    case True
    then have clear: "map_of (adm l) ns = None" "clb \<Longrightarrow> map_of (adm l) clusterSlotKey = None"
      by (auto simp: clb_def in_boundary_def)
    obtain l' d tk where s: "admit_section now r w p ns wl l = (l', d, Some tk)"
      using True unfolding admit_section_def Let_def budget_def [symmetric] u_def [symmetric]
        nsb_def [symmetric] clb_def [symmetric]
      by auto
    note full = s [unfolded admit_section_def Let_def, folded budget_def, folded u_def, folded nsb_def clb_def]
    have keys: "tk_keys tk = (if nsb then [ns] else []) @ (if clb then [clusterSlotKey] else [])"
      and adm': "adm l' = (if clb then AList.update clusterSlotKey (nextToken l + 1) else id)
            ((if nsb then AList.update ns (nextToken l + 1) else id) (adm l))"
      using full True by auto
    show thesis
    proof (rule engaged [OF s])
      show "map_of (adm l') k = (if k \<in> set (tk_keys tk) then Some (nextToken l + 1) else map_of (adm l) k)" for k
        by (auto simp: keys adm' gomap_simps)
      show "distinct (map fst (adm l')) " if "distinct (map fst (adm l))"
        using that by (auto simp: adm' distinct_update)
      show "map_of (adm l) k = None" if "k \<in> set (tk_keys tk)" for k
        using that clear by (auto simp: keys split: if_splits)
    qed (use full True in \<open>auto simp: keys budget_def split: if_splits\<close>)
  qed
qed

lemma free_slots_map_of:
  "map_of (free_slots keys t slots) k =
     (if k \<in> set keys \<and> map_of slots k = Some t then None else map_of slots k)"
  unfolding free_slots_def
  by (induction keys arbitrary: slots) (auto simp: gomap_simps split: option.splits)

lemma free_slots_distinct: "distinct (map fst slots) \<Longrightarrow> distinct (map fst (free_slots keys t slots))"
  unfolding free_slots_def
  by (induction keys arbitrary: slots) (auto simp: distinct_delete)

lemma settle_section_simps [simp]:
  "l_uid (settle_section now tk c l) = l_uid l" "l_period (settle_section now tk c l) = l_period l"
  "nextToken (settle_section now tk c l) = nextToken l"
  "adm (settle_section now tk c l) =
     (if l_period l = tk_period tk then free_slots (tk_keys tk) (tk_token tk) (adm l) else adm l)"
  "own (settle_section now tk c l) = (if c = 0 then own l else gadd (tk_ns tk) c (own l))"
  "ownW (settle_section now tk c l) =
     (if c = 0 then ownW l else gadd (tk_ns tk @ ''/'' @ tk_workload tk) c (ownW l))"
  "peers (settle_section now tk c l) = peers l" "peersW (settle_section now tk c l) = peersW l"
  by (auto simp: settle_section_def Let_def)

lemma admit_section_keeps [simp]:
  "l_uid (fst (admit_section now r w p ns wl l)) = l_uid l"
  "l_period (fst (admit_section now r w p ns wl l)) = l_period l"
  "own (fst (admit_section now r w p ns wl l)) = own l"
  "ownW (fst (admit_section now r w p ns wl l)) = ownW l"
  "peers (fst (admit_section now r w p ns wl l)) = peers l"
  "peersW (fst (admit_section now r w p ns wl l)) = peersW l"
proof -
  let ?l = "fst (admit_section now r w p ns wl l)"
  have "\<exists>a t m. ?l = l\<lparr>adm := a, nextToken := t, marginRaised := m\<rparr>"
  proof (cases rule: admit_section_cases [of now r w p ns wl l])
    case (plain d)
    then have "?l = l\<lparr>adm := adm l, nextToken := nextToken l, marginRaised := marginRaised l\<rparr>" by simp
    then show ?thesis by blast
  next
    case (engaged d tk l')
    then show ?thesis by (metis fst_conv)
  qed
  then obtain a t m where "?l = l\<lparr>adm := a, nextToken := t, marginRaised := m\<rparr>" by blast
  then show "l_uid ?l = l_uid l" "l_period ?l = l_period l" "own ?l = own l" "ownW ?l = ownW l"
    "peers ?l = peers l" "peersW ?l = peersW l"
    by simp_all
qed

interpretation admitting: ledger_update "admit_section now r w p ns wl" for now r w p ns wl
proof
  fix l assume "wf_pl l"
  then show "wf_pl (fst (admit_section now r w p ns wl l))"
    by (cases rule: admit_section_cases [of now r w p ns wl l])
      (use admit_section_keeps [of now r w p ns wl l] in \<open>auto simp: wf_pl_def\<close>)
qed simp_all

interpretation settling: ledger_update "\<lambda>l. (settle_section now tk c l, ())" for now tk c
  by unfold_locales (auto simp: wf_pl_def free_slots_distinct)

interpretation admitting_inv: ledger_invariant "admit_section now r w p ns wl" rows_sum for now r w p ns wl
  by unfold_locales (simp_all add: rows_sum_def)

lemma settling_inv:
  "is_namespace (tk_ns tk) \<Longrightarrow> ledger_invariant (\<lambda>l. (settle_section now tk c l, ())) rows_sum"
  by unfold_locales (auto simp: rows_sum_def gomap_simps row_of_key)

lemma send_kick_simps [simp]:
  "providers (send_kick n b) = providers b" "superseded (send_kick n b) = superseded b"
  "stalenessWindow (send_kick n b) = stalenessWindow b"
  by (auto simp: send_kick_def)

lemma wf_ledger_cong:
  "providers b = providers b' \<Longrightarrow> superseded b = superseded b' \<Longrightarrow> wf_ledger owner b = wf_ledger owner b'"
  by (simp add: wf_ledger_def)

lemma settle_state:
  "providers (settle now tk c b) =
     providers (fst (withLedger now (tk_name tk) (tk_uid tk) (tk_scheme tk) (\<lambda>l. (settle_section now tk c l, ())) b))"
  "superseded (settle now tk c b) =
     superseded (fst (withLedger now (tk_name tk) (tk_uid tk) (tk_scheme tk) (\<lambda>l. (settle_section now tk c l, ())) b))"
  by (auto simp: settle_def Let_def)

subsection \<open>Properties\<close>

lemma Admit_result:
  assumes "hardActive p" "period_of p \<in> schemes" "Admit now reps p ns wl b = (b', d, tk)"
  shows "(d, tk) = snd (admit_section now reps (stalenessWindow b) p ns wl
      (current now (Name p) (UID p) (period_of p) b))"
proof -
  have "Policies (budget_of p) \<noteq> []"
    using assms(1) by (auto simp: hardActive_def split: if_splits)
  then show ?thesis
    using assms(2,3) admitting.result [of now "Name p" "UID p" "period_of p" now reps "stalenessWindow b" p ns wl b]
    by (simp add: Admit_def Let_def PeriodKey_empty_iff)
qed

text \<open>
  C6. Inside the boundary region of a hard provider a request goes ahead only as the single
  holder of a slot on a verified view: when the decision neither blocks nor throttles nor reports
  the budget unavailable, a settle was issued, every slot it governs was free, the replica's
  publishes and folds were no older than the staleness window, and the slots are now held under
  its token.
\<close>

theorem boundary_admission:
  assumes hard: "hardActive p" "period_of p \<in> schemes"
    and l: "l = current now (Name p) (UID p) (period_of p) b"
    and u: "u = utilizationLocked (budget_of p) l ns"
    and boundary: "in_boundary reps (stalenessWindow b) (budget_of p) l (nsUSD u) (nsPct u)
      \<or> in_boundary reps (stalenessWindow b) (budget_of p) l (clUSD u) (clPct u)"
    and A: "Admit now reps p ns wl b = (b', d, tk)"
    and through: "\<not> Throttled d" "\<not> Unavailable d" "d_Action d \<noteq> BudgetActionBlock"
  shows "\<exists>t. tk = Some t \<and> tk_keys t \<noteq> [] \<and> \<not> stale now (stalenessWindow b) l
    \<and> (\<forall>k \<in> set (tk_keys t). map_of (adm l) k = None)
    \<and> (UID p \<notin> superseded b \<longrightarrow> (\<exists>l'. map_of (providers b') (Name p) = Some l'
        \<and> (\<forall>k \<in> set (tk_keys t). map_of (adm l') k = Some (tk_token t))))"
proof (cases rule: admit_section_cases [of now reps "stalenessWindow b" p ns wl l])
  case (plain d')
  have "(d, tk) = (d', None)"
    using plain Admit_result [OF hard A] l by simp
  moreover have "Throttled d' \<or> Unavailable d' \<or> d_Action d' = BudgetActionBlock"
    using plain(1) boundary hard
    unfolding admit_section_def Let_def u [symmetric] by (auto split: if_splits)
  ultimately show ?thesis using through by simp
next
  case (engaged d' t l')
  have "(d, tk) = (d', Some t)"
    using engaged Admit_result [OF hard A] l by simp
  moreover have "b' = fst (withLedger now (Name p) (UID p) (period_of p)
      (admit_section now reps (stalenessWindow b) p ns wl) b)"
    using A hard by (auto simp: Admit_def Let_def PeriodKey_empty_iff hardActive_def split: if_splits)
  ultimately show ?thesis
    using engaged l by (auto simp: admitting.stored)
qed

definition demo_hard :: BudgetLedger where
  "demo_hard = FoldPeers 0 demo_provider [(''team-a'', 96)] NewBudgetLedger"

lemma demo_current:
  "current 0 (Name demo_provider) (UID demo_provider) (period_of demo_provider) demo_hard =
     (newProviderLedger ''1970-01'' ''u1'')\<lparr>peers := [(''team-a'', 96)], lastFoldOK := Some 0\<rparr>"
proof -
  have "PeriodKey ''monthly'' 0 = ''1970-01''" by code_simp
  then show ?thesis
    by (simp add: demo_hard_def FoldPeers_def demo_provider_def withLedger_def ledgerFor_def NewBudgetLedger_def
        storeLedger_def Let_def newProviderLedger_def)
qed

lemma demo_active: "hardActive demo_provider" "period_of demo_provider \<in> schemes"
  by (simp_all add: hardActive_def demo_provider_def budget_constants schemes_def)

lemma demo_minBlockAt: "minBlockAt (budget_of demo_provider) = 100"
  by (simp add: minBlockAt_def demo_provider_def budget_constants)

lemma demo_config: "configuredMarginPercent (budget_of demo_provider) = 5"
  by (simp add: configuredMarginPercent_def demo_provider_def)

lemma demo_boundary:
  "in_boundary None w (budget_of demo_provider)
     ((newProviderLedger ''1970-01'' ''u1'')\<lparr>peers := [(''team-a'', 96)], lastFoldOK := Some 0\<rparr>) 100 96"
  "\<not> in_boundary None w (budget_of demo_provider)
     ((newProviderLedger ''1970-01'' ''u1'')\<lparr>peers := [(''team-a'', 96)], lastFoldOK := Some 0\<rparr>) 1000 (48 / 5)"
  by (simp_all add: in_boundary_def demo_minBlockAt demo_config effectiveMarginPctLocked_def replicasCount_def
      newProviderLedger_def)

lemma demo_spent: "utilizationLocked (budget_of demo_provider)
     ((newProviderLedger ''1970-01'' ''u1'')\<lparr>peers := [(''team-a'', 96)], lastFoldOK := Some 0\<rparr>) ''team-a'' =
     \<lparr>nsPct = 96, clPct = 48 / 5, nsUSD = 100, clUSD = 1000, worst = 96, worstIsCluster = False\<rparr>"
  by (simp add: utilizationLocked_def spent_def clusterSpent_def demo_utilization gnum_Cons)

lemma demo_action: "d_Action (decide 0 (budget_of demo_provider)
    \<lparr>nsPct = 96, clPct = 48 / 5, nsUSD = 100, clUSD = 1000, worst = 96, worstIsCluster = False\<rparr>) = ''degrade''"
  by (simp add: decide_action BudgetPolicyAt_def demo_provider_def policy_step_def)

lemma demo_admit:
  "\<exists>d t l. admit_section 0 None (stalenessWindow demo_hard) demo_provider ''team-a'' ''agent/a''
     (current 0 (Name demo_provider) (UID demo_provider) (period_of demo_provider) demo_hard) = (l, d, Some t)
   \<and> \<not> Throttled d \<and> \<not> Unavailable d \<and> d_Action d = ''degrade'' \<and> tk_token t = 1 \<and> tk_keys t = [''team-a'']"
proof -
  have w: "stalenessWindow demo_hard = 3 * defaultPublishInterval"
    by (simp add: demo_hard_def FoldPeers_def folding.unchanged NewBudgetLedger_def)
  show ?thesis
    unfolding demo_current admit_section_def Let_def demo_spent
    by (simp add: demo_action demo_active in_boundary_def demo_minBlockAt stale_def w budget_constants
        newProviderLedger_def defaultPublishInterval_def second_def demo_config effectiveMarginPctLocked_def
        replicasCount_def)
qed

theorem boundary_admission_witness:
  "\<exists>b' d t. Admit 0 None demo_provider ''team-a'' ''agent/a'' demo_hard = (b', d, Some t)
    \<and> d_Action d = ''degrade'' \<and> tk_keys t = [''team-a'']
    \<and> (\<exists>l'. map_of (providers b') ''claude'' = Some l' \<and> map_of (adm l') ''team-a'' = Some (tk_token t))"
proof -
  obtain b' d tk where A: "Admit 0 None demo_provider ''team-a'' ''agent/a'' demo_hard = (b', d, tk)"
    by (metis prod.exhaust)
  obtain t where t: "tk = Some t" "\<not> Throttled d" "\<not> Unavailable d" "d_Action d = ''degrade''" "tk_keys t = [''team-a'']"
    using demo_admit Admit_result [OF demo_active A] by auto
  have "UID demo_provider \<notin> superseded demo_hard"
    by (simp add: demo_hard_def FoldPeers_def demo_provider_def NewBudgetLedger_def folding.on_live)
  moreover have "Name demo_provider = ''claude''" by (simp add: demo_provider_def)
  ultimately show ?thesis
    using boundary_admission [OF demo_active refl refl _ A] t A demo_boundary demo_spent demo_current
    by (fastforce simp: budget_constants)
qed

text \<open>
  C12. \<^verbatim>\<open>Admit\<close> outside hard enforcement. For a provider that is not hard, and for a hard one
  while neither ceiling is inside its boundary region, \<^verbatim>\<open>Admit\<close> leaves the ledgers as
  \<^verbatim>\<open>Enforce\<close> does, issues no settle and takes \<^verbatim>\<open>Enforce\<close>'s decision, with one
  difference: a hard provider's request that is not blocked is throttled exactly when a slot it
  is governed by is still held.
\<close>

theorem Admit_is_Enforce:
  assumes l: "l = current now (Name p) (UID p) (period_of p) b" and u: "u = utilizationLocked (budget_of p) l ns"
    and e: "(b', d) = Enforce now p ns b"
    and outside: "hardActive p \<Longrightarrow> \<not> in_boundary reps (stalenessWindow b) (budget_of p) l (nsUSD u) (nsPct u)
       \<and> \<not> in_boundary reps (stalenessWindow b) (budget_of p) l (clUSD u) (clPct u)"
  shows "Admit now reps p ns wl b =
    (b', d\<lparr>Throttled := hardActive p \<and> PeriodKey (period_of p) now \<noteq> [] \<and> d_Action d \<noteq> BudgetActionBlock
        \<and> (map_of (adm l) ns \<noteq> None \<or> map_of (adm l) clusterSlotKey \<noteq> None \<and> 0 < clUSD u)\<rparr>, None)"
proof (cases "PeriodKey (period_of p) now = [] \<or> Policies (budget_of p) = []")
  case True
  moreover have "\<not> hardActive p" if "Policies (budget_of p) = []" using that by (simp add: hardActive_def)
  ultimately show ?thesis using e by (auto simp: Admit_def Enforce_def Let_def no_decision_def)
next
  case False
  obtain b1 where b1: "ledgerFor now (Name p) (UID p) (period_of p) b = (b1, l)"
    using l by (metis prod.collapse)
  have d: "d = decide now (budget_of p) u" "b' = storeLedger (Name p) l b1"
    using e False b1 u by (simp_all add: Enforce_def withLedger_def Let_def)
  have "decide now (budget_of p) u = (decide now (budget_of p) u)\<lparr>Throttled := False\<rparr>"
    by (simp add: decide_def no_decision_def Let_def split: option.split)
  then have "admit_section now reps (stalenessWindow b) p ns wl l =
      (l, d\<lparr>Throttled := hardActive p \<and> d_Action d \<noteq> BudgetActionBlock
        \<and> (map_of (adm l) ns \<noteq> None \<or> map_of (adm l) clusterSlotKey \<noteq> None \<and> 0 < clUSD u)\<rparr>, None)"
    using outside unfolding admit_section_def Let_def u [symmetric] d(1) by (auto split: if_splits)
  then show ?thesis
    using False b1 d(2) by (simp add: Admit_def withLedger_def Let_def)
qed

definition demo_soft :: ModelProvider where
  "demo_soft = demo_provider\<lparr>Spec := (Spec demo_provider)\<lparr>Budget := (budget_of demo_provider)\<lparr>Enforcement := ''soft''\<rparr>\<rparr>\<rparr>"

theorem Admit_is_Enforce_witness:
  "Admit 0 None demo_soft ''team-a'' ''agent/a'' demo_hard =
     (fst (Enforce 0 demo_soft ''team-a'' demo_hard), (snd (Enforce 0 demo_soft ''team-a'' demo_hard))\<lparr>Throttled := False\<rparr>, None)"
proof -
  have "\<not> hardActive demo_soft" by (simp add: hardActive_def demo_soft_def budget_constants)
  then show ?thesis
    using Admit_is_Enforce [of _ 0 demo_soft demo_hard _ "''team-a''" "fst (Enforce 0 demo_soft ''team-a'' demo_hard)"
        "snd (Enforce 0 demo_soft ''team-a'' demo_hard)" None "''agent/a''"] by simp
qed

text \<open>
  C11. A deleted provider's calls are inert. Once a UID is superseded, because a provider of the
  same name was created with another UID, recording spend, folding peers, enforcing, admitting
  and settling with that UID leave every stored ledger as it is, and no admission is granted a
  slot.
\<close>

theorem superseded_inert:
  assumes "UID p \<in> superseded b" "tk_uid tk \<in> superseded b"
  shows "Add now p ns wl c b = b \<and> FoldPeers now p ps b = b \<and> FoldWorkloadPeers now p ps b = b
    \<and> fst (Enforce now p ns b) = b \<and> fst (Admit now reps p ns wl b) = b
    \<and> snd (snd (Admit now reps p ns wl b)) = None
    \<and> providers (settle now tk c b) = providers b \<and> superseded (settle now tk c b) = superseded b"
proof -
  have "snd (snd (Admit now reps p ns wl b)) = None"
  proof (cases "PeriodKey (period_of p) now = [] \<or> Policies (budget_of p) = []")
    case True
    then show ?thesis by (auto simp: Admit_def Let_def)
  next
    case False
    let ?c = "current now (Name p) (UID p) (period_of p) b"
    have "stale now (stalenessWindow b) ?c"
      using assms(1) by (simp add: ledgerFor_superseded stale_def)
    then have "snd (snd (admit_section now reps (stalenessWindow b) p ns wl ?c)) = None"
      by (cases rule: admit_section_cases [of now reps "stalenessWindow b" p ns wl ?c]) auto
    then show ?thesis
      using False by (simp add: Admit_def Let_def admitting.result)
  qed
  then show ?thesis
    using assms
    by (simp add: Add_def FoldPeers_def FoldWorkloadPeers_def Enforce_def Admit_def Let_def split_def
        recording.on_superseded folding.on_superseded folding_rows.on_superseded reading.on_superseded
        admitting.on_superseded settle_state settling.on_superseded)
qed

theorem superseded_inert_witness:
  "Add 0 demo_provider ''team-a'' ''agent/a'' 7 (NewBudgetLedger\<lparr>superseded := {''u1''}\<rparr>) =
     NewBudgetLedger\<lparr>superseded := {''u1''}\<rparr>"
proof -
  have "UID demo_provider \<in> superseded (NewBudgetLedger\<lparr>superseded := {''u1''}\<rparr>)"
    "tk_uid \<lparr>tk_name = ''claude'', tk_uid = ''u1'', tk_scheme = ''monthly'', tk_period = ''1970-01'', tk_ns = ''team-a'',
       tk_workload = ''agent/a'', tk_keys = [''team-a''], tk_token = 1\<rparr> \<in> superseded (NewBudgetLedger\<lparr>superseded := {''u1''}\<rparr>)"
    by (simp_all add: demo_provider_def)
  from superseded_inert [OF this] show ?thesis by blast
qed

text \<open>
  C7. A settle lands its cost once and frees its own slots. The first call of a live provider's
  settle adds the cost to the namespace's counter of the current period and, when that is still
  the period of the admission, frees exactly the slots held under its token. Calling it again,
  at any time and with any cost, changes nothing.
\<close>

theorem settle_once:
  assumes "tk_uid tk \<notin> superseded b"
    and "l = current now (tk_name tk) (tk_uid tk) (tk_scheme tk) b"
    and "call_settle now c (tk, False) b = (b', closure)"
  shows "call_settle now' c' closure b'' = (b'', closure)
    \<and> (\<exists>l'. map_of (providers b') (tk_name tk) = Some l'
        \<and> (\<forall>ns. gnum (own l') ns = gnum (own l) ns + (if ns = tk_ns tk then c else 0))
        \<and> (\<forall>k. map_of (adm l') k =
              (if l_period l = tk_period tk \<and> k \<in> set (tk_keys tk) \<and> map_of (adm l) k = Some (tk_token tk)
               then None else map_of (adm l) k)))"
proof -
  have b': "b' = settle now tk c b" "closure = (tk, True)"
    using assms(3) by (simp_all add: call_settle_def)
  have "map_of (providers b') (tk_name tk) = Some (settle_section now tk c l)"
    using assms(1,2) by (simp add: b' settle_state settling.stored)
  then show ?thesis
    using b'(2) by (auto simp: call_settle_def gomap_simps free_slots_map_of)
qed

theorem settle_once_witness:
  "\<exists>b' closure. call_settle 0 2 (\<lparr>tk_name = ''claude'', tk_uid = ''u1'', tk_scheme = ''monthly'', tk_period = ''1970-01'',
       tk_ns = ''team-a'', tk_workload = ''agent/a'', tk_keys = [''team-a''], tk_token = 1\<rparr>, False) demo_hard = (b', closure)
     \<and> call_settle 9 5 closure b' = (b', closure)"
proof -
  let ?tk = "\<lparr>tk_name = ''claude'', tk_uid = ''u1'', tk_scheme = ''monthly'', tk_period = ''1970-01'',
       tk_ns = ''team-a'', tk_workload = ''agent/a'', tk_keys = [''team-a''], tk_token = 1\<rparr>"
  obtain b' closure where c: "call_settle 0 2 (?tk, False) demo_hard = (b', closure)"
    by (metis prod.exhaust)
  have "tk_uid ?tk \<notin> superseded demo_hard"
    by (simp add: demo_hard_def FoldPeers_def demo_provider_def NewBudgetLedger_def folding.on_live)
  from settle_once [OF this refl c] c show ?thesis by blast
qed

end
