(* ===== verification/Budget_Slots.thy ===== *)
theory Budget_Slots
  imports Budget_Hard
begin

text \<open>
  The interleavings of one gateway replica. \<open>gw_step\<close> is its step relation: requests are
  admitted, settle later and in any order, spend is recorded, peer views are folded, partials
  are published and the clock advances. The invariant \<open>slots_inv\<close> says that every held
  admission slot belongs to a request in flight, and that a request in flight that was admitted
  in the ledger's current period still holds its slots.
\<close>

subsection \<open>One replica's requests in flight\<close>

record replica =
  r_now :: gotime
  r_ledger :: BudgetLedger
  r_open :: "ticket list"

text \<open>
  What is fixed about the providers: the name a UID belongs to, and its accounting scheme. The
  rest of a provider's spec may change between any two steps.
\<close>

definition known :: "(uid \<Rightarrow> string) \<Rightarrow> (uid \<Rightarrow> string) \<Rightarrow> ModelProvider \<Rightarrow> bool" where
  "known owner scheme p \<longleftrightarrow> owner (UID p) = Name p \<and> scheme (UID p) = period_of p \<and> period_of p \<in> schemes"

text \<open>
  A token is a 64-bit counter. \<open>tokens_left\<close> says that the provider's counter has not reached
  its last value, so that the next admission does not repeat a token.
\<close>

definition tokens_left :: "ModelProvider \<Rightarrow> BudgetLedger \<Rightarrow> bool" where
  "tokens_left p b \<longleftrightarrow> (\<forall>l. map_of (providers b) (Name p) = Some l \<longrightarrow> nextToken l \<noteq> - 1)"

inductive gw_step :: "(uid \<Rightarrow> string) \<Rightarrow> (uid \<Rightarrow> string) \<Rightarrow> replica \<Rightarrow> replica \<Rightarrow> bool"
  for owner scheme where
  clock: "r_now s \<le> t \<Longrightarrow> modern t \<Longrightarrow> gw_step owner scheme s (s\<lparr>r_now := t\<rparr>)"
| admit: "known owner scheme p \<Longrightarrow> tokens_left p (r_ledger s) \<Longrightarrow> is_namespace ns \<Longrightarrow>
    Admit (r_now s) reps p ns wl (r_ledger s) = (b, d, tk) \<Longrightarrow>
    gw_step owner scheme s
      (s\<lparr>r_ledger := b, r_open := (case tk of None \<Rightarrow> r_open s | Some tk \<Rightarrow> tk # r_open s)\<rparr>)"
| settles: "tk \<in> set (r_open s) \<Longrightarrow>
    gw_step owner scheme s
      (s\<lparr>r_ledger := settle (r_now s) tk c (r_ledger s), r_open := remove1 tk (r_open s)\<rparr>)"
| add: "known owner scheme p \<Longrightarrow> is_namespace ns \<Longrightarrow>
    gw_step owner scheme s (s\<lparr>r_ledger := Add (r_now s) p ns wl c (r_ledger s)\<rparr>)"
| enforce: "known owner scheme p \<Longrightarrow>
    gw_step owner scheme s (s\<lparr>r_ledger := fst (Enforce (r_now s) p ns (r_ledger s))\<rparr>)"
| fold_peers: "known owner scheme p \<Longrightarrow>
    gw_step owner scheme s (s\<lparr>r_ledger := FoldPeers (r_now s) p ps (r_ledger s)\<rparr>)"
| fold_workloads: "known owner scheme p \<Longrightarrow>
    gw_step owner scheme s (s\<lparr>r_ledger := FoldWorkloadPeers (r_now s) p ps (r_ledger s)\<rparr>)"
| published: "known owner scheme p \<Longrightarrow> snapshot \<le> r_now s \<Longrightarrow>
    gw_step owner scheme s (s\<lparr>r_ledger := MarkPublished p snapshot (r_ledger s)\<rparr>)"

definition start_replica :: "gotime \<Rightarrow> replica" where
  "start_replica t = \<lparr>r_now = t, r_ledger = NewBudgetLedger, r_open = []\<rparr>"

abbreviation reachable :: "(uid \<Rightarrow> string) \<Rightarrow> (uid \<Rightarrow> string) \<Rightarrow> gotime \<Rightarrow> replica \<Rightarrow> bool" where
  "reachable owner scheme t s \<equiv> (gw_step owner scheme)\<^sup>*\<^sup>* (start_replica t) s"

text \<open>The requests in flight that were admitted for provider UID \<open>u\<close> in a period.\<close>

definition holders :: "replica \<Rightarrow> uid \<Rightarrow> string \<Rightarrow> string \<Rightarrow> ticket list" where
  "holders s u per k = filter (\<lambda>tk. tk_uid tk = u \<and> tk_period tk = per \<and> k \<in> set (tk_keys tk)) (r_open s)"

subsection \<open>The invariant\<close>

text \<open>What a ticket in flight is entitled to, given the stored ledgers.\<close>

definition ticket_ok :: "(uid \<Rightarrow> string) \<Rightarrow> (uid \<Rightarrow> string) \<Rightarrow> BudgetLedger \<Rightarrow> ticket \<Rightarrow> bool" where
  "ticket_ok owner scheme b tk \<longleftrightarrow>
     owner (tk_uid tk) = tk_name tk \<and> scheme (tk_uid tk) = tk_scheme tk \<and> tk_scheme tk \<in> schemes \<and>
     is_namespace (tk_ns tk) \<and>
     (tk_uid tk \<in> superseded b \<or>
      (\<exists>l. map_of (providers b) (tk_name tk) = Some l \<and> l_uid l = tk_uid tk \<and> tk_period tk \<le> l_period l \<and>
           unat (tk_token tk) \<le> unat (nextToken l) \<and>
           (tk_period tk = l_period l \<longrightarrow> (\<forall>k \<in> set (tk_keys tk). map_of (adm l) k = Some (tk_token tk)))))"

text \<open>What a stored ledger owes: its period is not ahead of the clock, and each slot has its holder.\<close>

definition ledger_ok :: "(uid \<Rightarrow> string) \<Rightarrow> gotime \<Rightarrow> ticket list \<Rightarrow> providerLedger \<Rightarrow> bool" where
  "ledger_ok scheme now tks l \<longleftrightarrow>
     scheme (l_uid l) \<in> schemes \<and> l_period l \<le> PeriodKey (scheme (l_uid l)) now \<and>
     (\<forall>k t. map_of (adm l) k = Some t \<longrightarrow>
        (\<exists>tk \<in> set tks. tk_uid tk = l_uid l \<and> tk_period tk = l_period l \<and> tk_token tk = t \<and> k \<in> set (tk_keys tk)))"

definition slots_inv :: "(uid \<Rightarrow> string) \<Rightarrow> (uid \<Rightarrow> string) \<Rightarrow> replica \<Rightarrow> bool" where
  "slots_inv owner scheme s \<longleftrightarrow>
     modern (r_now s) \<and> wf_ledger owner (r_ledger s) \<and>
     (\<forall>tk \<in> set (r_open s). ticket_ok owner scheme (r_ledger s) tk) \<and>
     all_ledgers (ledger_ok scheme (r_now s) (r_open s)) (r_ledger s) \<and>
     distinct (map (\<lambda>tk. (tk_uid tk, tk_token tk)) (r_open s)) \<and>
     all_ledgers rows_sum (r_ledger s)"

text \<open>The invariant with the clock, the ledgers and the tickets apart.\<close>

abbreviation slots_ok :: "(uid \<Rightarrow> string) \<Rightarrow> (uid \<Rightarrow> string) \<Rightarrow> gotime \<Rightarrow> BudgetLedger \<Rightarrow> ticket list \<Rightarrow> bool" where
  "slots_ok owner scheme now b tks \<equiv> slots_inv owner scheme \<lparr>r_now = now, r_ledger = b, r_open = tks\<rparr>"

lemma slots_invD: "slots_inv owner scheme s \<Longrightarrow> slots_ok owner scheme (r_now s) (r_ledger s) (r_open s)"
  and slots_invI: "slots_ok owner scheme (r_now s) (r_ledger s) (r_open s) \<Longrightarrow> slots_inv owner scheme s"
  by (simp_all add: slots_inv_def)

text \<open>
  A section that keeps the slots and the token counter, for the provider's current ledger. It
  has the same effect on tickets as the lookup alone.
\<close>

locale slot_neutral = ledger_update upd for upd :: "providerLedger \<Rightarrow> providerLedger \<times> 'r" +
  assumes upd_adm: "adm (fst (upd l)) = adm l"
    and upd_token: "nextToken (fst (upd l)) = nextToken l"
begin

lemma ticket_ok_neutral:
  assumes wf: "wf_ledger owner b" and n: "owner u = n" and ok: "ticket_ok owner (schm :: uid \<Rightarrow> string) b tk"
    and all: "all_ledgers (ledger_ok schm now tks) b" and scheme: "schm u = scheme" "scheme \<in> schemes"
    and t: "modern now"
  shows "ticket_ok owner schm (fst (withLedger now n u scheme upd b)) tk"
proof (cases "u \<in> superseded b")
  case True
  then show ?thesis using ok by (simp add: on_superseded)
next
  case False
  let ?b = "fst (withLedger now n u scheme upd b)" and ?c = "current now n u scheme b"
  show ?thesis
  proof (cases "tk_uid tk \<in> superseded ?b")
    case True
    then show ?thesis using ok by (simp add: ticket_ok_def)
  next
    case alive: False
    then obtain l where l: "map_of (providers b) (tk_name tk) = Some l" "l_uid l = tk_uid tk"
      "tk_period tk \<le> l_period l" "unat (tk_token tk) \<le> unat (nextToken l)"
      "tk_period tk = l_period l \<Longrightarrow> \<forall>k \<in> set (tk_keys tk). map_of (adm l) k = Some (tk_token tk)"
      using ok superseded_grows [of b now n u scheme] by (auto simp: ticket_ok_def)
    show ?thesis
    proof (cases "tk_name tk = n")
      case other: False
      then show ?thesis using ok l frame [OF other] by (auto simp: ticket_ok_def)
    next
      case same: True
      have u: "tk_uid tk = u"
      proof (rule ccontr)
        assume "tk_uid tk \<noteq> u"
        then show False using alive l(1,2) same False by (simp add: on_live)
      qed
      have new: "map_of (providers ?b) n = Some (fst (upd ?c))"
        using False by (rule stored)
      have "tk_period tk \<le> l_period ?c \<and> nextToken ?c = nextToken l \<and>
          (tk_period tk = l_period ?c \<longrightarrow> (\<forall>k \<in> set (tk_keys tk). map_of (adm ?c) k = Some (tk_token tk)))"
      proof (cases rule: current_cases [of u b now n scheme])
        case (rolled l')
        then have eq: "l' = l" using l same by simp
        then have "l_period l \<le> PeriodKey scheme now"
          using all rolled scheme by (auto simp: all_ledgers_def ledger_ok_def)
        then show ?thesis using rolled eq l(3) by auto
      qed (use False l same u in \<open>auto\<close>)
      then show ?thesis
        using ok new l u same upd_uid [of ?c] upd_period [of ?c] upd_adm [of ?c] upd_token [of ?c]
        by (auto simp: ticket_ok_def)
    qed
  qed
qed

lemma ledger_ok_neutral:
  assumes wf: "wf_ledger owner b" and all: "all_ledgers (ledger_ok schm now tks) b"
    and scheme: "schm u = scheme" "scheme \<in> schemes"
  shows "all_ledgers (ledger_ok schm now tks) (fst (withLedger now n u scheme upd b))"
proof (cases "u \<in> superseded b")
  case True
  then show ?thesis using all by (simp add: on_superseded)
next
  case False
  let ?c = "current now n u scheme b"
  have "ledger_ok schm now tks ?c"
  proof (cases rule: current_cases [of u b now n scheme])
    case (same l)
    then show ?thesis using all by (simp add: all_ledgers_def)
  qed (use scheme in \<open>auto simp: ledger_ok_def\<close>)
  then have "ledger_ok schm now tks (fst (upd ?c))"
    using upd_uid [of ?c] upd_period [of ?c] upd_adm [of ?c] by (simp add: ledger_ok_def)
  then show ?thesis
    using all False by (auto simp: all_ledgers_def on_live gomap_simps split: if_splits)
qed

lemma slots_neutral:
  assumes "slots_ok owner schm now b tks" "owner u = n" "schm u = scheme" "scheme \<in> schemes"
    and "all_ledgers rows_sum (fst (withLedger now n u scheme upd b))"
  shows "slots_ok owner schm now (fst (withLedger now n u scheme upd b)) tks"
  using assms ticket_ok_neutral [where now = now and tks = tks] ledger_ok_neutral keeps_wf
  by (auto simp: slots_inv_def)

end

interpretation recording_slots: slot_neutral "\<lambda>l. (recordSpend now ns w c l, ())" for now ns w c
  by unfold_locales auto

interpretation folding_slots: slot_neutral "\<lambda>l. (l\<lparr>peers := ps, lastFoldOK := Some now\<rparr>, ())" for ps now
  by unfold_locales auto

interpretation folding_rows_slots: slot_neutral "\<lambda>l. (l\<lparr>peersW := ps\<rparr>, ())" for ps
  by unfold_locales auto

interpretation reading_slots: slot_neutral "\<lambda>l. (l, f l)" for f
  by unfold_locales auto

text \<open>The state after the lookup of a section, before its change.\<close>

abbreviation looked_up :: "gotime \<Rightarrow> string \<Rightarrow> uid \<Rightarrow> string \<Rightarrow> BudgetLedger \<Rightarrow> BudgetLedger" where
  "looked_up now n u scheme b \<equiv> fst (withLedger now n u scheme (\<lambda>l. (l, ())) b)"

lemma looked_up_ok:
  "slots_ok owner schm now b tks \<Longrightarrow> owner u = n \<Longrightarrow> schm u = scheme \<Longrightarrow> scheme \<in> schemes \<Longrightarrow>
   slots_ok owner schm now (looked_up now n u scheme b) tks"
  by (rule reading_slots.slots_neutral) (auto simp: slots_inv_def intro: reading_inv.keeps_all)

lemma looked_up_stored:
  "u \<notin> superseded b \<Longrightarrow> map_of (providers (looked_up now n u scheme b)) n = Some (current now n u scheme b)"
  by (simp add: reading.stored)

lemma looked_up_live: "u \<notin> superseded b \<Longrightarrow> u \<notin> superseded (looked_up now n u scheme b)"
  by (auto simp: reading.on_live)

lemma wf_stored:
  assumes "wf_ledger owner b" "map_of (providers b) n = Some l"
  shows "owner (l_uid l) = n" "l_uid l \<notin> superseded b"
  using assms unfolding wf_ledger_def by blast+

text \<open>Replacing one stored ledger, with tickets added or removed.\<close>

lemma replace_ok:
  assumes ok: "slots_ok owner schm now b tks" and c: "map_of (providers b) n = Some c"
    and b': "\<And>n'. map_of (providers b') n' = (if n' = n then Some l' else map_of (providers b) n')"
      "superseded b' = superseded b"
    and wf: "wf_ledger owner b'" "all_ledgers rows_sum b'"
    and l': "l_uid l' = l_uid c" "l_period l' = l_period c"
    and others: "\<And>tk. tk \<in> set tks' \<Longrightarrow> tk_uid tk \<noteq> l_uid c \<Longrightarrow> tk \<in> set tks"
    and mine: "\<And>tk. tk \<in> set tks' \<Longrightarrow> tk_uid tk = l_uid c \<Longrightarrow> ticket_ok owner schm b' tk"
    and dist: "distinct (map (\<lambda>tk. (tk_uid tk, tk_token tk)) tks')"
    and slots: "\<And>k t. map_of (adm l') k = Some t \<Longrightarrow>
        \<exists>tk \<in> set tks'. tk_uid tk = l_uid c \<and> tk_period tk = l_period c \<and> tk_token tk = t \<and> k \<in> set (tk_keys tk)"
    and kept: "\<And>tk. tk \<in> set tks \<Longrightarrow> tk_uid tk \<noteq> l_uid c \<Longrightarrow> tk \<in> set tks'"
  shows "slots_ok owner schm now b' tks'"
proof -
  have wfb: "wf_ledger owner b" using ok by (simp add: slots_inv_def)
  have n: "owner (l_uid c) = n" using wfb c by (auto simp: wf_ledger_def)
  have "ticket_ok owner schm b' tk" if "tk \<in> set tks'" for tk
  proof (cases "tk_uid tk = l_uid c")
    case False
    then have old: "ticket_ok owner schm b tk"
      using ok others that by (auto simp: slots_inv_def)
    then have "tk_uid tk \<notin> superseded b \<Longrightarrow> tk_name tk \<noteq> n"
      using False c by (auto simp: ticket_ok_def)
    then show ?thesis using old b' by (auto simp: ticket_ok_def)
  qed (use mine that in auto)
  moreover have "all_ledgers (ledger_ok schm now tks') b'"
    unfolding all_ledgers_def
  proof (intro allI impI)
    fix n' l assume l: "map_of (providers b') n' = Some l"
    have lc: "ledger_ok schm now tks c"
      using ok c by (auto simp: slots_inv_def all_ledgers_def)
    show "ledger_ok schm now tks' l"
    proof (cases "n' = n")
      case True
      then have "l = l'" using l b' by simp
      then show ?thesis using lc l' slots by (simp add: ledger_ok_def)
    next
      case False
      then have l2: "map_of (providers b) n' = Some l" using l b' by simp
      then have "owner (l_uid l) = n'" using wfb wf_stored(1) by blast
      then have "l_uid l \<noteq> l_uid c" using n False by auto
      moreover have "ledger_ok schm now tks l" using ok l2 by (auto simp: slots_inv_def all_ledgers_def)
      ultimately show ?thesis using kept unfolding ledger_ok_def by metis
    qed
  qed
  ultimately show ?thesis
    using ok wf dist by (simp add: slots_inv_def)
qed

subsection \<open>Each step keeps the invariant\<close>

lemma unat_next_token: "x \<noteq> - 1 \<Longrightarrow> unat (x + 1 :: token) = Suc (unat x)"
  by (metis add.commute add_eq_0_iff unatSuc)

lemma ticket_stored:
  assumes "ticket_ok owner schm b tk" "map_of (providers b) n = Some c" "wf_ledger owner b"
    and "tk_uid tk = l_uid c"
  shows "tk_name tk = n" "tk_period tk \<le> l_period c" "unat (tk_token tk) \<le> unat (nextToken c)"
    and "tk_period tk = l_period c \<Longrightarrow> k \<in> set (tk_keys tk) \<Longrightarrow> map_of (adm c) k = Some (tk_token tk)"
proof -
  have c: "owner (l_uid c) = n" "l_uid c \<notin> superseded b"
    using assms(2,3) by (auto simp: wf_ledger_def)
  then show n: "tk_name tk = n"
    using assms(1,4) by (simp add: ticket_ok_def)
  show "tk_period tk \<le> l_period c" "unat (tk_token tk) \<le> unat (nextToken c)"
    and "tk_period tk = l_period c \<Longrightarrow> k \<in> set (tk_keys tk) \<Longrightarrow> map_of (adm c) k = Some (tk_token tk)"
    using assms c n by (auto simp: ticket_ok_def)
qed

lemma current_fresh_stale:
  assumes "\<not> stale now w (current now n u scheme b)"
  obtains l where "u \<notin> superseded b" "map_of (providers b) n = Some l" "l_uid l = u"
    "nextToken (current now n u scheme b) = nextToken l"
  using assms by (cases rule: current_cases [of u b now n scheme]) (auto simp: stale_def)

lemma admit_keeps:
  assumes ok: "slots_ok owner schm now b tks" and p: "known owner schm p" and left: "tokens_left p b"
    and ns: "is_namespace ns" and A: "Admit now reps p ns wl b = (b', d, tk)"
  shows "slots_ok owner schm now b' (case tk of None \<Rightarrow> tks | Some tk \<Rightarrow> tk # tks)"
proof (cases "PeriodKey (period_of p) now = [] \<or> Policies (budget_of p) = []")
  case True
  then show ?thesis using A ok by (auto simp: Admit_def Let_def)
next
  case False
  let ?n = "Name p" and ?u = "UID p" and ?s = "period_of p"
  let ?c = "current now ?n ?u ?s b" and ?f = "admit_section now reps (stalenessWindow b) p ns wl"
  have known: "owner ?u = ?n" "schm ?u = ?s" "?s \<in> schemes"
    using p by (simp_all add: known_def)
  have b': "b' = fst (withLedger now ?n ?u ?s ?f b)" and res: "(d, tk) = snd (?f ?c)"
    using A False admitting.result [of now ?n ?u ?s now reps "stalenessWindow b" p ns wl b]
    by (auto simp: Admit_def Let_def)
  have wf: "wf_ledger owner b'" "all_ledgers rows_sum b'"
    using ok known unfolding b' slots_inv_def
    by (auto intro: admitting.keeps_wf admitting_inv.keeps_all)
  show ?thesis
  proof (cases rule: admit_section_cases [of now reps "stalenessWindow b" p ns wl ?c])
    case (plain d')
    then have "b' = looked_up now ?n ?u ?s b"
      unfolding b' by (auto simp: withLedger_def Let_def split: prod.splits)
    moreover have "tk = None" using plain res by simp
    ultimately show ?thesis using looked_up_ok [OF ok known] by simp
  next
    case (engaged d' tk' l')
    let ?b = "looked_up now ?n ?u ?s b"
    obtain l where live: "?u \<notin> superseded b" and l: "map_of (providers b) ?n = Some l"
      "nextToken ?c = nextToken l"
      using current_fresh_stale [OF engaged(7)] by metis
    have tk: "tk = Some tk'" using engaged res by simp
    have okb: "slots_ok owner schm now ?b tks" using looked_up_ok [OF ok known] .
    have c: "map_of (providers ?b) ?n = Some ?c" using looked_up_stored [OF live] .
    have wfb: "wf_ledger owner ?b" using okb by (simp add: slots_inv_def)
    have next_tok: "unat (nextToken ?c + 1) = Suc (unat (nextToken ?c))"
      using left l by (intro unat_next_token) (auto simp: tokens_left_def)
    have l': "l_uid l' = ?u" "l_period l' = l_period ?c" "nextToken l' = nextToken ?c + 1"
      using engaged(1,8) admit_section_keeps(1,2) [of now reps "stalenessWindow b" p ns wl ?c]
      by (auto dest: arg_cong [where f = nextToken])
    have mine: "ticket_ok owner schm ?b t" if "t \<in> set tks" for t
      using okb that by (simp add: slots_inv_def)
    have "slots_ok owner schm now b' (tk' # tks)"
    proof (rule replace_ok [OF okb c _ _ wf])
      show new: "map_of (providers b') n' = (if n' = ?n then Some l' else map_of (providers ?b) n')" for n'
        using live engaged(1) by (simp add: b' admitting.on_live reading.on_live gomap_simps)
      show "superseded b' = superseded ?b"
        using live by (simp add: b' admitting.on_live reading.on_live)
      show "distinct (map (\<lambda>tk. (tk_uid tk, tk_token tk)) (tk' # tks))"
        using okb engaged next_tok ticket_stored(3) [OF mine c wfb]
        by (fastforce simp: slots_inv_def)
      show "ticket_ok owner schm b' t" if "t \<in> set (tk' # tks)" "tk_uid t = l_uid ?c" for t
      proof (cases "t = tk'")
        case True
        then show ?thesis
          using engaged known ns l' new by (auto simp: ticket_ok_def)
      next
        case False
        then have t: "t \<in> set tks" using that by simp
        note st = ticket_stored [OF mine [OF t] c wfb that(2)]
        then show ?thesis
          using mine [OF t] that(2) engaged(10,13) l' new next_tok
          by (fastforce simp: ticket_ok_def)
      qed
      show "\<exists>t \<in> set (tk' # tks). tk_uid t = l_uid ?c \<and> tk_period t = l_period ?c \<and> tk_token t = tok \<and> k \<in> set (tk_keys t)"
        if "map_of (adm l') k = Some tok" for k tok
      proof (cases "k \<in> set (tk_keys tk')")
        case True
        then show ?thesis using that engaged by auto
      next
        case False
        moreover have "ledger_ok schm now tks ?c"
          using okb c by (auto simp: slots_inv_def all_ledgers_def)
        ultimately show ?thesis using that engaged(10) by (auto simp: ledger_ok_def)
      qed
    qed (use l' engaged in auto)
    then show ?thesis using tk by simp
  qed
qed

lemma slots_ok_cong:
  assumes "providers b = providers b'" "superseded b = superseded b'"
  shows "slots_ok owner schm now b tks = slots_ok owner schm now b' tks"
  unfolding slots_inv_def all_ledgers_def wf_ledger_def ticket_ok_def replica.simps assms ..

lemma settle_keeps:
  assumes ok: "slots_ok owner schm now b tks" and tk: "tk \<in> set tks"
  shows "slots_ok owner schm now (settle now tk c b) (remove1 tk tks)"
proof -
  let ?n = "tk_name tk" and ?u = "tk_uid tk" and ?s = "tk_scheme tk"
  let ?f = "\<lambda>l. (settle_section now tk c l, ())"
  let ?b' = "fst (withLedger now ?n ?u ?s ?f b)"
  have tok: "ticket_ok owner schm b tk" using ok tk by (simp add: slots_inv_def)
  then have known: "owner ?u = ?n" "schm ?u = ?s" "?s \<in> schemes" and ns: "is_namespace (tk_ns tk)"
    by (simp_all add: ticket_ok_def)
  have dist: "distinct (map (\<lambda>tk. (tk_uid tk, tk_token tk)) tks)"
    using ok by (simp add: slots_inv_def)
  have dist': "distinct (map (\<lambda>tk. (tk_uid tk, tk_token tk)) (remove1 tk tks))" and
    rem: "set (remove1 tk tks) = set tks - {tk}"
    using dist by (auto simp: distinct_map inj_on_def set_remove1_eq)
  have other: "(tk_uid t, tk_token t) \<noteq> (?u, tk_token tk)" if "t \<in> set (remove1 tk tks)" for t
    using dist tk that rem by (auto simp: distinct_map inj_on_def)
  have wf: "wf_ledger owner ?b'" "all_ledgers rows_sum ?b'"
    using ok known by (auto simp: slots_inv_def intro: settling.keeps_wf ledger_invariant.keeps_all [OF settling_inv [OF ns]])
  have "slots_ok owner schm now ?b' (remove1 tk tks)"
  proof (cases "?u \<in> superseded b")
    case True
    then have same: "?b' = b" by (rule settling.on_superseded)
    have "ledger_ok schm now (remove1 tk tks) l" if "map_of (providers b) n = Some l" for n l
    proof -
      have "l_uid l \<notin> superseded b" using ok that wf_stored(2) by (auto simp: slots_inv_def)
      then have "l_uid l \<noteq> ?u" using True by auto
      moreover have "ledger_ok schm now tks l" using ok that by (auto simp: slots_inv_def all_ledgers_def)
      ultimately show ?thesis unfolding ledger_ok_def rem by fastforce
    qed
    then show ?thesis
      unfolding same using ok dist' rem by (auto simp: slots_inv_def all_ledgers_def)
  next
    case live: False
    let ?b = "looked_up now ?n ?u ?s b" and ?c = "current now ?n ?u ?s b"
    have okb: "slots_ok owner schm now ?b tks" using looked_up_ok [OF ok known] .
    have c: "map_of (providers ?b) ?n = Some ?c" using looked_up_stored [OF live] .
    have wfb: "wf_ledger owner ?b" using okb by (simp add: slots_inv_def)
    have mine: "ticket_ok owner schm ?b t" if "t \<in> set tks" for t
      using okb that by (simp add: slots_inv_def)
    have new: "map_of (providers ?b') n' = (if n' = ?n then Some (settle_section now tk c ?c) else map_of (providers ?b) n')" for n'
      using live by (simp add: settling.on_live reading.on_live gomap_simps)
    show ?thesis
    proof (rule replace_ok [OF okb c new _ wf])
      show "superseded ?b' = superseded ?b"
        using live by (simp add: settling.on_live reading.on_live)
      show "ticket_ok owner schm ?b' t" if t: "t \<in> set (remove1 tk tks)" "tk_uid t = l_uid ?c" for t
      proof -
        have t': "t \<in> set tks" using t rem by simp
        have "tk_token t \<noteq> tk_token tk" using other [OF t(1)] t(2) by simp
        then show ?thesis
          using ticket_stored [OF mine [OF t'] c wfb t(2)] mine [OF t'] t(2) new
          by (auto simp: ticket_ok_def free_slots_map_of)
      qed
      show "\<exists>t \<in> set (remove1 tk tks). tk_uid t = l_uid ?c \<and> tk_period t = l_period ?c \<and> tk_token t = tok \<and> k \<in> set (tk_keys t)"
        if slot: "map_of (adm (settle_section now tk c ?c)) k = Some tok" for k tok
      proof -
        have "map_of (adm ?c) k = Some tok"
          using slot by (auto simp: free_slots_map_of split: if_splits)
        moreover have "ledger_ok schm now tks ?c"
          using okb c by (auto simp: slots_inv_def all_ledgers_def)
        ultimately obtain t where t: "t \<in> set tks" "tk_uid t = l_uid ?c" "tk_period t = l_period ?c"
            "tk_token t = tok" "k \<in> set (tk_keys t)"
          by (auto simp: ledger_ok_def)
        then have "t \<noteq> tk" using slot by (auto simp: free_slots_map_of split: if_splits)
        then show ?thesis using t rem by auto
      qed
    qed (use rem dist' in auto)
  qed
  then show ?thesis
    using slots_ok_cong [OF settle_state] by blast
qed

lemma section_keeps:
  assumes "slots_ok owner schm now b tks" "known owner schm p"
    and "slot_neutral f" "\<And>n u s b. all_ledgers rows_sum b \<Longrightarrow> all_ledgers rows_sum (fst (withLedger now n u s f b))"
  shows "slots_ok owner schm now (fst (withLedger now (Name p) (UID p) (period_of p) f b)) tks"
  using assms by (intro slot_neutral.slots_neutral) (auto simp: known_def slots_inv_def)

lemma published_keeps:
  assumes ok: "slots_ok owner schm now b tks"
  shows "slots_ok owner schm now (MarkPublished p snapshot b) tks"
proof (cases "\<exists>l d. boundLedger p b = Some l \<and> dirtySince l = Some d \<and> d \<le> snapshot")
  case False
  then show ?thesis using ok by (auto simp: MarkPublished_def split: option.splits)
next
  case True
  then obtain l where l: "map_of (providers b) (Name p) = Some l"
    and b': "MarkPublished p snapshot b = b\<lparr>providers := AList.update (Name p) (l\<lparr>dirtySince := None\<rparr>) (providers b)\<rparr>"
    by (auto simp: MarkPublished_def boundLedger_def split: option.splits if_splits)
  have wf: "wf_ledger owner b" "all_ledgers rows_sum b" using ok by (simp_all add: slots_inv_def)
  have "ledger_ok schm now tks l" using ok l by (auto simp: slots_inv_def all_ledgers_def)
  then have slots: "map_of (adm l) k = Some t \<Longrightarrow>
      \<exists>tk \<in> set tks. tk_uid tk = l_uid l \<and> tk_period tk = l_period l \<and> tk_token tk = t \<and> k \<in> set (tk_keys tk)" for k t
    by (simp add: ledger_ok_def)
  show ?thesis
    unfolding b'
  proof (rule replace_ok [OF ok l, where l' = "l\<lparr>dirtySince := None\<rparr>"])
    fix tk assume tk: "tk \<in> set tks" "tk_uid tk = l_uid l"
    then have "ticket_ok owner schm b tk" using ok by (simp add: slots_inv_def)
    then show "ticket_ok owner schm (b\<lparr>providers := AList.update (Name p) (l\<lparr>dirtySince := None\<rparr>) (providers b)\<rparr>) tk"
      using l by (auto simp: ticket_ok_def gomap_simps)
  qed (use ok wf l slots in \<open>auto simp: gomap_simps wf_ledger_def wf_pl_def all_ledgers_def rows_sum_def
      slots_inv_def distinct_update split: if_splits\<close>)
qed

lemma clock_keeps:
  assumes "slots_ok owner schm now b tks" "now \<le> t" "modern t"
  shows "slots_ok owner schm t b tks"
proof -
  have "ledger_ok schm t tks l" if "ledger_ok schm now tks l" for l
    using that PeriodKey_mono [of "schm (l_uid l)" now t] assms
    by (auto simp: ledger_ok_def slots_inv_def intro: order_trans)
  then show ?thesis using assms by (auto simp: slots_inv_def all_ledgers_def)
qed

lemma gw_step_keeps:
  assumes "gw_step owner schm s s'" "slots_inv owner schm s"
  shows "slots_inv owner schm s'"
  using assms
proof (induction rule: gw_step.induct)
  case (clock s t)
  then show ?case using clock_keeps [OF slots_invD] by - (rule slots_invI, simp)
next
  case (admit p s ns reps wl b d tk)
  then show ?case using admit_keeps [OF slots_invD] by - (rule slots_invI, simp)
next
  case (settles tk s c)
  then show ?case using settle_keeps [OF slots_invD] by - (rule slots_invI, simp)
next
  case (add p ns s wl c)
  then have ok: "slots_ok owner schm (r_now s) (r_ledger s) (r_open s)" by (blast intro: slots_invD)
  show ?case
    using ok section_keeps [OF ok add(1) recording_slots.slot_neutral_axioms
        ledger_invariant.keeps_all [OF recording_inv [OF add(2)]]]
    by - (rule slots_invI, simp add: Add_def Let_def)
next
  case (enforce p s ns)
  then have ok: "slots_ok owner schm (r_now s) (r_ledger s) (r_open s)" by (blast intro: slots_invD)
  show ?case
    using ok section_keeps [OF ok enforce(1) reading_slots.slot_neutral_axioms
        [of "\<lambda>l. utilizationLocked (budget_of p) l ns"] reading_inv.keeps_all]
    by - (rule slots_invI, simp add: Enforce_def Let_def split_def)
next
  case (fold_peers p s ps)
  then have ok: "slots_ok owner schm (r_now s) (r_ledger s) (r_open s)" by (blast intro: slots_invD)
  show ?case
    using section_keeps [OF ok fold_peers(1) folding_slots.slot_neutral_axioms folding_inv.keeps_all]
    by - (rule slots_invI, simp add: FoldPeers_def)
next
  case (fold_workloads p s ps)
  then have ok: "slots_ok owner schm (r_now s) (r_ledger s) (r_open s)" by (blast intro: slots_invD)
  show ?case
    using section_keeps [OF ok fold_workloads(1) folding_rows_slots.slot_neutral_axioms folding_rows_inv.keeps_all]
    by - (rule slots_invI, simp add: FoldWorkloadPeers_def)
next
  case (published p snapshot s)
  then show ?case using published_keeps [OF slots_invD] by - (rule slots_invI, simp)
qed

lemma reachable_inv:
  assumes "reachable owner schm t s" "modern t"
  shows "slots_inv owner schm s"
  using assms
proof (induction rule: rtranclp_induct)
  case base
  then show ?case by (simp add: slots_inv_def start_replica_def all_ledgers_def NewBudgetLedger_def wf_ledger_def)
next
  case (step s s')
  then show ?case using gw_step_keeps by blast
qed

lemma holders_one:
  assumes inv: "slots_inv owner schm s" and l: "map_of (providers (r_ledger s)) n = Some l"
  shows "length (holders s (l_uid l) (l_period l) k) \<le> 1"
proof -
  have same: "tk_token t = tk_token t'" if "t \<in> set (holders s (l_uid l) (l_period l) k)"
      "t' \<in> set (holders s (l_uid l) (l_period l) k)" for t t'
  proof -
    have "map_of (adm l) k = Some (tk_token x)" if "x \<in> set (holders s (l_uid l) (l_period l) k)" for x
      using that inv l ticket_stored(4) [of owner schm "r_ledger s" x n l k]
      by (auto simp: holders_def slots_inv_def)
    then show ?thesis using that by (metis option.inject)
  qed
  have dist: "distinct (map (\<lambda>tk. (tk_uid tk, tk_token tk)) (holders s (l_uid l) (l_period l) k))"
    using inv unfolding slots_inv_def holders_def by (auto simp: distinct_map inj_on_def)
  show ?thesis
  proof (cases "holders s (l_uid l) (l_period l) k")
    case (Cons a xs)
    show ?thesis
    proof (cases xs)
      case (Cons b ys)
      have "a \<in> set (holders s (l_uid l) (l_period l) k)" "b \<in> set (holders s (l_uid l) (l_period l) k)"
        using \<open>holders s (l_uid l) (l_period l) k = a # xs\<close> Cons by simp_all
      moreover from this have "tk_uid a = tk_uid b" by (simp add: holders_def)
      ultimately show ?thesis
        using dist same [of a b] \<open>holders s (l_uid l) (l_period l) k = a # xs\<close> Cons by simp
    qed (use Cons in simp)
  qed simp
qed

subsection \<open>Properties\<close>

text \<open>A slot is held exactly when a request in flight holds it, and under that request's token.\<close>

lemma slot_holder:
  assumes inv: "slots_inv owner schm s" and l: "map_of (providers (r_ledger s)) n = Some l"
  shows "map_of (adm l) k = (case holders s (l_uid l) (l_period l) k of [] \<Rightarrow> None | tk # _ \<Rightarrow> Some (tk_token tk))"
proof (cases "holders s (l_uid l) (l_period l) k")
  case Nil
  have "ledger_ok schm (r_now s) (r_open s) l"
    using inv l by (auto simp: slots_inv_def all_ledgers_def)
  then show ?thesis using Nil unfolding ledger_ok_def holders_def
    by (cases "map_of (adm l) k") (auto simp: filter_empty_conv)
next
  case (Cons tk tks)
  then have "tk \<in> set (holders s (l_uid l) (l_period l) k)" by simp
  then have "map_of (adm l) k = Some (tk_token tk)"
    using inv l ticket_stored(4) [of owner schm "r_ledger s" tk n l k] by (auto simp: holders_def slots_inv_def)
  then show ?thesis using Cons by simp
qed

text \<open>The settle of a request in flight frees its slots, also when it is the first to enter a new period.\<close>

lemma settle_frees:
  assumes inv: "slots_inv owner schm s" and l: "map_of (providers (r_ledger s)) n = Some l"
    and tk: "tk \<in> set (holders s (l_uid l) (l_period l) k)"
  shows "\<exists>l'. map_of (providers (settle (r_now s) tk c (r_ledger s))) n = Some l' \<and> map_of (adm l') k = None"
proof -
  let ?b = "r_ledger s"
  have t: "tk \<in> set (r_open s)" "tk_uid tk = l_uid l" "tk_period tk = l_period l" "k \<in> set (tk_keys tk)"
    using tk by (auto simp: holders_def)
  have wf: "wf_ledger owner ?b" and tok: "ticket_ok owner schm ?b tk" using inv t(1) by (auto simp: slots_inv_def)
  have n: "tk_name tk = n" and live: "tk_uid tk \<notin> superseded ?b"
    using wf_stored [OF wf l] tok t(2) by (auto simp: ticket_ok_def)
  let ?c = "current (r_now s) n (tk_uid tk) (tk_scheme tk) ?b"
  have "map_of (providers (settle (r_now s) tk c ?b)) n = Some (settle_section (r_now s) tk c ?c)"
    using live n by (simp add: settle_state settling.stored)
  moreover have "map_of (adm (settle_section (r_now s) tk c ?c)) k = None"
  proof (cases "?c = l")
    case True
    have "map_of (adm l) k = Some (tk_token tk)" using ticket_stored(4) [OF tok l wf t(2,3,4)] .
    then show ?thesis using True t(3,4) by (simp add: free_slots_map_of)
  next
    case False
    then have "adm ?c = []"
      using l live t(2) by (cases rule: current_cases [of "tk_uid tk" ?b "r_now s" n "tk_scheme tk"]) (auto simp: newProviderLedger_def rollover_def)
    then show ?thesis by (simp add: free_slots_map_of)
  qed
  ultimately show ?thesis by blast
qed

text \<open>
  C4. Serialized admission: in every state a replica can reach, by any interleaving of
  admissions, settles, recorded spend, folds, publishes and clock ticks, at most one request in
  flight holds the admission slot of a governed ceiling in a provider's current period.
\<close>

theorem one_holder:
  assumes "reachable owner scheme t s" "modern t"
    and "map_of (providers (r_ledger s)) n = Some l"
  shows "length (holders s (l_uid l) (l_period l) k) \<le> 1"
  using holders_one [OF reachable_inv [OF assms(1,2)] assms(3)] .

text \<open>
  C5. No slot leaks: in every reachable state a slot is held exactly when there is a request in
  flight that was admitted for this provider in its ledger's current period and governs the
  slot, and it is held under that request's token. The settle of that request, whenever it comes
  and whatever its cost, leaves the slot free.
\<close>

theorem no_slot_leak:
  assumes "reachable owner scheme t s" "modern t"
    and "map_of (providers (r_ledger s)) n = Some l"
  shows "map_of (adm l) k = (case holders s (l_uid l) (l_period l) k of [] \<Rightarrow> None | tk # _ \<Rightarrow> Some (tk_token tk))
    \<and> (\<forall>tk \<in> set (holders s (l_uid l) (l_period l) k).
        \<exists>l'. map_of (providers (settle (r_now s) tk c (r_ledger s))) n = Some l' \<and> map_of (adm l') k = None)"
  using slot_holder [OF reachable_inv [OF assms(1,2)] assms(3)] settle_frees [OF reachable_inv [OF assms(1,2)] assms(3)] by blast

text \<open>
  C9. In every reachable state the workload rows a replica keeps for a provider add up, for each
  namespace, to the spend it has counted for that namespace.
\<close>

theorem workload_rows_sum:
  assumes "reachable owner scheme t s" "modern t"
    and "map_of (providers (r_ledger s)) n = Some l" "is_namespace ns"
  shows "gwhere (row_of ns) (ownW l) = gnum (own l) ns"
  using reachable_inv [OF assms(1,2)] assms(3,4) by (simp add: slots_inv_def all_ledgers_def rows_sum_def)

text \<open>An execution: the example provider's peers are folded, then a request is admitted into the boundary.\<close>

definition demo_owner :: "uid \<Rightarrow> string" where "demo_owner u = ''claude''"
definition demo_scheme :: "uid \<Rightarrow> string" where "demo_scheme u = ''monthly''"

definition demo_folded :: replica where
  "demo_folded = (start_replica 0)\<lparr>r_ledger := demo_hard\<rparr>"

definition demo_engaged :: replica where
  "demo_engaged = (case Admit 0 None demo_provider ''team-a'' ''agent/a'' demo_hard of
     (b, d, tk) \<Rightarrow> demo_folded\<lparr>r_ledger := b, r_open := (case tk of None \<Rightarrow> [] | Some tk \<Rightarrow> [tk])\<rparr>)"

lemma demo_known: "known demo_owner demo_scheme demo_provider"
  by (simp add: known_def demo_owner_def demo_scheme_def demo_provider_def schemes_def)

lemma demo_modern: "modern 0"
  by code_simp

lemma demo_folded_reachable: "reachable demo_owner demo_scheme 0 demo_folded"
  using gw_step.fold_peers [OF demo_known, of "start_replica 0" "[(''team-a'', 96)]"]
  by (auto simp: demo_folded_def start_replica_def demo_hard_def intro: r_into_rtranclp)

lemma demo_hard_stored: "map_of (providers demo_hard) ''claude'' =
    Some ((newProviderLedger ''1970-01'' ''u1'')\<lparr>peers := [(''team-a'', 96)], lastFoldOK := Some 0\<rparr>)"
proof -
  have "PeriodKey ''monthly'' 0 = ''1970-01''" by code_simp
  then show ?thesis
    by (simp add: demo_hard_def FoldPeers_def demo_provider_def withLedger_def ledgerFor_def NewBudgetLedger_def
        storeLedger_def Let_def newProviderLedger_def)
qed

lemma demo_engaged_reachable: "reachable demo_owner demo_scheme 0 demo_engaged"
proof -
  obtain b d tk where A: "Admit 0 None demo_provider ''team-a'' ''agent/a'' demo_hard = (b, d, tk)"
    by (metis prod.exhaust)
  have "tokens_left demo_provider demo_hard"
    using demo_hard_stored by (simp add: tokens_left_def demo_provider_def)
  moreover have "is_namespace ''team-a''" by (simp add: is_namespace_def)
  ultimately have "gw_step demo_owner demo_scheme demo_folded demo_engaged"
    using gw_step.admit [OF demo_known, of demo_folded "''team-a''" None "''agent/a''" b d tk] A
    by (simp add: demo_folded_def demo_engaged_def start_replica_def cong: option.case_cong)
  then show ?thesis using demo_folded_reachable by auto
qed

lemma demo_engaged_open:
  "\<exists>t l. r_open demo_engaged = [t] \<and> map_of (providers (r_ledger demo_engaged)) ''claude'' = Some l
    \<and> tk_keys t = [''team-a''] \<and> tk_uid t = l_uid l \<and> tk_period t = l_period l"
proof -
  let ?c = "current 0 (Name demo_provider) (UID demo_provider) (period_of demo_provider) demo_hard"
  let ?f = "admit_section 0 None (stalenessWindow demo_hard) demo_provider ''team-a'' ''agent/a''"
  obtain d t l where s: "?f ?c = (l, d, Some t)" "tk_keys t = [''team-a'']"
    using demo_admit by blast
  have t: "tk_uid t = l_uid l" "tk_period t = l_period l"
    using s(1) admit_section_keeps(1,2) [of 0 None "stalenessWindow demo_hard" demo_provider "''team-a''" "''agent/a''" ?c]
    by (cases rule: admit_section_cases [of 0 None "stalenessWindow demo_hard" demo_provider "''team-a''" "''agent/a''" ?c]; simp)+
  have A: "Admit 0 None demo_provider ''team-a'' ''agent/a'' demo_hard =
      withLedger 0 (Name demo_provider) (UID demo_provider) (period_of demo_provider) ?f demo_hard"
    using demo_active by (auto simp: Admit_def Let_def PeriodKey_empty_iff hardActive_def split: if_splits)
  have "UID demo_provider \<notin> superseded demo_hard"
    by (simp add: demo_hard_def FoldPeers_def demo_provider_def NewBudgetLedger_def folding.on_live)
  then have "map_of (providers (fst (Admit 0 None demo_provider ''team-a'' ''agent/a'' demo_hard))) ''claude'' = Some l"
    using s(1) admitting.stored [of "UID demo_provider" demo_hard 0 "Name demo_provider"]
    unfolding A by (metis demo_provider_def ModelProvider.select_convs(1) fst_conv)
  moreover have "snd (snd (Admit 0 None demo_provider ''team-a'' ''agent/a'' demo_hard)) = Some t"
    using s(1) unfolding A by (simp add: admitting.result)
  ultimately show ?thesis
    using s(2) t by (auto simp: demo_engaged_def split: prod.splits)
qed

theorem one_holder_witness:
  "\<exists>l. reachable demo_owner demo_scheme 0 demo_engaged \<and> map_of (providers (r_ledger demo_engaged)) ''claude'' = Some l
    \<and> holders demo_engaged (l_uid l) (l_period l) ''team-a'' \<noteq> []
    \<and> length (holders demo_engaged (l_uid l) (l_period l) ''team-a'') \<le> 1"
proof -
  obtain t l where o: "r_open demo_engaged = [t]" "map_of (providers (r_ledger demo_engaged)) ''claude'' = Some l"
    "tk_keys t = [''team-a'']" "tk_uid t = l_uid l" "tk_period t = l_period l"
    using demo_engaged_open by blast
  have "holders demo_engaged (l_uid l) (l_period l) ''team-a'' = [t]"
    using o by (simp add: holders_def)
  with one_holder [OF demo_engaged_reachable demo_modern o(2)] o(2) demo_engaged_reachable show ?thesis
    by auto
qed

theorem no_slot_leak_witness:
  "\<exists>t l l'. r_open demo_engaged = [t] \<and> map_of (providers (r_ledger demo_engaged)) ''claude'' = Some l
    \<and> map_of (adm l) ''team-a'' = Some (tk_token t)
    \<and> map_of (providers (settle (r_now demo_engaged) t 2 (r_ledger demo_engaged))) ''claude'' = Some l' \<and> map_of (adm l') ''team-a'' = None"
proof -
  obtain t l where o: "r_open demo_engaged = [t]" "map_of (providers (r_ledger demo_engaged)) ''claude'' = Some l"
    "tk_keys t = [''team-a'']" "tk_uid t = l_uid l" "tk_period t = l_period l"
    using demo_engaged_open by blast
  have "holders demo_engaged (l_uid l) (l_period l) ''team-a'' = [t]"
    using o by (simp add: holders_def)
  with no_slot_leak [OF demo_engaged_reachable demo_modern o(2), of "''team-a''" 2] o(1,2) show ?thesis
    by auto
qed

theorem workload_rows_sum_witness:
  "\<exists>l. map_of (providers (r_ledger demo_engaged)) ''claude'' = Some l
    \<and> gwhere (row_of ''team-a'') (ownW l) = gnum (own l) ''team-a''"
proof -
  obtain t l where l: "map_of (providers (r_ledger demo_engaged)) ''claude'' = Some l"
    using demo_engaged_open by blast
  have "is_namespace ''team-a''" by (simp add: is_namespace_def)
  from workload_rows_sum [OF demo_engaged_reachable demo_modern l this] l show ?thesis by blast
qed

end
