(* ===== verification/Budget_Exchange.thy ===== *)
theory Budget_Exchange
  imports Budget_Hard
begin

text \<open>
  The replica side of the spend exchange (\<^verbatim>\<open>BudgetPublisher\<close> in
  \<^verbatim>\<open>src/internal/gateway/budget.go\<close> and \<^verbatim>\<open>budget_informer.go\<close>): publish this
  replica's partials into the provider's ConfigMaps, and fold the peers' partials back.

  The Kubernetes API is the record \<open>kube\<close> of what its calls answer during one pass; what the
  code sends is the list of apply requests an operation returns beside the ledger. A stored
  value and a new one are compared as JSON values, which is how \<^verbatim>\<open>json.Marshal\<close>
  writes them.
\<close>

subsection \<open>ConfigMaps and the API\<close>

record configMap =
  cm_Name :: string
  cm_ResourceVersion :: string
  cm_Labels :: "(string, string) gomap"
  cm_Data :: "(string, jsontext) gomap"

datatype getResult = Found configMap | NotFound | GetFailed

text \<open>
  What the API answers: the labeled list (\<open>None\<close> is an error), a live GET, whether an apply to
  a name succeeds, and the watch cache, which may be absent.
\<close>

record kube =
  k_list :: "configMap list option"
  k_get :: "string \<Rightarrow> getResult"
  k_apply :: "string \<Rightarrow> bool"
  k_cache :: "(string \<Rightarrow> getResult) option"

record applyRequest =
  a_name :: string
  a_label :: string
  a_key :: string
  a_raw :: jsontext

definition SpendConfigMapLabel :: string where "SpendConfigMapLabel = ''kaalm.io/spend''"
definition SpendLabelBudget :: string where "SpendLabelBudget = ''budget''"
definition SpendLabelAgentSpend :: string where "SpendLabelAgentSpend = ''agent-spend''"

type_synonym listing = "(string, configMap) gomap"

definition listSpendConfigMaps :: "kube \<Rightarrow> listing option" where
  "listSpendConfigMaps k =
     (case k_list k of
        None \<Rightarrow> None
      | Some items \<Rightarrow> Some (fold (\<lambda>cm out. AList.update (cm_Name cm) cm out) items []))"

text \<open>
  \<open>readSpendConfigMap\<close>: \<open>Inl\<close> is a read error, \<open>Inr None\<close> an absent ConfigMap. A nil
  listing reads as an empty one.
\<close>

definition live_read :: "kube \<Rightarrow> string \<Rightarrow> unit + configMap option" where
  "live_read k name = (case k_get k name of NotFound \<Rightarrow> Inr None | GetFailed \<Rightarrow> Inl () | Found cm \<Rightarrow> Inr (Some cm))"

definition readSpendConfigMap :: "kube \<Rightarrow> listing \<Rightarrow> string \<Rightarrow> unit + configMap option" where
  "readSpendConfigMap k listed name =
     (case k_cache k of
        None \<Rightarrow> (case map_of listed name of Some cm \<Rightarrow> Inr (Some cm) | None \<Rightarrow> live_read k name)
      | Some cache \<Rightarrow>
          (case (map_of listed name, cache name) of
             (Some cm, Found cached) \<Rightarrow>
               if cm_ResourceVersion cached = cm_ResourceVersion cm then Inr (Some cm) else live_read k name
           | (None, NotFound) \<Rightarrow> Inr None
           | _ \<Rightarrow> live_read k name))"

definition alreadyStored :: "string \<Rightarrow> listing \<Rightarrow> string \<Rightarrow> string \<Rightarrow> jsontext \<Rightarrow> bool" where
  "alreadyStored podName listed name label raw \<longleftrightarrow>
     (case map_of listed name of
        None \<Rightarrow> False
      | Some cm \<Rightarrow> map_of (cm_Data cm) podName = Some raw \<and> gstring (cm_Labels cm) SpendConfigMapLabel = label)"

subsection \<open>Publishing\<close>

definition publishWorkloads ::
  "string \<Rightarrow> kube \<Rightarrow> ModelProvider \<Rightarrow> listing \<Rightarrow> BudgetLedger \<Rightarrow> applyRequest list" where
  "publishWorkloads podName k provider listed b =
     (case OwnWorkloadPartial provider b of
        None \<Rightarrow> []
      | Some (period, spend) \<Rightarrow>
          let raw = marshal_partial \<lparr>bp_Period = period, bp_Spend = spend, bp_MarginExceeded = False,
                                     bp_ProviderUID = UID provider\<rparr>;
              name = AgentSpendConfigMapName (Name provider)
          in if alreadyStored podName listed name SpendLabelAgentSpend raw then []
             else [\<lparr>a_name = name, a_label = SpendLabelAgentSpend, a_key = podName, a_raw = raw\<rparr>])"

definition own_raw :: "ModelProvider \<Rightarrow> string \<times> (string, string) gomap \<times> bool \<Rightarrow> jsontext" where
  "own_raw provider = (\<lambda>(period, spend, raised).
     marshal_partial \<lparr>bp_Period = period, bp_Spend = spend, bp_MarginExceeded = raised, bp_ProviderUID = UID provider\<rparr>)"

definition publish ::
  "gotime \<Rightarrow> string \<Rightarrow> kube \<Rightarrow> ModelProvider \<Rightarrow> listing \<Rightarrow> BudgetLedger \<Rightarrow> BudgetLedger \<times> applyRequest list" where
  "publish snapshot podName k provider listed b =
     (case OwnPartial provider b of
        None \<Rightarrow> (b, [])
      | Some mine \<Rightarrow>
          let raw = own_raw provider mine; name = BudgetConfigMapName (Name provider)
          in if alreadyStored podName listed name SpendLabelBudget raw then
               (let b = MarkPublished provider snapshot b in (b, publishWorkloads podName k provider listed b))
             else
               let req = \<lparr>a_name = name, a_label = SpendLabelBudget, a_key = podName, a_raw = raw\<rparr>
               in if \<not> k_apply k name then (b, [req])
                  else (let b = MarkPublished provider snapshot b
                        in (b, req # publishWorkloads podName k provider listed b)))"

fun publishByName ::
  "gotime \<Rightarrow> string \<Rightarrow> kube \<Rightarrow> ModelProvider list \<Rightarrow> string \<Rightarrow> BudgetLedger \<Rightarrow> BudgetLedger \<times> applyRequest list" where
  "publishByName now podName k [] name b = (b, [])"
| "publishByName now podName k (p # ps) name b =
     (if Name p = name then publish now podName k p [] b else publishByName now podName k ps name b)"

fun publishFinal :: "gotime \<Rightarrow> string \<Rightarrow> kube \<Rightarrow> ModelProvider list \<Rightarrow> BudgetLedger \<Rightarrow> BudgetLedger \<times> applyRequest list" where
  "publishFinal now podName k [] b = (b, [])"
| "publishFinal now podName k (p # ps) b =
     (if PeriodKey (period_of p) now = [] then publishFinal now podName k ps b
      else let (b, reqs) = publish now podName k p [] b; (b, reqs') = publishFinal now podName k ps b
           in (b, reqs @ reqs'))"

subsection \<open>Folding\<close>

definition foldWorkloads ::
  "gotime \<Rightarrow> string \<Rightarrow> kube \<Rightarrow> ModelProvider \<Rightarrow> listing \<Rightarrow> BudgetLedger \<Rightarrow> BudgetLedger" where
  "foldWorkloads now podName k provider listed b =
     (case readSpendConfigMap k listed (AgentSpendConfigMapName (Name provider)) of
        Inl _ \<Rightarrow> b
      | Inr None \<Rightarrow> FoldWorkloadPeers now provider [] b
      | Inr (Some cm) \<Rightarrow>
          FoldWorkloadPeers now provider
            (FoldPartials (cm_Data cm) podName (PeriodKey (period_of provider) now) (UID provider)) b)"

definition fold_provider ::
  "gotime \<Rightarrow> string \<Rightarrow> kube \<Rightarrow> ModelProvider \<Rightarrow> listing \<Rightarrow> BudgetLedger \<Rightarrow> BudgetLedger" where
  "fold_provider now podName k provider listed b =
     (case readSpendConfigMap k listed (BudgetConfigMapName (Name provider)) of
        Inl _ \<Rightarrow> b
      | Inr None \<Rightarrow> FoldPeers now provider [] b
      | Inr (Some cm) \<Rightarrow>
          foldWorkloads now podName k provider listed
            (FoldPeers now provider
               (FoldPartials (cm_Data cm) podName (PeriodKey (period_of provider) now) (UID provider)) b))"

fun tick_providers ::
  "gotime \<Rightarrow> string \<Rightarrow> kube \<Rightarrow> listing option \<Rightarrow> ModelProvider list \<Rightarrow> BudgetLedger \<Rightarrow> BudgetLedger \<times> applyRequest list" where
  "tick_providers now podName k listed [] b = (b, [])"
| "tick_providers now podName k listed (p # ps) b =
     (if PeriodKey (period_of p) now = [] then tick_providers now podName k listed ps b
      else
        let (b, reqs) = publish now podName k p (case listed of None \<Rightarrow> [] | Some l \<Rightarrow> l) b;
            b = (case listed of None \<Rightarrow> b | Some l \<Rightarrow> fold_provider now podName k p l b);
            (b, reqs') = tick_providers now podName k listed ps b
        in (b, reqs @ reqs'))"

definition tick :: "gotime \<Rightarrow> string \<Rightarrow> kube \<Rightarrow> ModelProvider list \<Rightarrow> BudgetLedger \<Rightarrow> BudgetLedger \<times> applyRequest list" where
  "tick now podName k ps b = tick_providers now podName k (listSpendConfigMaps k) ps b"

text \<open>The canonical roll-up of the reducer, read once at startup.\<close>

definition parse_canonical :: "jsontext \<Rightarrow> (string, usd) gomap option" where
  "parse_canonical raw =
     (case unmarshal_strings raw of
        None \<Rightarrow> None
      | Some flat \<Rightarrow>
          Some (fold (\<lambda>(ns, v) out. case ParseFloat v of None \<Rightarrow> out | Some f \<Rightarrow> AList.update ns f out) flat []))"

definition seed_one ::
  "(ModelProvider \<Rightarrow> (string, usd) gomap \<Rightarrow> BudgetLedger \<Rightarrow> BudgetLedger) \<Rightarrow> kube \<Rightarrow> listing \<Rightarrow> string
    \<Rightarrow> ModelProvider \<Rightarrow> BudgetLedger \<Rightarrow> BudgetLedger" where
  "seed_one into k listed name p b =
     (case readSpendConfigMap k listed name of
        Inr (Some cm) \<Rightarrow>
          (case map_of (cm_Data cm) CanonicalKey of
             None \<Rightarrow> b
           | Some raw \<Rightarrow> (case parse_canonical raw of None \<Rightarrow> b | Some canonical \<Rightarrow> into p canonical b))
      | _ \<Rightarrow> b)"

definition seedWorkloadsFromCanonical ::
  "gotime \<Rightarrow> kube \<Rightarrow> listing \<Rightarrow> ModelProvider list \<Rightarrow> BudgetLedger \<Rightarrow> BudgetLedger" where
  "seedWorkloadsFromCanonical now k listed ps b =
     fold (\<lambda>p. seed_one (FoldWorkloadPeers now) k listed (AgentSpendConfigMapName (Name p)) p) ps b"

definition SeedFromCanonical :: "gotime \<Rightarrow> kube \<Rightarrow> ModelProvider list \<Rightarrow> BudgetLedger \<Rightarrow> BudgetLedger" where
  "SeedFromCanonical now k ps b =
     (let listed = (case listSpendConfigMaps k of None \<Rightarrow> [] | Some l \<Rightarrow> l)
      in seedWorkloadsFromCanonical now k listed ps
           (fold (\<lambda>p. seed_one (InitCanonical now) k listed (BudgetConfigMapName (Name p)) p) ps b))"

text \<open>The watch-driven fold; \<open>store\<close> is the lookup of a provider by name.\<close>

definition FoldBudgetConfigMapEvent ::
  "gotime \<Rightarrow> string \<Rightarrow> (string \<Rightarrow> ModelProvider option) \<Rightarrow> configMap \<Rightarrow> BudgetLedger \<Rightarrow> BudgetLedger" where
  "FoldBudgetConfigMapEvent now podName store cm b =
     (let refold = (\<lambda>into providerName.
            case store providerName of
              None \<Rightarrow> b
            | Some p \<Rightarrow>
                (let currentPeriod = PeriodKey (period_of p) now
                 in if currentPeriod = [] then b
                    else into now p (FoldPartials (cm_Data cm) podName currentPeriod (UID p)) b))
      in case CutPrefix (cm_Name cm) ''kaalm-agentspend-'' of
           Some (c # cs) \<Rightarrow> refold FoldWorkloadPeers (c # cs)
         | _ \<Rightarrow>
             (case CutPrefix (cm_Name cm) ''kaalm-budget-'' of
                Some (c # cs) \<Rightarrow> refold FoldPeers (c # cs)
              | _ \<Rightarrow> b))"

subsection \<open>What each operation leaves alone\<close>

lemma boundLedger_cong:
  "map_of (providers b) (Name p) = map_of (providers b') (Name p) \<Longrightarrow> boundLedger p b = boundLedger p b'"
  by (simp add: boundLedger_def)

lemma MarkPublished_frame: "n \<noteq> Name p \<Longrightarrow> map_of (providers (MarkPublished p t b)) n = map_of (providers b) n"
  by (auto simp: MarkPublished_def gomap_simps split: option.splits)

lemma MarkPublished_cases:
  "MarkPublished p t b = b \<or> (\<exists>x. map_of (providers b) (Name p) = Some x \<and>
     MarkPublished p t b = b\<lparr>providers := AList.update (Name p) (x\<lparr>dirtySince := None\<rparr>) (providers b)\<rparr>)"
  by (auto simp: MarkPublished_def boundLedger_def split: option.splits)

lemma MarkPublished_stored:
  assumes l: "map_of (providers b) n = Some l"
  shows "\<exists>d. map_of (providers (MarkPublished p t b)) n = Some (l\<lparr>dirtySince := d\<rparr>)"
proof -
  have self: "l = l\<lparr>dirtySince := dirtySince l\<rparr>" by simp
  from MarkPublished_cases [of p t b] show ?thesis
  proof (elim disjE exE conjE)
    assume "MarkPublished p t b = b"
    then show ?thesis using l self by metis
  next
    fix x assume x: "map_of (providers b) (Name p) = Some x"
      "MarkPublished p t b = b\<lparr>providers := AList.update (Name p) (x\<lparr>dirtySince := None\<rparr>) (providers b)\<rparr>"
    show ?thesis
    proof (cases "n = Name p")
      case True
      then show ?thesis using x l by (auto simp: gomap_simps)
    next
      case False
      then have "map_of (providers (MarkPublished p t b)) n = Some l" using x l by (simp add: gomap_simps)
      then show ?thesis using self by metis
    qed
  qed
qed

lemma publish_frame: "n \<noteq> Name p \<Longrightarrow> map_of (providers (fst (publish t pod k p listed b))) n = map_of (providers b) n"
  by (auto simp: publish_def Let_def MarkPublished_frame split: option.splits)

lemma publish_state: "fst (publish t pod k p listed b) = b \<or> fst (publish t pod k p listed b) = MarkPublished p t b"
  by (auto simp: publish_def Let_def split: option.splits)

lemma publish_stored:
  assumes l: "map_of (providers b) n = Some l"
  shows "\<exists>d. map_of (providers (fst (publish t pod k p listed b))) n = Some (l\<lparr>dirtySince := d\<rparr>)"
proof -
  have self: "l = l\<lparr>dirtySince := dirtySince l\<rparr>" by simp
  from publish_state [of t pod k p listed b] show ?thesis
    using l self MarkPublished_stored [OF l, of p t] by metis
qed

lemma FoldPeers_frame: "n \<noteq> Name p \<Longrightarrow> map_of (providers (FoldPeers now p ps b)) n = map_of (providers b) n"
  by (simp add: FoldPeers_def folding.frame)

lemma FoldWorkloadPeers_frame:
  "n \<noteq> Name p \<Longrightarrow> map_of (providers (FoldWorkloadPeers now p ps b)) n = map_of (providers b) n"
  by (simp add: FoldWorkloadPeers_def folding_rows.frame)

lemma fold_provider_frame:
  "n \<noteq> Name p \<Longrightarrow> map_of (providers (fold_provider now pod k p listed b)) n = map_of (providers b) n"
  by (auto simp: fold_provider_def foldWorkloads_def FoldPeers_frame FoldWorkloadPeers_frame split: sum.splits option.splits)

text \<open>A publish issues the replica's own partial unless the listing shows it stored.\<close>

lemma publish_request:
  assumes "OwnPartial p b = Some mine"
    and "\<not> alreadyStored pod listed (BudgetConfigMapName (Name p)) SpendLabelBudget (own_raw p mine)"
  shows "\<lparr>a_name = BudgetConfigMapName (Name p), a_label = SpendLabelBudget, a_key = pod, a_raw = own_raw p mine\<rparr>
    \<in> set (snd (publish t pod k p listed b))"
  using assms by (auto simp: publish_def Let_def)

lemma tick_requests:
  assumes "p \<in> set ps" "distinct (map Name ps)" "PeriodKey (period_of p) now \<noteq> []" "OwnPartial p b = Some mine"
    and "\<not> alreadyStored pod (case listed of None \<Rightarrow> [] | Some l \<Rightarrow> l) (BudgetConfigMapName (Name p)) SpendLabelBudget (own_raw p mine)"
  shows "\<lparr>a_name = BudgetConfigMapName (Name p), a_label = SpendLabelBudget, a_key = pod, a_raw = own_raw p mine\<rparr>
    \<in> set (snd (tick_providers now pod k listed ps b))"
  using assms
proof (induction ps arbitrary: b)
  case Nil
  then show ?case by simp
next
  case (Cons q ps)
  let ?listed = "case listed of None \<Rightarrow> [] | Some l \<Rightarrow> l"
  show ?case
  proof (cases "q = p")
    case True
    then show ?thesis
      using Cons.prems publish_request [OF Cons.prems(4,5), of now k] by (auto simp: Let_def split: prod.splits)
  next
    case False
    then have p: "p \<in> set ps" using Cons.prems by simp
    then have p2: "Name p \<noteq> Name q" using Cons.prems(2) by (metis distinct.simps(2) image_eqI list.simps(9) set_map)
    let ?b1 = "fst (publish now pod k q ?listed b)"
    let ?b2 = "case listed of None \<Rightarrow> ?b1 | Some l \<Rightarrow> fold_provider now pod k q l ?b1"
    have "map_of (providers ?b2) (Name p) = map_of (providers b) (Name p)"
      using p2 by (auto simp: fold_provider_frame publish_frame split: option.splits)
    then have "OwnPartial p ?b2 = Some mine"
      using Cons.prems(4) boundLedger_cong [of ?b2 p b] by (simp add: OwnPartial_def)
    moreover have "snd (tick_providers now pod k listed (q # ps) b) =
        (if PeriodKey (period_of q) now = [] then snd (tick_providers now pod k listed ps b)
         else snd (publish now pod k q ?listed b) @ snd (tick_providers now pod k listed ps ?b2))"
      by (simp add: Let_def split_def)
    ultimately show ?thesis
      using Cons.IH [OF p _ Cons.prems(3) _ Cons.prems(5), of ?b2] Cons.IH [OF p _ Cons.prems(3,4,5)] Cons.prems(2)
      by auto
  qed
qed

lemma tick_without_list:
  "map_of (providers b) n = Some l \<Longrightarrow>
   \<exists>d. map_of (providers (fst (tick_providers now pod k None ps b))) n = Some (l\<lparr>dirtySince := d\<rparr>)"
proof (induction ps arbitrary: b l)
  case Nil
  have "l = l\<lparr>dirtySince := dirtySince l\<rparr>" by simp
  then show ?case using Nil by (metis fst_conv tick_providers.simps(1))
next
  case (Cons p ps)
  obtain d where "map_of (providers (fst (publish now pod k p [] b))) n = Some (l\<lparr>dirtySince := d\<rparr>)"
    using publish_stored [OF Cons.prems] by blast
  from Cons.IH [OF this] Cons.IH [OF Cons.prems] show ?case
    by (auto simp: Let_def split: prod.splits)
qed

subsection \<open>The view of the cluster's spend\<close>

text \<open>
  What the API server makes of the apply requests: each sets its own key of the named ConfigMap
  and leaves the keys of the other field managers. \<open>exchanged\<close> is the data of a provider's budget
  ConfigMap after each of the replicas has published, one after the other.
\<close>

definition apply_to :: "string \<Rightarrow> applyRequest list \<Rightarrow> (string, jsontext) gomap \<Rightarrow> (string, jsontext) gomap" where
  "apply_to name reqs data = fold (\<lambda>r data. if a_name r = name then AList.update (a_key r) (a_raw r) data else data) reqs data"

definition exchanged ::
  "gotime \<Rightarrow> kube \<Rightarrow> ModelProvider \<Rightarrow> (string \<times> BudgetLedger) list \<Rightarrow> (string, jsontext) gomap" where
  "exchanged snapshot k p reps =
     fold (\<lambda>(pod, b). apply_to (BudgetConfigMapName (Name p)) (snd (publish snapshot pod k p [] b))) reps []"

definition own_spend :: "ModelProvider \<Rightarrow> BudgetLedger \<Rightarrow> (string, usd) gomap" where
  "own_spend p b = (case boundLedger p b of None \<Rightarrow> [] | Some l \<Rightarrow> own l)"

definition entry_of :: "ModelProvider \<Rightarrow> string \<times> BudgetLedger \<Rightarrow> string \<times> jsontext" where
  "entry_of p = (\<lambda>(pod, b). (pod, case OwnPartial p b of None \<Rightarrow> undefined | Some mine \<Rightarrow> own_raw p mine))"

lemma to_cents_0 [simp]: "to_cents 0 = 0"
  by (simp add: to_cents_whole)

lemma publish_stores:
  assumes "k_apply k (BudgetConfigMapName (Name p))"
  shows "apply_to (BudgetConfigMapName (Name p)) (snd (publish snapshot pod k p [] b)) data =
    (if own_spend p b = [] then data else AList.update pod (snd (entry_of p (pod, b))) data)"
proof -
  have "AgentSpendConfigMapName n \<noteq> BudgetConfigMapName m" for n m
    by (simp add: AgentSpendConfigMapName_def BudgetConfigMapName_def)
  then have rows: "apply_to (BudgetConfigMapName (Name p)) (publishWorkloads pod k p [] b') data = data" for b' data
    by (auto simp: publishWorkloads_def apply_to_def Let_def alreadyStored_def split: option.split)
  show ?thesis
    using assms rows [unfolded apply_to_def]
    by (auto simp: publish_def apply_to_def entry_of_def own_spend_def OwnPartial_def alreadyStored_def Let_def split: option.splits)
qed

lemma update_new: "k \<notin> fst ` set m \<Longrightarrow> AList.update k v m = m @ [(k, v)]"
  by (induction m) auto

lemma exchanged_entries:
  assumes "k_apply k (BudgetConfigMapName (Name p))" "distinct (map fst reps)"
  shows "exchanged snapshot k p reps = map (entry_of p) (filter (\<lambda>r. own_spend p (snd r) \<noteq> []) reps)"
proof -
  have "fold (\<lambda>(pod, b). apply_to (BudgetConfigMapName (Name p)) (snd (publish snapshot pod k p [] b))) reps data =
      data @ map (entry_of p) (filter (\<lambda>r. own_spend p (snd r) \<noteq> []) reps)" if "fst ` set data \<inter> fst ` set reps = {}" for data
    using that assms(2)
  proof (induction reps arbitrary: data)
    case (Cons r reps)
    obtain pod b where r: "r = (pod, b)" by (cases r)
    have e: "fst (entry_of p (pod, b)) = pod" "(pod, snd (entry_of p (pod, b))) = entry_of p (pod, b)" by (simp_all add: entry_of_def)
    have "pod \<notin> fst ` set data" using Cons.prems(1) r by auto
    then have "AList.update pod (snd (entry_of p (pod, b))) data = data @ [entry_of p (pod, b)]" by (simp add: update_new e)
    then show ?case
      using Cons.IH [of data] Cons.IH [of "data @ [entry_of p (pod, b)]"] Cons.prems r e(1)
      by (auto simp: publish_stores [OF assms(1)])
  qed simp
  from this [of "[]"] show ?thesis by (simp add: exchanged_def)
qed

definition in_period :: "ModelProvider \<Rightarrow> string \<Rightarrow> BudgetLedger \<Rightarrow> bool" where
  "in_period p per b \<longleftrightarrow> (\<forall>l. boundLedger p b = Some l \<longrightarrow> l_period l = per \<and> encodable (own l))"

lemma entry_counted:
  assumes "in_period p per b" "own_spend p b \<noteq> []" "pod \<notin> {CanonicalKey, PreviousKey}"
  shows "gnum (counted me per (UID p) (entry_of p (pod, b))) ns = (if pod = me then 0 else to_cents (gnum (own_spend p b) ns))"
proof -
  obtain l where l: "boundLedger p b = Some l" "own l \<noteq> []" using assms(2) by (auto simp: own_spend_def split: option.splits)
  then have e: "entry_of p (pod, b) = (pod, marshal_partial
      \<lparr>bp_Period = per, bp_Spend = format_spend (own l), bp_MarginExceeded = marginRaised l, bp_ProviderUID = UID p\<rparr>)" "encodable (own l)"
    using assms(1) by (auto simp: entry_of_def OwnPartial_def own_raw_def in_period_def)
  obtain r where "ParseBudgetPartial (snd (entry_of p (pod, b))) = Some r" "pv_period r = per"
    "pv_providerUID r = UID p" "map_of (pv_spend r) ns = map_option to_cents (map_of (own l) ns)"
    using parse_marshal_spend [OF e(2), of per "marginRaised l" "UID p"] unfolding e(1) by auto
  then show ?thesis
    using assms(3) l(1) e(1) by (auto simp: counted_def gnum_def own_spend_def split: option.splits)
qed

lemma exchanged_view:
  assumes "\<forall>(pod, b) \<in> set reps. in_period p per b \<and> pod \<notin> {CanonicalKey, PreviousKey}"
    and "k_apply k (BudgetConfigMapName (Name p))" "distinct (map fst reps)"
  shows "gnum (FoldPartials (exchanged snapshot k p reps) me per (UID p)) ns =
    (\<Sum>(pod, b)\<leftarrow>reps. if pod = me then 0 else to_cents (gnum (own_spend p b) ns))"
proof -
  have "(\<Sum>r\<leftarrow>filter (\<lambda>r. own_spend p (snd r) \<noteq> []) reps. gnum (counted me per (UID p) (entry_of p r)) ns) =
      (\<Sum>(pod, b)\<leftarrow>reps. if pod = me then 0 else to_cents (gnum (own_spend p b) ns))"
    using assms(1)
  proof (induction reps)
    case (Cons r reps)
    obtain pod b where "r = (pod, b)" by (cases r)
    then show ?case
      using Cons entry_counted [of p per b pod me ns] by (cases "own_spend p b = []"; cases "pod = me") simp_all
  qed simp
  then show ?thesis by (simp add: FoldPartials_num exchanged_entries [OF assms(2,3)] comp_def)
qed

text \<open>Rounding the peers to cents.\<close>

lemma cents_close:
  "\<bar>(\<Sum>(pod, m)\<leftarrow>zs. if pod = me then 0 else to_cents (f m)) - (\<Sum>(pod, m)\<leftarrow>zs. if pod = me then 0 else f m)\<bar>
    \<le> of_nat (length (filter (\<lambda>z. fst z \<noteq> me) zs)) / 200"
proof (induction zs)
  case (Cons z zs)
  obtain pod m where z: "z = (pod, m)" by (cases z)
  have "\<bar>to_cents (f m) - f m\<bar> \<le> 1 / 200" by (rule to_cents_close)
  moreover have "\<bar>a + x - (b + y)\<bar> \<le> (1 + n) / 200" if "\<bar>a - b\<bar> \<le> 1 / 200" "\<bar>x - y\<bar> \<le> n / 200" for a b x y n :: rat
  proof -
    have "(1 + n) / 200 = 1 / 200 + n / 200" by (rule add_divide_distrib)
    then show ?thesis using that by linarith
  qed
  ultimately show ?case
    using Cons by (cases "pod = me") (simp_all add: z)
qed simp

lemma own_update_filter:
  "k \<in> S \<Longrightarrow> filter (\<lambda>e. fst e \<notin> S) (AList.update k v m) = filter (\<lambda>e. fst e \<notin> S) m"
  by (induction m) auto

subsection \<open>Properties\<close>

text \<open>
  C20. The exchange gives every replica the cluster's spend to within half a cent per peer: after
  each replica has published its ledger's partial of a provider into the provider's ConfigMap, a
  replica's own counter of a namespace plus what it folds from that ConfigMap differs from the
  sum of all replicas' counters by at most half a cent for each peer. A replica with nothing to
  publish sends nothing.
\<close>

theorem exchange_view:
  assumes reps: "\<forall>(pod, b) \<in> set reps. in_period p per b \<and> pod \<notin> {CanonicalKey, PreviousKey}"
    and stored: "k_apply k (BudgetConfigMapName (Name p))"
    and mine: "distinct (map fst reps)" "(me, mine) \<in> set reps"
  shows "\<bar>(gnum (own_spend p mine) ns + gnum (FoldPartials (exchanged snapshot k p reps) me per (UID p)) ns)
      - (\<Sum>(pod, b)\<leftarrow>reps. gnum (own_spend p b) ns)\<bar> \<le> of_nat (length reps - 1) / 200"
proof -
  obtain xs ys where split: "reps = xs @ (me, mine) # ys"
    using mine(2) by (meson split_list)
  have nin: "me \<notin> fst ` set xs" "me \<notin> fst ` set ys" using mine(1) split by auto
  let ?f = "\<lambda>b. gnum (own_spend p b) ns"
  have others: "(\<Sum>(pod, b)\<leftarrow>zs. if pod = me then 0 else ?f b) = (\<Sum>(pod, b)\<leftarrow>zs. ?f b)"
    "filter (\<lambda>z. fst z \<noteq> me) zs = zs" if "me \<notin> fst ` set zs" for zs
    using that by (induction zs) auto
  have sum: "(\<Sum>(pod, b)\<leftarrow>reps. ?f b) = ?f mine + (\<Sum>(pod, b)\<leftarrow>reps. if pod = me then 0 else ?f b)"
    and len: "length (filter (\<lambda>z. fst z \<noteq> me) reps) = length reps - 1"
    using others [OF nin(1)] others [OF nin(2)] by (simp_all add: split)
  have "a + x - (a + y) = x - y" for a x y :: rat by simp
  then show ?thesis
    using cents_close [of me ?f reps] unfolding exchanged_view [OF reps stored mine(1)] sum len by metis
qed

definition demo_replica :: "rat \<Rightarrow> BudgetLedger" where
  "demo_replica c = NewBudgetLedger\<lparr>providers := [(''claude'', demo_ledger\<lparr>own := [(''team-a'', c)]\<rparr>)]\<rparr>"

definition demo_kube :: kube where
  "demo_kube = \<lparr>k_list = Some [], k_get = (\<lambda>n. NotFound), k_apply = (\<lambda>n. True), k_cache = None\<rparr>"

lemma demo_own: "own_spend demo_provider (demo_replica c) = [(''team-a'', c)]"
  by (simp add: own_spend_def demo_replica_def boundLedger_def demo_provider_def demo_ledger_def newProviderLedger_def)

theorem exchange_view_witness:
  "\<bar>(1 / 3 + gnum (FoldPartials (exchanged 0 demo_kube demo_provider [(''gw-0'', demo_replica (1 / 3)), (''gw-1'', demo_replica (2 / 3))])
       ''gw-0'' ''2026-03'' ''u1'') ''team-a'') - 1\<bar> \<le> 1 / 200"
proof -
  have "encodable [(''team-a'', c)]" if "0 \<le> c" "c \<le> 1" for c
    using float_overflow_gr to_cents_close [of c] that
    by (auto simp: encodable_def spend_field_def HasPrefix_def abs_if split: if_splits)
  then have "in_period demo_provider ''2026-03'' (demo_replica c)" if "0 \<le> c" "c \<le> 1" for c
    using that by (auto simp: in_period_def demo_replica_def boundLedger_def demo_ledger_def newProviderLedger_def split: if_splits)
  moreover have "UID demo_provider = ''u1''" by (simp add: demo_provider_def)
  ultimately show ?thesis
    using exchange_view [of "[(''gw-0'', demo_replica (1 / 3)), (''gw-1'', demo_replica (2 / 3))]" demo_provider "''2026-03''" demo_kube
        "''gw-0''" "demo_replica (1 / 3)" "''team-a''" 0]
    by (simp add: demo_own gnum_Cons reserved_keys demo_kube_def)
qed

text \<open>
  C21. A tick publishes what it is about to reset: whatever period the clock is in, the tick sends
  every budgeted provider's own partial as the ledger held it before the tick, unless the listing
  shows it stored already. The fold, which starts a new period with empty counters, comes after.
\<close>

theorem tick_publishes_first:
  assumes "p \<in> set ps" "distinct (map Name ps)" "period_of p \<in> schemes" "OwnPartial p b = Some mine"
    and "\<not> alreadyStored pod (case listSpendConfigMaps k of None \<Rightarrow> [] | Some l \<Rightarrow> l)
          (BudgetConfigMapName (Name p)) SpendLabelBudget (own_raw p mine)"
  shows "\<lparr>a_name = BudgetConfigMapName (Name p), a_label = SpendLabelBudget, a_key = pod, a_raw = own_raw p mine\<rparr>
    \<in> set (snd (tick now pod k ps b))"
  using tick_requests [OF assms(1,2) _ assms(4,5)] assms(3) by (simp add: tick_def PeriodKey_empty_iff)

theorem tick_publishes_first_witness:
  "\<exists>mine. OwnPartial demo_provider (NewBudgetLedger\<lparr>providers := [(''claude'', demo_ledger)]\<rparr>) = Some mine
    \<and> fst mine = ''2026-03''
    \<and> \<lparr>a_name = ''kaalm-budget-claude'', a_label = SpendLabelBudget, a_key = ''gw-0'', a_raw = own_raw demo_provider mine\<rparr>
       \<in> set (snd (tick 0 ''gw-0'' demo_kube [demo_provider] (NewBudgetLedger\<lparr>providers := [(''claude'', demo_ledger)]\<rparr>)))"
proof -
  let ?b = "NewBudgetLedger\<lparr>providers := [(''claude'', demo_ledger)]\<rparr>"
  obtain mine where o: "OwnPartial demo_provider ?b = Some mine" "fst mine = ''2026-03''"
    by (auto simp: OwnPartial_def boundLedger_def demo_provider_def demo_ledger_def)
  have n: "BudgetConfigMapName (Name demo_provider) = ''kaalm-budget-claude''"
    by (simp add: BudgetConfigMapName_def demo_provider_def)
  have "\<not> alreadyStored ''gw-0'' (case listSpendConfigMaps demo_kube of None \<Rightarrow> [] | Some l \<Rightarrow> l)
          (BudgetConfigMapName (Name demo_provider)) SpendLabelBudget (own_raw demo_provider mine)"
    by (simp add: alreadyStored_def listSpendConfigMaps_def demo_kube_def)
  from tick_publishes_first [OF _ _ demo_active(2) o(1) this, of "[demo_provider]" 0] o n show ?thesis by auto
qed

text \<open>
  C22. A failed list folds nothing: a tick whose list fails leaves every provider's counters, peer
  view, period and last successful fold as they were, so the view grows stale and hard admission
  fails closed once the staleness window has passed.
\<close>

theorem failed_list_goes_stale:
  assumes "k_list k = None" "map_of (providers b) n = Some l"
  shows "\<exists>l'. map_of (providers (fst (tick now pod k ps b))) n = Some l'
    \<and> own l' = own l \<and> peers l' = peers l \<and> l_period l' = l_period l \<and> lastFoldOK l' = lastFoldOK l
    \<and> (\<forall>f w t. lastFoldOK l = Some f \<longrightarrow> w < t - f \<longrightarrow> stale t w l')"
proof -
  obtain d where "map_of (providers (fst (tick now pod k ps b))) n = Some (l\<lparr>dirtySince := d\<rparr>)"
    using tick_without_list [OF assms(2), of now pod k ps] assms(1)
    by (auto simp: tick_def listSpendConfigMaps_def)
  then show ?thesis by (intro exI [of _ "l\<lparr>dirtySince := d\<rparr>"]) (simp add: stale_def)
qed

theorem failed_list_goes_stale_witness:
  "\<exists>l'. map_of (providers (fst (tick 0 ''gw-0'' (demo_kube\<lparr>k_list := None\<rparr>) [demo_provider]
       (NewBudgetLedger\<lparr>providers := [(''claude'', demo_ledger)]\<rparr>)))) ''claude'' = Some l' \<and> own l' = [(''team-a'', 5)]"
proof -
  have "k_list (demo_kube\<lparr>k_list := None\<rparr>) = None" by simp
  moreover have "map_of (providers (NewBudgetLedger\<lparr>providers := [(''claude'', demo_ledger)]\<rparr>)) ''claude'' = Some demo_ledger"
    by simp
  ultimately obtain l' where "map_of (providers (fst (tick 0 ''gw-0'' (demo_kube\<lparr>k_list := None\<rparr>) [demo_provider]
       (NewBudgetLedger\<lparr>providers := [(''claude'', demo_ledger)]\<rparr>)))) ''claude'' = Some l'" "own l' = own demo_ledger"
    using failed_list_goes_stale by blast
  then show ?thesis by (auto simp: demo_ledger_def)
qed

text \<open>
  A replica's own write does not disturb its view: refolding a budget ConfigMap after this
  replica's own key, the canonical roll-up or the archive was written gives the same peer view.
\<close>

lemma own_write_refolds:
  assumes "k \<in> {me, CanonicalKey, PreviousKey}"
  shows "FoldPartials (AList.update k raw data) me per u = FoldPartials data me per u"
  using own_update_filter [OF assms, of raw data] FoldPartials_own [of me "AList.update k raw data" per u]
    FoldPartials_own [of me data per u] by metis

lemma own_write_refolds_witness:
  "FoldPartials (AList.update ''gw-0'' None [(''gw-1'', None)]) ''gw-0'' ''2026-03'' ''u1'' =
   FoldPartials [(''gw-1'', None)] ''gw-0'' ''2026-03'' ''u1''"
  by (rule own_write_refolds) simp

text \<open>
  C23. A roll-over strands the write-path signal. When a request crosses into a new period before
  the publisher's tick, while a settle of the old period is still unpublished, the counters are
  reset but the time of that settle is kept. From then on there is nothing to publish, so no
  publish clears it, and the replica reports its write path as stale, for as long as it spends
  nothing itself.
\<close>

theorem rollover_strands_dirty:
  assumes live: "UID p \<notin> superseded b" "map_of (providers b) (Name p) = Some l" "l_uid l = UID p"
    and dirty: "dirtySince l = Some d"
    and over: "l_period l \<noteq> PeriodKey (period_of p) now"
    and enforce: "period_of p \<in> schemes" "Policies (budget_of p) \<noteq> []" "b' = fst (Enforce now p ns b)"
  shows "\<exists>l'. map_of (providers b') (Name p) = Some l' \<and> own l' = [] \<and> dirtySince l' = Some d
    \<and> (\<forall>t pod k listed. publish t pod k p listed b' = (b', []))
    \<and> (\<forall>t w. w < t - d \<longrightarrow> stale t w l')"
proof -
  let ?c = "current now (Name p) (UID p) (period_of p) b"
  have c: "?c = rollover (PeriodKey (period_of p) now) l"
    using live over by (cases rule: current_cases [of "UID p" b now "Name p" "period_of p"]) auto
  have "b' = fst (withLedger now (Name p) (UID p) (period_of p) (\<lambda>l. (l, utilizationLocked (budget_of p) l ns)) b)"
    using enforce by (simp add: Enforce_def Let_def PeriodKey_empty_iff split_def)
  then have st: "map_of (providers b') (Name p) = Some ?c"
    using live(1) by (simp add: reading.stored)
  have "OwnPartial p b' = None"
    using st c live(3) by (simp add: OwnPartial_def boundLedger_def)
  then show ?thesis
    using st c dirty by (auto simp: publish_def stale_def)
qed

theorem rollover_strands_dirty_witness:
  "\<exists>l'. map_of (providers (fst (Enforce 0 demo_provider ''team-a''
       (NewBudgetLedger\<lparr>providers := [(''claude'', demo_ledger\<lparr>dirtySince := Some (- 1)\<rparr>)]\<rparr>)))) ''claude'' = Some l'
    \<and> dirtySince l' = Some (- 1)"
proof -
  let ?l = "demo_ledger\<lparr>dirtySince := Some (- 1)\<rparr>"
  let ?b = "NewBudgetLedger\<lparr>providers := [(''claude'', ?l)]\<rparr>"
  have "PeriodKey ''monthly'' 0 = ''1970-01''" by code_simp
  then have "l_period ?l \<noteq> PeriodKey (period_of demo_provider) 0"
    by (simp add: demo_ledger_def demo_provider_def)
  moreover have "UID demo_provider \<notin> superseded ?b" "map_of (providers ?b) (Name demo_provider) = Some ?l"
    "l_uid ?l = UID demo_provider" "Policies (budget_of demo_provider) \<noteq> []" "Name demo_provider = ''claude''"
    by (simp_all add: NewBudgetLedger_def demo_provider_def demo_ledger_def)
  moreover have "dirtySince ?l = Some (- 1)" by simp
  ultimately show ?thesis
    using rollover_strands_dirty [of demo_provider ?b ?l "- 1" 0 "fst (Enforce 0 demo_provider ''team-a'' ?b)" "''team-a''"]
      demo_active(2) by auto
qed

end
