(* ===== verification/Kube_Status.thy ===== *)
theory Kube_Status
  imports Kaalm_Prelude
begin

text \<open>
  How the reconcilers talk to the Kubernetes API. The API machinery is not part of the
  repository, so its calls are requests: an operation reads the status conditions through a
  lookup \<open>conds\<close> (what \<^verbatim>\<open>apimeta.FindStatusCondition\<close> answers) and returns the list of
  calls it makes and of events it holds, in the order in which it makes them.
\<close>

record condition =
  c_Type :: string
  c_Status :: string
  c_Reason :: string
  c_Message :: string

datatype condCall = SetStatusCondition condition | RemoveStatusCondition string

type_synonym conditions = "string \<Rightarrow> condition option"

record event =
  e_Type :: string
  e_Reason :: string
  e_Action :: string
  e_Note :: string

abbreviation "ConditionTrue \<equiv> ''True''"
abbreviation "ConditionFalse \<equiv> ''False''"
abbreviation "ConditionUnknown \<equiv> ''Unknown''"
abbreviation "EventTypeWarning \<equiv> ''Warning''"
abbreviation "EventTypeNormal \<equiv> ''Normal''"

definition IsStatusConditionTrue :: "conditions \<Rightarrow> string \<Rightarrow> bool" where
  "IsStatusConditionTrue conds t \<longleftrightarrow> (case conds t of None \<Rightarrow> False | Some c \<Rightarrow> c_Status c = ConditionTrue)"

definition IsStatusConditionFalse :: "conditions \<Rightarrow> string \<Rightarrow> bool" where
  "IsStatusConditionFalse conds t \<longleftrightarrow> (case conds t of None \<Rightarrow> False | Some c \<Rightarrow> c_Status c = ConditionFalse)"

text \<open>A condition written with its type, status, reason and message.\<close>

abbreviation setCondition :: "string \<Rightarrow> string \<Rightarrow> string \<Rightarrow> string \<Rightarrow> condCall" where
  "setCondition t s r m \<equiv> SetStatusCondition \<lparr>c_Type = t, c_Status = s, c_Reason = r, c_Message = m\<rparr>"

end
