(* ===== verification/Budget_Reducer.thy ===== *)
theory Budget_Reducer
  imports Budget_Exchange Kube_Status
begin

text \<open>
  The controller side of the spend exchange (\<^verbatim>\<open>src/internal/controller/modelprovider_budget.go\<close>
  and \<^verbatim>\<open>modelprovider_agentspend.go\<close>): the reducer folds the keys of Pods that are gone
  into \<^verbatim>\<open>_retired\<close>, archives the previous period under \<^verbatim>\<open>_previous\<close>, writes the
  roll-up \<^verbatim>\<open>_canonical\<close>, and renders the provider's budget status.

  Both reducers walk their ConfigMap with the same contract, the locale \<open>spend_reducer\<close>: which
  keys may go, and where the spend of a key that goes is kept. Its lemmas show that a pass
  changes no live replica's view of its peers by more than the rounding of the retired figure,
  and that a second pass has nothing left to do.
\<close>

subsection \<open>The walk over the keys\<close>

record spendFold =
  f_data :: "(string, jsontext) gomap"
  f_current :: "(string, usd) gomap"
  f_retired :: "(string, usd) gomap"
  f_changed :: bool
  f_retiredChanged :: bool

record stalePartial =
  sp_period :: string
  sp_spend :: "(string, usd) gomap"

record budgetFold = spendFold +
  f_stale :: "(string, stalePartial) gomap"
  f_marginRaised :: bool

text \<open>\<open>delete(cm.Data, k)\<close> with \<open>changed = true\<close>.\<close>

definition drop_key :: "string \<Rightarrow> 'a spendFold_scheme \<Rightarrow> 'a spendFold_scheme" where
  "drop_key k f = f\<lparr>f_data := AList.delete k (f_data f), f_changed := True\<rparr>"

definition archive_key :: "string \<Rightarrow> partialView \<Rightarrow> budgetFold \<Rightarrow> budgetFold" where
  "archive_key source r f =
     f\<lparr>f_stale := AList.update source \<lparr>sp_period = pv_period r, sp_spend = pv_spend r\<rparr> (f_stale f)\<rparr>"

definition foreign :: "string \<Rightarrow> partialView option \<Rightarrow> bool" where
  "foreign providerUID p \<longleftrightarrow>
     (case p of None \<Rightarrow> False | Some r \<Rightarrow> pv_providerUID r \<noteq> [] \<and> pv_providerUID r \<noteq> providerUID)"

definition fold_budget_key ::
  "string set \<Rightarrow> string \<Rightarrow> string \<Rightarrow> string \<times> jsontext \<Rightarrow> budgetFold \<Rightarrow> budgetFold" where
  "fold_budget_key live currentPeriod providerUID e f =
     (let k = fst e; p = ParseBudgetPartial (snd e)
      in if k = CanonicalKey \<or> k = PreviousKey then f
         else if foreign providerUID p then drop_key k f
         else if k = RetiredKey then
           (case p of
              None \<Rightarrow> f
            | Some r \<Rightarrow>
                if pv_period r = currentPeriod then f\<lparr>f_retired := gsum_into (pv_spend r) (f_retired f)\<rparr>
                else drop_key k (archive_key k r f))
         else if k \<notin> live then
           drop_key k
             (case p of
                None \<Rightarrow> f
              | Some r \<Rightarrow>
                  if pv_period r = currentPeriod then
                    f\<lparr>f_retired := gsum_into (pv_spend r) (f_retired f), f_retiredChanged := True\<rparr>
                  else archive_key k r f)
         else case p of
             None \<Rightarrow> f
           | Some r \<Rightarrow>
               if pv_period r = currentPeriod then
                 (let f = f\<lparr>f_current := gsum_into (pv_spend r) (f_current f)\<rparr>
                  in if pv_marginExceeded r then f\<lparr>f_marginRaised := True\<rparr> else f)
               else drop_key k (archive_key k r f))"

definition foldBudgetKeys :: "(string, jsontext) gomap \<Rightarrow> string set \<Rightarrow> string \<Rightarrow> string \<Rightarrow> budgetFold" where
  "foldBudgetKeys data live currentPeriod providerUID =
     fold (fold_budget_key live currentPeriod providerUID) data
       \<lparr>f_data = data, f_current = [], f_retired = [], f_changed = False, f_retiredChanged = False,
        f_stale = [], f_marginRaised = False\<rparr>"

text \<open>
  The loop of \<^verbatim>\<open>reconcileAgentSpend\<close>: it keeps the current period only, and drops a
  \<^verbatim>\<open>_retired\<close> entry it cannot read.
\<close>

definition fold_workload_key ::
  "string set \<Rightarrow> string \<Rightarrow> string \<Rightarrow> string \<times> jsontext \<Rightarrow> spendFold \<Rightarrow> spendFold" where
  "fold_workload_key live currentPeriod providerUID e f =
     (let k = fst e; p = ParseBudgetPartial (snd e)
      in if k = CanonicalKey then f
         else if foreign providerUID p then drop_key k f
         else if k = RetiredKey then
           (case p of
              None \<Rightarrow> drop_key k f
            | Some r \<Rightarrow>
                if pv_period r = currentPeriod then f\<lparr>f_retired := gsum_into (pv_spend r) (f_retired f)\<rparr>
                else drop_key k f)
         else if k \<notin> live then
           drop_key k
             (case p of
                None \<Rightarrow> f
              | Some r \<Rightarrow>
                  if pv_period r = currentPeriod then
                    f\<lparr>f_retired := gsum_into (pv_spend r) (f_retired f), f_retiredChanged := True\<rparr>
                  else f)
         else case p of
             None \<Rightarrow> f
           | Some r \<Rightarrow>
               if pv_period r = currentPeriod then f\<lparr>f_current := gsum_into (pv_spend r) (f_current f)\<rparr>
               else drop_key k f)"

text \<open>What both reducers do with the walk's result: write \<^verbatim>\<open>_retired\<close> and \<^verbatim>\<open>_canonical\<close>.\<close>

definition write_retired :: "string \<Rightarrow> string \<Rightarrow> 'a spendFold_scheme \<Rightarrow> (string, jsontext) gomap" where
  "write_retired currentPeriod providerUID f =
     (if f_retiredChanged f
      then AList.update RetiredKey (marshal_partial (RetiredPartial currentPeriod (f_retired f) providerUID)) (f_data f)
      else f_data f)"

definition canonical_of :: "(string, usd) gomap \<Rightarrow> jsontext" where
  "canonical_of spend =
     marshal_strings (fold (\<lambda>(ns, v) out. AList.update ns (FormatFloat2 v) out) spend [])"

definition write_canonical :: "(string, usd) gomap \<Rightarrow> (string, jsontext) gomap \<Rightarrow> (string, jsontext) gomap \<times> bool" where
  "write_canonical spend data =
     (if map_of data CanonicalKey \<noteq> Some (canonical_of spend)
      then (AList.update CanonicalKey (canonical_of spend) data, True) else (data, False))"

definition ensureSpendLabel :: "configMap \<Rightarrow> string \<Rightarrow> configMap \<times> bool" where
  "ensureSpendLabel cm value =
     (if gstring (cm_Labels cm) SpendConfigMapLabel = value then (cm, False)
      else (cm\<lparr>cm_Labels := AList.update SpendConfigMapLabel value (cm_Labels cm)\<rparr>, True))"

subsection \<open>The archive of the previous period\<close>

record budgetArchive =
  ba_Period :: string
  ba_ArchivedIn :: string
  ba_ProviderUID :: string
  ba_Sources :: "(string, (string, string) gomap) gomap"

text \<open>
  \<^verbatim>\<open>json.Marshal\<close> and \<^verbatim>\<open>json.Unmarshal\<close> of the struct. The decoder matches member
  names without regard to case, leaves a string unchanged on null, sets a map to nil on null,
  and reports any other mismatch as an error; the second component says that
  \<^verbatim>\<open>Sources\<close> is not nil.
\<close>

definition marshal_archive :: "budgetArchive \<Rightarrow> jsontext" where
  "marshal_archive a = Some (JObject (
     [(''period'', JString (ba_Period a)), (''archivedIn'', JString (ba_ArchivedIn a))]
     @ (if ba_ProviderUID a = [] then [] else [(''providerUID'', JString (ba_ProviderUID a))])
     @ [(''sources'', JObject (map (\<lambda>(s, m). (s, JObject (map (\<lambda>(k, v). (k, JString v)) (sort_key fst m))))
          (sort_key fst (ba_Sources a))))]))"

fun unmarshal_sources ::
  "(string \<times> json) list \<Rightarrow> (string, (string, string) gomap) gomap \<Rightarrow> (string, (string, string) gomap) gomap option" where
  "unmarshal_sources [] m = Some m"
| "unmarshal_sources ((k, j) # js) m =
     (case unmarshal_strings (Some j) of None \<Rightarrow> None | Some inner \<Rightarrow> unmarshal_sources js (AList.update k inner m))"

fun string_into :: "json \<Rightarrow> string \<Rightarrow> string option" where
  "string_into (JString s) old = Some s"
| "string_into JNull old = Some old"
| "string_into _ old = None"

definition archive_member :: "string \<times> json \<Rightarrow> budgetArchive \<times> bool \<Rightarrow> (budgetArchive \<times> bool) option" where
  "archive_member = (\<lambda>(k, j) (a, has).
     if EqualFold k ''period'' then map_option (\<lambda>s. (a\<lparr>ba_Period := s\<rparr>, has)) (string_into j (ba_Period a))
     else if EqualFold k ''archivedIn'' then map_option (\<lambda>s. (a\<lparr>ba_ArchivedIn := s\<rparr>, has)) (string_into j (ba_ArchivedIn a))
     else if EqualFold k ''providerUID'' then map_option (\<lambda>s. (a\<lparr>ba_ProviderUID := s\<rparr>, has)) (string_into j (ba_ProviderUID a))
     else if EqualFold k ''sources'' then
       (case j of
          JNull \<Rightarrow> Some (a\<lparr>ba_Sources := []\<rparr>, False)
        | JObject js \<Rightarrow> map_option (\<lambda>m. (a\<lparr>ba_Sources := m\<rparr>, True)) (unmarshal_sources js (ba_Sources a))
        | _ \<Rightarrow> None)
     else Some (a, has))"

fun archive_members :: "(string \<times> json) list \<Rightarrow> budgetArchive \<times> bool \<Rightarrow> (budgetArchive \<times> bool) option" where
  "archive_members [] s = Some s"
| "archive_members (e # es) s = (case archive_member e s of None \<Rightarrow> None | Some s \<Rightarrow> archive_members es s)"

definition parseBudgetArchive :: "jsontext option \<Rightarrow> budgetArchive option" where
  "parseBudgetArchive raw =
     (case raw of
        Some (Some (JObject es)) \<Rightarrow>
          (case archive_members es (\<lparr>ba_Period = [], ba_ArchivedIn = [], ba_ProviderUID = [], ba_Sources = []\<rparr>, False) of
             None \<Rightarrow> None
           | Some (a, has) \<Rightarrow> if ba_Period a = [] \<or> \<not> has then None else Some a)
      | _ \<Rightarrow> None)"

definition totals :: "budgetArchive \<Rightarrow> (string, usd) gomap" where
  "totals a =
     fold (\<lambda>(source, spend) out.
       fold (\<lambda>(ns, v) out. case ParseFloat v of None \<Rightarrow> out | Some f \<Rightarrow> gadd ns f out) spend out)
     (ba_Sources a) []"

definition merge_ns :: "string \<times> usd \<Rightarrow> (string, string) gomap \<times> bool \<Rightarrow> (string, string) gomap \<times> bool" where
  "merge_ns = (\<lambda>(ns, v) (dst, changed).
     case Option.bind (map_of dst ns) ParseFloat of
       Some old \<Rightarrow> if old \<ge> v then (dst, changed) else (AList.update ns (FormatFloat2 v) dst, True)
     | None \<Rightarrow> (AList.update ns (FormatFloat2 v) dst, True))"

definition merge_source :: "string \<times> stalePartial \<Rightarrow> budgetArchive \<times> bool \<Rightarrow> budgetArchive \<times> bool" where
  "merge_source = (\<lambda>(source, sp) (archive, changed).
     if sp_period sp \<noteq> ba_Period archive then (archive, changed)
     else let dst = (case map_of (ba_Sources archive) source of None \<Rightarrow> [] | Some d \<Rightarrow> d);
              (dst, changed) = fold merge_ns (sp_spend sp) (dst, changed)
          in (archive\<lparr>ba_Sources := AList.update source dst (ba_Sources archive)\<rparr>, changed))"

definition newest_period :: "(string, stalePartial) gomap \<Rightarrow> string" where
  "newest_period stales = fold (\<lambda>(_, sp) newest. if sp_period sp > newest then sp_period sp else newest) stales []"

definition mergeBudgetArchive ::
  "budgetArchive option \<Rightarrow> (string, stalePartial) gomap \<Rightarrow> string \<Rightarrow> string \<Rightarrow> budgetArchive option \<times> bool" where
  "mergeBudgetArchive stored stales currentPeriod providerUID =
     (let (archive, changed) =
            (case stored of
               None \<Rightarrow> (None, False)
             | Some a \<Rightarrow>
                 if ba_ArchivedIn a \<noteq> currentPeriod \<or> (ba_ProviderUID a \<noteq> [] \<and> ba_ProviderUID a \<noteq> providerUID)
                 then (None, True) else (Some a, False));
          newest = newest_period stales;
          (archive, changed) =
            (if newest \<noteq> [] \<and> (case archive of None \<Rightarrow> True | Some a \<Rightarrow> newest > ba_Period a)
             then (Some \<lparr>ba_Period = newest, ba_ArchivedIn = currentPeriod, ba_ProviderUID = providerUID, ba_Sources = []\<rparr>, True)
             else (archive, changed))
      in case archive of
           None \<Rightarrow> (None, changed)
         | Some a \<Rightarrow> (let (a, changed) = fold merge_source stales (a, changed) in (Some a, changed)))"

subsection \<open>The budget status\<close>

record ModelProviderBudgetUsage =
  u_Namespace :: string
  u_Period :: string
  u_SpentUSD :: string
  u_PercentUsed :: int
  u_State :: string

definition BudgetStateNormal :: string where "BudgetStateNormal = ''Normal''"
definition BudgetStateThrottled :: string where "BudgetStateThrottled = ''Throttled''"
definition BudgetStateBlocked :: string where "BudgetStateBlocked = ''Blocked''"

definition budget_state :: "ModelProviderBudget \<Rightarrow> rat \<Rightarrow> string" where
  "budget_state budget percent =
     (case BudgetPolicyAt budget percent of
        None \<Rightarrow> BudgetStateNormal
      | Some p \<Rightarrow>
          if Action p = BudgetActionBlock then BudgetStateBlocked
          else if Action p = BudgetActionDegrade then BudgetStateThrottled
          else BudgetStateNormal)"

text \<open>
  The conversion of a \<^verbatim>\<open>float64\<close> to \<^verbatim>\<open>int32\<close>: truncation, and the least
  \<^verbatim>\<open>int32\<close> for a value out of range, as the amd64 instruction gives it (the language leaves
  that case to the implementation).
\<close>

definition to_int32 :: "rat \<Rightarrow> int" where
  "to_int32 x = (let n = trunc x in if - (2 ^ 31) \<le> n \<and> n < 2 ^ 31 then n else - (2 ^ 31))"

definition budgetUsageEntries ::
  "ModelProvider \<Rightarrow> (string, usd) gomap \<Rightarrow> string \<Rightarrow> ModelProviderBudgetUsage list" where
  "budgetUsageEntries mp spend period =
     (let clSpent = gtotal spend
      in map (\<lambda>ns.
           let percent = BudgetUtilization (budget_of mp) (gnum spend ns) clSpent
           in \<lparr>u_Namespace = ns, u_Period = period, u_SpentUSD = FormatFloat2 (gnum spend ns),
               u_PercentUsed = to_int32 percent, u_State = budget_state (budget_of mp) percent\<rparr>)
         (sort (map fst spend)))"

definition previousUsageEntries ::
  "ModelProvider \<Rightarrow> (string, usd) gomap \<Rightarrow> string \<Rightarrow> ModelProviderBudgetUsage list" where
  "previousUsageEntries mp spend period =
     map (\<lambda>e. e\<lparr>u_State := BudgetStateNormal\<rparr>) (budgetUsageEntries mp spend period)"

definition ConditionBoundaryMarginRaised :: string where
  "ConditionBoundaryMarginRaised = ''BoundaryMarginRaised''"

definition setBoundaryMargin :: "conditions \<Rightarrow> bool \<Rightarrow> condCall list \<times> event list" where
  "setBoundaryMargin conds raised =
     (let was = IsStatusConditionTrue conds ConditionBoundaryMarginRaised
      in if raised then
           ([setCondition ConditionBoundaryMarginRaised ConditionTrue ''ObservedTrafficExceededMargin''
              (''a gateway replica widened the effective boundary margin beyond '' @
               ''budget.hard.boundaryMarginPercent to uphold the hard-enforcement guarantee'')],
            if was then [] else
              [\<lparr>e_Type = EventTypeWarning, e_Reason = ''ObservedTrafficExceededMargin'', e_Action = ''CheckBudget'',
                e_Note = ''observed traffic exceeded the configured boundary margin; size the knob from the overspend-bound formula''\<rparr>])
         else if was \<or> conds ConditionBoundaryMarginRaised \<noteq> None then
           ([setCondition ConditionBoundaryMarginRaised ConditionFalse ''MarginSufficient'' []], [])
         else ([], []))"

text \<open>
  The canonical gauge: the calls on its series. A series is named by its namespace and period;
  \<open>collected\<close> is what the gauge holds for the provider after the sets.
\<close>

datatype gaugeCall = GaugeSet string string usd | GaugeDelete string string | GaugeDropProvider

definition setBudgetCanonical :: "(string \<times> string) list \<Rightarrow> string \<Rightarrow> (string, usd) gomap \<Rightarrow> gaugeCall list" where
  "setBudgetCanonical collected period spend =
     map (\<lambda>(ns, v). GaugeSet ns period v) spend
     @ map (\<lambda>(ns, per). GaugeDelete ns per)
         (filter (\<lambda>(ns, per). per \<noteq> period \<or> map_of spend ns = None) collected)"

subsection \<open>One pass\<close>

record budgetPass =
  p_failed :: bool
  p_update :: "configMap option"
  p_conds :: "condCall list"
  p_events :: "event list"
  p_usage :: "ModelProviderBudgetUsage list"
  p_clusterSpentUSD :: string
  p_gauge :: "gaugeCall list"

text \<open>The pass starts from the stored status, which an early return leaves as it is.\<close>

definition start_pass :: "ModelProviderBudgetUsage list \<Rightarrow> string \<Rightarrow> budgetPass" where
  "start_pass usage cluster =
     \<lparr>p_failed = False, p_update = None, p_conds = [], p_events = [], p_usage = usage,
      p_clusterSpentUSD = cluster, p_gauge = []\<rparr>"

definition clearBudgetStatus :: "budgetPass \<Rightarrow> budgetPass" where
  "clearBudgetStatus p =
     p\<lparr>p_usage := [], p_clusterSpentUSD := [],
       p_conds := p_conds p @ [RemoveStatusCondition ConditionBoundaryMarginRaised],
       p_gauge := p_gauge p @ [GaugeDropProvider]\<rparr>"

text \<open>
  The ConfigMap after a pass and whether the pass changed it, with the current period's spend
  and the archive, which the status is rendered from.
\<close>

definition write_archive ::
  "(string, stalePartial) gomap \<Rightarrow> string \<Rightarrow> string \<Rightarrow> (string, jsontext) gomap
    \<Rightarrow> (string, jsontext) gomap \<times> bool \<times> budgetArchive option" where
  "write_archive stales currentPeriod providerUID data =
     (let rawArchive = map_of data PreviousKey;
          stored = parseBudgetArchive rawArchive;
          (archive, archiveChanged) = mergeBudgetArchive stored stales currentPeriod providerUID
      in if archiveChanged \<or> (rawArchive \<noteq> None \<and> stored = None) then
           ((case archive of
               None \<Rightarrow> AList.delete PreviousKey data
             | Some a \<Rightarrow> AList.update PreviousKey (marshal_archive a) data), True, archive)
         else (data, False, archive))"

definition reduceBudget ::
  "configMap \<Rightarrow> string set \<Rightarrow> string \<Rightarrow> string
    \<Rightarrow> configMap \<times> bool \<times> (string, usd) gomap \<times> budgetArchive option \<times> bool" where
  "reduceBudget cm live currentPeriod providerUID =
     (let (cm, labeled) = ensureSpendLabel cm SpendLabelBudget;
          f = foldBudgetKeys (cm_Data cm) live currentPeriod providerUID;
          spend = gsum_into (f_retired f) (f_current f);
          data = write_retired currentPeriod providerUID f;
          (data, canonicalChanged) = write_canonical spend data;
          (data, archiveChanged, archive) = write_archive (f_stale f) currentPeriod providerUID data
      in (cm\<lparr>cm_Data := data\<rparr>,
          f_changed f \<or> labeled \<or> f_retiredChanged f \<or> canonicalChanged \<or> archiveChanged,
          spend, archive, f_marginRaised f))"

definition reconcileBudget ::
  "gotime \<Rightarrow> ModelProvider \<Rightarrow> string set \<Rightarrow> (string \<Rightarrow> getResult) \<Rightarrow> (configMap \<Rightarrow> bool) \<Rightarrow> conditions
    \<Rightarrow> (string \<times> string) list \<Rightarrow> budgetPass \<Rightarrow> budgetPass" where
  "reconcileBudget now mp live getCM updateCM conds collected p =
     (let currentPeriod = PeriodKey (period_of mp) now
      in if currentPeriod = [] then clearBudgetStatus p
         else case getCM (BudgetConfigMapName (Name mp)) of
             NotFound \<Rightarrow> clearBudgetStatus p
           | GetFailed \<Rightarrow> p\<lparr>p_failed := True\<rparr>
           | Found cm \<Rightarrow>
               (let (cm', changed, spend, archive, marginRaised) = reduceBudget cm live currentPeriod (UID mp);
                    (calls, events) = setBoundaryMargin conds marginRaised;
                    p = p\<lparr>p_conds := p_conds p @ calls, p_events := p_events p @ events\<rparr>;
                    p = (if changed then p\<lparr>p_update := Some cm'\<rparr> else p)
                in if changed \<and> \<not> updateCM cm' then p\<lparr>p_failed := True\<rparr>
                   else p\<lparr>p_usage := budgetUsageEntries mp spend currentPeriod
                            @ (case archive of None \<Rightarrow> [] | Some a \<Rightarrow> previousUsageEntries mp (totals a) (ba_Period a)),
                          p_clusterSpentUSD := FormatFloat2 (gtotal spend),
                          p_gauge := p_gauge p @ setBudgetCanonical collected currentPeriod spend\<rparr>))"

definition reduceAgentSpend :: "configMap \<Rightarrow> string set \<Rightarrow> string \<Rightarrow> string \<Rightarrow> configMap \<times> bool" where
  "reduceAgentSpend cm live currentPeriod providerUID =
     (let (cm, labeled) = ensureSpendLabel cm SpendLabelAgentSpend;
          f = fold (fold_workload_key live currentPeriod providerUID) (cm_Data cm)
                \<lparr>f_data = cm_Data cm, f_current = [], f_retired = [], f_changed = labeled, f_retiredChanged = False\<rparr>;
          data = write_retired currentPeriod providerUID f;
          (data, canonicalChanged) = write_canonical (gsum_into (f_retired f) (f_current f)) data
      in (cm\<lparr>cm_Data := data\<rparr>, f_changed f \<or> f_retiredChanged f \<or> canonicalChanged))"

text \<open>The pass over the workload breakdown: the Update sent, if any, and whether it failed.\<close>

definition reconcileAgentSpend ::
  "gotime \<Rightarrow> ModelProvider \<Rightarrow> string set \<Rightarrow> (string \<Rightarrow> getResult) \<Rightarrow> (configMap \<Rightarrow> bool) \<Rightarrow> configMap option \<times> bool" where
  "reconcileAgentSpend now mp live getCM updateCM =
     (let currentPeriod = PeriodKey (period_of mp) now
      in if currentPeriod = [] then (None, False)
         else case getCM (AgentSpendConfigMapName (Name mp)) of
             NotFound \<Rightarrow> (None, False)
           | GetFailed \<Rightarrow> (None, True)
           | Found cm \<Rightarrow>
               (let (cm', changed) = reduceAgentSpend cm live currentPeriod (UID mp)
                in if changed then (Some cm', \<not> updateCM cm') else (None, False)))"

definition budgetRequeue :: "gotime \<Rightarrow> ModelProvider \<Rightarrow> duration \<Rightarrow> duration" where
  "budgetRequeue now mp requeueAfter =
     (if requeueAfter \<noteq> 0 \<or> PeriodKey (period_of mp) now = [] then requeueAfter else minute)"

subsection \<open>The contract of both walks\<close>

text \<open>What an entry's value counts for the current period, and when it counts at all.\<close>

definition counts :: "string \<Rightarrow> string \<Rightarrow> jsontext \<Rightarrow> bool" where
  "counts per u raw \<longleftrightarrow>
     (case ParseBudgetPartial raw of None \<Rightarrow> False | Some r \<Rightarrow> pv_period r = per \<and> pv_providerUID r \<in> {[], u})"

definition spendOf :: "string \<Rightarrow> string \<Rightarrow> jsontext \<Rightarrow> (string, usd) gomap" where
  "spendOf per u raw =
     (case ParseBudgetPartial raw of
        None \<Rightarrow> []
      | Some r \<Rightarrow> if pv_period r = per \<and> pv_providerUID r \<in> {[], u} then pv_spend r else [])"

lemma counted_spendOf:
  "counted me per u e = (if fst e \<in> {me, CanonicalKey, PreviousKey} then [] else spendOf per u (snd e))"
  by (auto simp: counted_def spendOf_def split: option.splits)

lemma spendOf_not_counts: "\<not> counts per u raw \<Longrightarrow> spendOf per u raw = []"
  by (auto simp: counts_def spendOf_def split: option.splits)

lemma spendOf_distinct: "distinct (map fst (spendOf per u raw))"
  by (auto simp: spendOf_def intro: ParseBudgetPartial_distinct split: option.splits)

lemma parse_field_pv_spend: "pv_spend (parse_field (k, v) r) = (if spend_field k
    then (case ParseFloat v of None \<Rightarrow> pv_spend r | Some f \<Rightarrow> AList.update k f (pv_spend r)) else pv_spend r)"
  by (simp add: spend_field_def split: option.split)

lemma parse_field_keys:
  "fst ` set (pv_spend r) \<subseteq> Collect spend_field \<Longrightarrow>
   fst ` set (pv_spend (fold parse_field flat r)) \<subseteq> Collect spend_field"
proof (induction flat arbitrary: r)
  case Nil
  then show ?case by simp
next
  case (Cons e flat)
  obtain k v where e: "e = (k, v)" by (cases e)
  have "fst ` set (pv_spend (parse_field e r)) \<subseteq> Collect spend_field"
    unfolding e parse_field_pv_spend
    using Cons.prems by (cases "ParseFloat v") (simp_all add: dom_update del: image_subset_iff)
  then show ?case using Cons.IH by simp
qed

lemma ParseBudgetPartial_fields:
  "ParseBudgetPartial raw = Some r \<Longrightarrow> k \<in> fst ` set (pv_spend r) \<Longrightarrow> spend_field k"
  using parse_field_keys [of empty_view] by (auto simp: ParseBudgetPartial_def empty_view_def split: option.splits)

lemma spendOf_fields: "k \<in> fst ` set (spendOf per u raw) \<Longrightarrow> spend_field k"
proof (cases "ParseBudgetPartial raw")
  case (Some r)
  then show "k \<in> fst ` set (spendOf per u raw) \<Longrightarrow> spend_field k"
    using ParseBudgetPartial_fields [OF Some, of k] by (auto simp: spendOf_def split: if_splits)
qed (simp add: spendOf_def)

text \<open>A map of spend whose amounts the format can carry.\<close>

definition fits :: "(string, usd) gomap \<Rightarrow> bool" where
  "fits m \<longleftrightarrow> (\<forall>(k, v) \<in> set m. \<bar>to_cents v\<bar> < float_overflow)"

lemma keys_fold_gsum_into:
  "fst ` set (fold (\<lambda>e. gsum_into (g e)) es d) = fst ` set d \<union> (\<Union>e \<in> set es. fst ` set (g e))"
  by (induction es arbitrary: d) (auto simp: dom_gsum_into)

lemma map_of_gnum: "map_of m k = (if k \<in> fst ` set m then Some (gnum m k) else None)"
  by (auto simp: gnum_def map_of_eq_None_iff split: option.splits)

text \<open>What a fold reads back from the \<^verbatim>\<open>_retired\<close> entry a reducer wrote.\<close>

lemma retired_reads_back:
  assumes "distinct (map fst m)" "\<forall>k \<in> fst ` set m. spend_field k" "fits m"
  shows "counts per u (marshal_partial (RetiredPartial per m u))"
    and "map_of (spendOf per u (marshal_partial (RetiredPartial per m u))) = (\<lambda>k. map_option to_cents (map_of m k))"
proof -
  have "encodable m" using assms by (fastforce simp: encodable_def fits_def)
  then obtain r where "ParseBudgetPartial (marshal_partial (RetiredPartial per m u)) = Some r"
    "pv_period r = per" "pv_providerUID r = u" "\<forall>k. map_of (pv_spend r) k = map_option to_cents (map_of m k)"
    using parse_marshal_spend [of m per False u] by (auto simp: RetiredPartial_def)
  then show "counts per u (marshal_partial (RetiredPartial per m u))"
    and "map_of (spendOf per u (marshal_partial (RetiredPartial per m u))) = (\<lambda>k. map_option to_cents (map_of m k))"
    by (simp_all add: counts_def spendOf_def fun_eq_iff)
qed

lemma retired_num:
  assumes "distinct (map fst m)" "\<forall>k \<in> fst ` set m. spend_field k" "fits m"
  shows "gnum (spendOf per u (marshal_partial (RetiredPartial per m u))) ns = to_cents (gnum m ns)"
  using retired_reads_back(2) [OF assms, of per u] by (simp add: gnum_def fun_eq_iff split: option.splits)

lemma sum_list_update:
  "distinct (map fst m) \<Longrightarrow>
   sum_list (map g (AList.update k v m)) = sum_list (map g (filter (\<lambda>e. fst e \<noteq> k) m)) + (g (k, v) :: rat)"
proof (induction m)
  case Nil
  then show ?case by simp
next
  case (Cons e m)
  have "filter (\<lambda>e'. fst e' \<noteq> fst e) m = m"
    using Cons.prems by (metis (mono_tags, lifting) distinct.simps(2) filter_True image_eqI list.simps(9) set_map)
  with Cons show ?case by (cases e) auto
qed

lemma UN_drop: "\<forall>x \<in> A. x \<notin> B \<longrightarrow> K x = {} \<Longrightarrow> B \<subseteq> A \<Longrightarrow> (\<Union>x \<in> B. K x) = (\<Union>x \<in> A. K x)"
  by blast

lemma set_update_subset: "set (AList.update k v m) \<subseteq> insert (k, v) (set m)"
  by (induction m) auto

lemma set_update_other: "distinct (map fst m) \<Longrightarrow> set (AList.update k v m) = insert (k, v) {e \<in> set m. fst e \<noteq> k}"
proof (induction m)
  case Nil
  then show ?case by simp
next
  case (Cons e m)
  then show ?case by (cases e) (auto simp: image_iff)
qed

lemma whole_cents_sum: "\<forall>x \<in> set xs. whole_cents (g x) \<Longrightarrow> whole_cents (\<Sum>x\<leftarrow>xs. g x)"
  by (induction xs) auto

text \<open>
  A walk drops entries; the spend of a dropped entry that counts is added to the retired view,
  and the flag that rewrites \<^verbatim>\<open>_retired\<close> is set. \<open>skips\<close> are the keys it passes over.
\<close>

locale spend_reducer =
  fixes stepK :: "string \<times> jsontext \<Rightarrow> 'a spendFold_scheme \<Rightarrow> 'a spendFold_scheme"
    and skips :: "string set" and live :: "string set" and per u :: string
    and drops :: "string \<times> jsontext \<Rightarrow> bool"
  assumes skips_law: "skips \<subseteq> {CanonicalKey, PreviousKey}" "CanonicalKey \<in> skips"
    and data_law: "f_data (stepK e f) = (if drops e then AList.delete (fst e) (f_data f) else f_data f)"
    and changed_law: "f_changed (stepK e f) \<longleftrightarrow> f_changed f \<or> drops e"
    and current_law: "f_current (stepK e f) =
      (if fst e \<in> live \<and> fst e \<notin> insert RetiredKey skips then gsum_into (spendOf per u (snd e)) (f_current f)
       else f_current f)"
    and retired_law: "f_retired (stepK e f) =
      (if fst e \<notin> skips \<and> (fst e = RetiredKey \<or> fst e \<notin> live) then gsum_into (spendOf per u (snd e)) (f_retired f)
       else f_retired f)"
    and flag_law: "f_retiredChanged (stepK e f) \<longleftrightarrow>
      f_retiredChanged f \<or> (fst e \<notin> skips \<and> fst e \<noteq> RetiredKey \<and> fst e \<notin> live \<and> counts per u (snd e))"
    and keeps_law: "drops e \<Longrightarrow> fst e \<notin> skips" "drops e \<Longrightarrow> fst e \<in> insert RetiredKey live \<Longrightarrow> \<not> counts per u (snd e)"
    and gone_law: "fst e \<notin> skips \<union> insert RetiredKey live \<Longrightarrow> drops e"
begin

lemma fold_data: "f_data (fold stepK es f) =
  filter (\<lambda>x. \<not> (\<exists>e \<in> set es. drops e \<and> fst e = fst x)) (f_data f)"
proof (induction es arbitrary: f)
  case Nil
  then show ?case by simp
next
  case (Cons e es)
  then show ?case by (auto simp: data_law AList.delete_eq intro!: filter_cong)
qed

lemma walk_data:
  assumes "distinct (map fst es)" "f_data f = es"
  shows "f_data (fold stepK es f) = filter (\<lambda>e. \<not> drops e) es"
proof -
  have "(\<exists>e \<in> set es. drops e \<and> fst e = fst x) \<longleftrightarrow> drops x" if "x \<in> set es" for x
    using that assms(1) by (metis (no_types, lifting) distinct_map inj_onD)
  then show ?thesis by (auto simp: fold_data assms(2) intro!: filter_cong)
qed

lemma walk_changed: "f_changed (fold stepK es f) \<longleftrightarrow> f_changed f \<or> (\<exists>e \<in> set es. drops e)"
  by (induction es arbitrary: f) (auto simp: changed_law)

lemma walk_flag: "f_retiredChanged (fold stepK es f) \<longleftrightarrow> f_retiredChanged f \<or>
  (\<exists>e \<in> set es. fst e \<notin> skips \<and> fst e \<noteq> RetiredKey \<and> fst e \<notin> live \<and> counts per u (snd e))"
  by (induction es arbitrary: f) (auto simp: flag_law)

abbreviation "is_current e \<equiv> fst e \<in> live \<and> fst e \<notin> insert RetiredKey skips"
abbreviation "is_retired e \<equiv> fst e \<notin> skips \<and> (fst e = RetiredKey \<or> fst e \<notin> live)"

lemma walk_current: "f_current (fold stepK es f) =
  fold (\<lambda>e. gsum_into (if is_current e then spendOf per u (snd e) else [])) es (f_current f)"
  by (induction es arbitrary: f) (simp_all add: current_law)

lemma walk_retired: "f_retired (fold stepK es f) =
  fold (\<lambda>e. gsum_into (if is_retired e then spendOf per u (snd e) else [])) es (f_retired f)"
  by (induction es arbitrary: f) (simp_all add: retired_law)

lemma walk_current_num: "gnum (f_current (fold stepK es f)) ns =
  gnum (f_current f) ns + (\<Sum>e\<leftarrow>es. if is_current e then gnum (spendOf per u (snd e)) ns else 0)"
  unfolding walk_current by (subst gnum_fold_gsum_into) (auto simp: spendOf_distinct intro!: arg_cong [where f = sum_list])

lemma walk_retired_num: "gnum (f_retired (fold stepK es f)) ns =
  gnum (f_retired f) ns + (\<Sum>e\<leftarrow>es. if is_retired e then gnum (spendOf per u (snd e)) ns else 0)"
  unfolding walk_retired by (subst gnum_fold_gsum_into) (auto simp: spendOf_distinct intro!: arg_cong [where f = sum_list])

lemma walk_retired_keys:
  "f_retired f = [] \<Longrightarrow> distinct (map fst (f_retired (fold stepK es f)))
    \<and> (\<forall>k \<in> fst ` set (f_retired (fold stepK es f)). spend_field k)"
  unfolding walk_retired keys_fold_gsum_into
proof (intro conjI distinct_fold_gsum_into ballI)
  fix k
  assume "f_retired f = []"
    and "k \<in> fst ` set (f_retired f) \<union> (\<Union>e \<in> set es. fst ` set (if is_retired e then spendOf per u (snd e) else []))"
  then obtain e where "k \<in> fst ` set (spendOf per u (snd e))" by (force split: if_splits)
  then show "spend_field k" by (rule spendOf_fields)
qed simp

lemma split_entry:
  assumes "me \<in> live" "me \<notin> insert RetiredKey skips" "fst e = PreviousKey \<Longrightarrow> PreviousKey \<in> skips"
  shows "gnum (counted me per u e) ns =
    (if drops e \<or> fst e = RetiredKey then 0 else gnum (counted me per u e) ns)
    + (if is_retired e then gnum (spendOf per u (snd e)) ns else 0)"
proof -
  have ne: "RetiredKey \<notin> {CanonicalKey, PreviousKey}" by (simp add: reserved_keys)
  consider "fst e \<in> skips" | "fst e = RetiredKey" | "fst e \<in> live" "fst e \<notin> insert RetiredKey skips"
    | "fst e \<notin> live" "fst e \<notin> insert RetiredKey skips" by blast
  then show ?thesis
  proof cases
    case 1
    then have "fst e \<in> {CanonicalKey, PreviousKey}" using skips_law by blast
    then show ?thesis using 1 by (simp add: counted_spendOf)
  next
    case 2
    then show ?thesis using ne assms(2) skips_law by (auto simp: counted_spendOf)
  next
    case 3
    then have "drops e \<Longrightarrow> spendOf per u (snd e) = []"
      using keeps_law(2) spendOf_not_counts by blast
    then show ?thesis using 3 by (auto simp: counted_spendOf)
  next
    case 4
    then have "drops e" "fst e \<notin> {me, CanonicalKey, PreviousKey}"
      using gone_law assms skips_law by auto
    then show ?thesis using 4 by (auto simp: counted_spendOf)
  qed
qed

lemma view_kept:
  assumes me: "me \<in> live" "me \<notin> {RetiredKey, CanonicalKey, PreviousKey}"
    and es: "distinct (map fst es)" "PreviousKey \<in> fst ` set es \<longrightarrow> PreviousKey \<in> skips"
    and f: "f_data f = es" "f_retired f = []" "f_retiredChanged f = False" "fits (f_retired (fold stepK es f))"
  shows "gnum (FoldPartials (write_retired per u (fold stepK es f)) me per u) ns - gnum (FoldPartials es me per u) ns =
    (if f_retiredChanged (fold stepK es f)
     then to_cents (gnum (f_retired (fold stepK es f)) ns) - gnum (f_retired (fold stepK es f)) ns else 0)"
proof (cases "f_retiredChanged (fold stepK es f)")
  case False
  have zero: "gnum (counted me per u e) ns = 0" if "e \<in> set es" "drops e" for e
  proof -
    have "\<not> counts per u (snd e)"
      using that False keeps_law [of e] by (auto simp: walk_flag f)
    then show ?thesis by (simp add: counted_spendOf spendOf_not_counts)
  qed
  have "(\<Sum>e\<leftarrow>filter (\<lambda>e. \<not> drops e) es. gnum (counted me per u e) ns) = (\<Sum>e\<leftarrow>es. gnum (counted me per u e) ns)"
    using zero by (auto simp: sum_list_map_filter' intro!: arg_cong [where f = sum_list] map_cong)
  then show ?thesis
    using False by (simp add: write_retired_def walk_data [OF es(1) f(1)] FoldPartials_num)
next
  case True
  let ?R = "f_retired (fold stepK es f)"
  let ?raw = "marshal_partial (RetiredPartial per ?R u)"
  have d: "distinct (map fst (filter (\<lambda>e. \<not> drops e) es))"
    using es(1) by (rule distinct_map_filter)
  have "gnum (counted me per u (RetiredKey, ?raw)) ns = to_cents (gnum ?R ns)"
    using me retired_num [of ?R per u ns] walk_retired_keys [OF f(2)] f(4) by (auto simp: counted_spendOf reserved_keys)
  then have "gnum (FoldPartials (write_retired per u (fold stepK es f)) me per u) ns =
    (\<Sum>e\<leftarrow>es. if drops e \<or> fst e = RetiredKey then 0 else gnum (counted me per u e) ns) + to_cents (gnum ?R ns)"
    using True
    by (simp add: write_retired_def walk_data [OF es(1) f(1)] FoldPartials_num sum_list_update [OF d]
        sum_list_map_filter')
      (auto intro!: arg_cong [where f = sum_list] map_cong)
  moreover have "gnum (FoldPartials es me per u) ns =
    (\<Sum>e\<leftarrow>es. if drops e \<or> fst e = RetiredKey then 0 else gnum (counted me per u e) ns) + gnum ?R ns"
    unfolding FoldPartials_num walk_retired_num f(2) gnum_Nil add_0 sum_list_addf [symmetric]
    using me es(2) skips_law
    by (intro arg_cong [where f = sum_list] map_cong refl split_entry) (auto intro: rev_image_eqI)
  ultimately show ?thesis using True by simp
qed

abbreviation "spend_of es f \<equiv> gsum_into (f_retired (fold stepK es f)) (f_current (fold stepK es f))"

lemma spend_num:
  assumes "f_current f = []" "f_retired f = []"
  shows "gnum (spend_of es f) ns = (\<Sum>e\<leftarrow>es. if fst e \<notin> skips then gnum (spendOf per u (snd e)) ns else 0)"
proof -
  have "RetiredKey \<notin> skips"
    using skips_law by (auto simp: reserved_keys)
  then have "(\<Sum>e\<leftarrow>es. if fst e \<notin> skips then gnum (spendOf per u (snd e)) ns else 0) =
    (\<Sum>e\<leftarrow>es. (if is_current e then gnum (spendOf per u (snd e)) ns else 0)
      + (if is_retired e then gnum (spendOf per u (snd e)) ns else 0))"
    by (intro arg_cong [where f = sum_list] map_cong) auto
  then show ?thesis
    using walk_retired_keys [OF assms(2), of es]
    by (simp add: gnum_gsum_into gcontrib_distinct walk_current_num walk_retired_num assms sum_list_addf)
qed

lemma spend_keys:
  assumes "f_current f = []" "f_retired f = []"
  shows "fst ` set (spend_of es f) = (\<Union>e \<in> {e \<in> set es. fst e \<notin> skips}. fst ` set (spendOf per u (snd e)))"
proof -
  have "RetiredKey \<notin> skips"
    using skips_law by (auto simp: reserved_keys)
  then show ?thesis
    unfolding dom_gsum_into walk_current walk_retired keys_fold_gsum_into assms
    by (auto split: if_splits simp del: set_map)
qed

text \<open>
  The second pass sees the entries the first one left, and computes the same spend when the
  amounts are whole cents, as every published amount is.
\<close>

lemma kept_entries:
  assumes "distinct (map fst es)" "f_data f = es" "f_retired f = []" "fits (f_retired (fold stepK es f))"
    and "e \<in> set (write_retired per u (fold stepK es f))"
  shows "\<not> drops e \<and> fst e \<in> skips \<union> insert RetiredKey live"
proof -
  consider "e \<in> set es" "\<not> drops e"
    | "e = (RetiredKey, marshal_partial (RetiredPartial per (f_retired (fold stepK es f)) u))"
    using assms(5) set_update_subset
    by (auto simp: write_retired_def walk_data [OF assms(1,2)] split: if_splits dest!: subsetD [OF set_update_subset])
  then show ?thesis
  proof cases
    case 1
    then show ?thesis using gone_law by blast
  next
    case 2
    then have "counts per u (snd e)"
      using retired_reads_back(1) walk_retired_keys [OF assms(3)] assms(4) by simp
    then show ?thesis using 2 keeps_law(2) by auto
  qed
qed

lemma settled:
  assumes "\<forall>e \<in> set es'. \<not> drops e \<and> fst e \<in> skips \<union> insert RetiredKey live"
    and "\<not> f_changed f'" "\<not> f_retiredChanged f'"
  shows "\<not> f_changed (fold stepK es' f')" "\<not> f_retiredChanged (fold stepK es' f')"
  using assms by (auto simp: walk_changed walk_flag)

lemma gone_empty: "drops e \<Longrightarrow> fst e \<in> insert RetiredKey live \<Longrightarrow> spendOf per u (snd e) = []"
  using keeps_law(2) spendOf_not_counts by blast

lemma unflagged_empty:
  "\<not> f_retiredChanged (fold stepK es f) \<Longrightarrow> e \<in> set es \<Longrightarrow> drops e \<Longrightarrow> spendOf per u (snd e) = []"
  using keeps_law [of e] by (auto simp: walk_flag spendOf_not_counts)

lemma RetiredKey_walked: "RetiredKey \<notin> skips"
  using skips_law by (auto simp: reserved_keys)

lemma written_num:
  assumes es: "distinct (map fst es)" "f_data f = es"
    and f: "f_current f = []" "f_retired f = []" "fits (f_retired (fold stepK es f))"
    and whole: "\<forall>e \<in> set es. \<forall>ns. whole_cents (gnum (spendOf per u (snd e)) ns)"
  shows "(\<Sum>e\<leftarrow>write_retired per u (fold stepK es f). if fst e \<notin> skips then gnum (spendOf per u (snd e)) ns else 0)
    = gnum (spend_of es f) ns" (is "?written = _")
proof (cases "f_retiredChanged (fold stepK es f)")
  case False
  then show ?thesis
    unfolding spend_num [OF f(1,2)] using unflagged_empty [OF False]
    by (auto simp: write_retired_def walk_data [OF es] sum_list_map_filter'
        intro!: arg_cong [where f = sum_list] map_cong)
next
  case True
  let ?G = "\<lambda>e. gnum (spendOf per u (snd e)) ns"
  let ?R = "f_retired (fold stepK es f)"
  have dk: "distinct (map fst (filter (\<lambda>e. \<not> drops e) es))"
    using es(1) by (rule distinct_map_filter)
  have "whole_cents (gnum ?R ns)"
    unfolding walk_retired_num f(2) using whole by (auto intro!: whole_cents_sum)
  then have "?G (RetiredKey, marshal_partial (RetiredPartial per ?R u)) = gnum ?R ns"
    using retired_num [of ?R per u ns] walk_retired_keys [OF f(2)] f(3) by (simp add: to_cents_whole)
  then have "?written = (\<Sum>e\<leftarrow>es. if drops e \<or> fst e = RetiredKey \<or> fst e \<in> skips then 0 else ?G e) + gnum ?R ns"
    using True RetiredKey_walked
    by (simp add: write_retired_def walk_data [OF es] sum_list_update [OF dk] sum_list_map_filter')
      (auto intro!: arg_cong [where f = sum_list] map_cong)
  also have "\<dots> = (\<Sum>e\<leftarrow>es. (if drops e \<or> fst e = RetiredKey \<or> fst e \<in> skips then 0 else ?G e)
      + (if is_retired e then ?G e else 0))"
    by (simp add: walk_retired_num f(2) sum_list_addf)
  also have "\<dots> = gnum (spend_of es f) ns"
    unfolding spend_num [OF f(1,2)]
  proof (intro arg_cong [where f = sum_list] map_cong refl)
    fix e
    show "(if drops e \<or> fst e = RetiredKey \<or> fst e \<in> skips then 0 else ?G e) + (if is_retired e then ?G e else 0) =
      (if fst e \<notin> skips then ?G e else 0)"
      using RetiredKey_walked gone_empty [of e] gone_law [of e] by auto
  qed
  finally show ?thesis .
qed

lemma written_keys:
  assumes es: "distinct (map fst es)" "f_data f = es"
    and f: "f_current f = []" "f_retired f = []" "fits (f_retired (fold stepK es f))"
  shows "(\<Union>e \<in> {e \<in> set (write_retired per u (fold stepK es f)). fst e \<notin> skips}. fst ` set (spendOf per u (snd e)))
    = fst ` set (spend_of es f)" (is "?written = _")
proof (cases "f_retiredChanged (fold stepK es f)")
  case False
  have "\<forall>e \<in> {e \<in> set es. fst e \<notin> skips}. e \<notin> {e \<in> set (filter (\<lambda>e. \<not> drops e) es). fst e \<notin> skips}
      \<longrightarrow> fst ` set (spendOf per u (snd e)) = {}"
    using unflagged_empty [OF False] by simp
  then show ?thesis
    unfolding spend_keys [OF f(1,2)] write_retired_def walk_data [OF es] if_not_P [OF False] by (rule UN_drop) auto
next
  case True
  define K where "K = (\<lambda>e :: string \<times> jsontext. fst ` set (spendOf per u (snd e)))"
  let ?R = "f_retired (fold stepK es f)"
  let ?new = "(RetiredKey, marshal_partial (RetiredPartial per ?R u))"
  let ?kept = "{e \<in> set es. \<not> drops e \<and> fst e \<noteq> RetiredKey \<and> fst e \<notin> skips}"
  have dk: "distinct (map fst (filter (\<lambda>e. \<not> drops e) es))"
    using es(1) by (rule distinct_map_filter)
  have "K ?new = fst ` set ?R"
    using retired_reads_back(2) [of ?R per u] walk_retired_keys [OF f(2)] f(3)
    by (simp add: K_def dom_map_of_conv_image_fst [symmetric] dom_def del: set_map)
  also have "\<dots> = (\<Union>e \<in> {e \<in> set es. is_retired e}. K e)"
    unfolding walk_retired keys_fold_gsum_into f(2) K_def by (auto split: if_splits)
  finally have new: "K ?new = (\<Union>e \<in> {e \<in> set es. is_retired e}. K e)" .
  have "{e \<in> set (write_retired per u (fold stepK es f)). fst e \<notin> skips} = insert ?new ?kept"
    unfolding write_retired_def walk_data [OF es] if_P [OF True] set_update_other [OF dk]
    using RetiredKey_walked by auto
  then have "(\<Union>e \<in> {e \<in> set (write_retired per u (fold stepK es f)). fst e \<notin> skips}. K e) =
      (\<Union>e \<in> {e \<in> set es. is_retired e} \<union> ?kept. K e)"
    by (simp only: UN_insert UN_Un new)
  also have "\<dots> = (\<Union>e \<in> {e \<in> set es. fst e \<notin> skips}. K e)"
  proof (rule UN_drop)
    show "\<forall>e \<in> {e \<in> set es. fst e \<notin> skips}. e \<notin> {e \<in> set es. is_retired e} \<union> ?kept \<longrightarrow> K e = {}"
      using gone_empty by (auto simp: K_def)
    show "{e \<in> set es. is_retired e} \<union> ?kept \<subseteq> {e \<in> set es. fst e \<notin> skips}" by auto
  qed
  finally show ?thesis unfolding spend_keys [OF f(1,2)] K_def .
qed

lemma spend_again:
  assumes es: "distinct (map fst es)" "f_data f = es"
    and f: "f_current f = []" "f_retired f = []" "fits (f_retired (fold stepK es f))"
    and f': "f_current f' = []" "f_retired f' = []"
    and es': "filter (\<lambda>e. fst e \<notin> skips) es' =
      filter (\<lambda>e. fst e \<notin> skips) (write_retired per u (fold stepK es f))"
    and whole: "\<forall>e \<in> set es. \<forall>ns. whole_cents (gnum (spendOf per u (snd e)) ns)"
  shows "map_of (spend_of es' f') = map_of (spend_of es f)"
proof -
  have "gnum (spend_of es' f') ns = gnum (spend_of es f) ns" for ns
    unfolding spend_num [OF f'] written_num [OF es f whole, symmetric]
    using es' by (simp add: sum_list_map_filter' [symmetric])
  moreover have "fst ` set (spend_of es' f') = fst ` set (spend_of es f)"
    unfolding spend_keys [OF f'] written_keys [OF es f, symmetric] using arg_cong [OF es', of set] by simp
  ultimately show ?thesis by (simp add: fun_eq_iff map_of_gnum)
qed

end

subsection \<open>Both walks keep the contract\<close>

definition drops_budget :: "string set \<Rightarrow> string \<Rightarrow> string \<Rightarrow> string \<times> jsontext \<Rightarrow> bool" where
  "drops_budget live per u e \<longleftrightarrow>
     fst e \<notin> {CanonicalKey, PreviousKey} \<and>
     (if fst e = RetiredKey \<or> fst e \<in> live then ParseBudgetPartial (snd e) \<noteq> None \<and> \<not> counts per u (snd e) else True)"

definition drops_workload :: "string set \<Rightarrow> string \<Rightarrow> string \<Rightarrow> string \<times> jsontext \<Rightarrow> bool" where
  "drops_workload live per u e \<longleftrightarrow>
     fst e \<noteq> CanonicalKey \<and>
     (if fst e = RetiredKey then \<not> counts per u (snd e)
      else if fst e \<in> live then ParseBudgetPartial (snd e) \<noteq> None \<and> \<not> counts per u (snd e) else True)"

lemma reserved_distinct: "RetiredKey \<noteq> CanonicalKey" "RetiredKey \<noteq> PreviousKey" "CanonicalKey \<noteq> PreviousKey"
  by (simp_all add: reserved_keys)

lemmas walk_simps = drop_key_def archive_key_def foreign_def counts_def spendOf_def Let_def

interpretation budget_walk: spend_reducer "fold_budget_key live per u" "{CanonicalKey, PreviousKey}" live per u
  "drops_budget live per u"
  using reserved_distinct
  by unfold_locales (auto simp: fold_budget_key_def drops_budget_def walk_simps split: option.splits if_splits)

interpretation workload_walk: spend_reducer "fold_workload_key live per u" "{CanonicalKey}" live per u
  "drops_workload live per u"
  using reserved_distinct
  by unfold_locales (auto simp: fold_workload_key_def drops_workload_def walk_simps split: option.splits if_splits)

subsection \<open>A whole pass\<close>

abbreviation start_fold :: "(string, jsontext) gomap \<Rightarrow> budgetFold" where
  "start_fold data \<equiv> \<lparr>f_data = data, f_current = [], f_retired = [], f_changed = False, f_retiredChanged = False,
     f_stale = [], f_marginRaised = False\<rparr>"

lemma sort_key_map_of:
  assumes "distinct (map fst a)" "distinct (map fst b)" "map_of a = map_of b"
  shows "sort_key fst a = (sort_key fst b :: (string \<times> 'v) list)"
proof (rule map_sorted_distinct_set_unique [where f = fst])
  have "set a = set b"
    using assms by (metis map_of_inject_set)
  then show "set (sort_key fst a) = set (sort_key fst b)" by simp
  show "inj_on fst (set (sort_key fst a) \<union> set (sort_key fst b))"
    using assms(1) \<open>set a = set b\<close> by (simp add: distinct_map)
qed (use assms in \<open>simp_all add: distinct_map inj_on_def\<close>)

lemma canonical_of_map_of:
  assumes "distinct (map fst a)" "distinct (map fst b)" "map_of a = map_of b"
  shows "canonical_of a = canonical_of b"
proof -
  have fmt: "fold (\<lambda>(ns, v) out. AList.update ns (FormatFloat2 v) out) m [] =
      fold (\<lambda>(ns, v) out. AList.update ns v out) (format_spend m) []" for m
    by (simp add: format_spend_def fold_map comp_def split_def)
  have "map_of (fold (\<lambda>(ns, v) out. AList.update ns v out) (format_spend m) []) k = map_option FormatFloat2 (map_of m k)"
    if "distinct (map fst m)" for m k
    using fold_update_map_of [of "format_spend m" "[]" k] that by (simp add: format_spend_map_of split: option.splits)
  then show ?thesis
    unfolding canonical_of_def fmt marshal_strings_def
    using assms by (auto intro!: arg_cong [where f = "map _"] sort_key_map_of simp: fun_eq_iff fold_update_distinct)
qed

lemma filter_delete_in: "k \<in> S \<Longrightarrow> filter (\<lambda>e. fst e \<notin> S) (AList.delete k m) = filter (\<lambda>e. fst e \<notin> S) m"
  by (induction m) (auto simp: AList.delete_eq)

lemma write_canonical_filter:
  "filter (\<lambda>e. fst e \<notin> {CanonicalKey, PreviousKey}) (fst (write_canonical spend data)) =
   filter (\<lambda>e. fst e \<notin> {CanonicalKey, PreviousKey}) data"
  unfolding write_canonical_def
  using own_update_filter [of CanonicalKey "{CanonicalKey, PreviousKey}" "canonical_of spend" data] by simp

lemma write_archive_filter:
  "filter (\<lambda>e. fst e \<notin> {CanonicalKey, PreviousKey}) (fst (write_archive stales per u data)) =
   filter (\<lambda>e. fst e \<notin> {CanonicalKey, PreviousKey}) data"
  unfolding write_archive_def Let_def
  using own_update_filter [of PreviousKey "{CanonicalKey, PreviousKey}" _ data]
    filter_delete_in [of PreviousKey "{CanonicalKey, PreviousKey}" data]
  by (auto split: prod.splits option.splits)

lemma FoldPartials_filter_cong:
  assumes "filter (\<lambda>e. fst e \<notin> {CanonicalKey, PreviousKey}) d = filter (\<lambda>e. fst e \<notin> {CanonicalKey, PreviousKey}) d'"
  shows "FoldPartials d me per u = FoldPartials d' me per u"
proof -
  have "filter (\<lambda>e. fst e \<notin> {me, CanonicalKey, PreviousKey}) x =
      filter (\<lambda>e. fst e \<noteq> me) (filter (\<lambda>e. fst e \<notin> {CanonicalKey, PreviousKey}) x)" for x :: "(string \<times> jsontext) list"
    by (induction x) auto
  then show ?thesis using assms by (metis FoldPartials_own)
qed

text \<open>The parts of a pass, by name.\<close>

lemma reduceBudget_parts:
  assumes "reduceBudget cm live per u = (cm', changed, spend, archive, raised)"
  obtains f d1 d2 c a where "f = foldBudgetKeys (cm_Data cm) live per u"
    "spend = gsum_into (f_retired f) (f_current f)"
    "d1 = write_retired per u f" "write_canonical spend d1 = (d2, c)"
    "write_archive (f_stale f) per u d2 = (cm_Data cm', a, archive)"
    "changed \<longleftrightarrow> f_changed f \<or> snd (ensureSpendLabel cm SpendLabelBudget) \<or> f_retiredChanged f \<or> c \<or> a"
    "cm_Labels cm' = cm_Labels (fst (ensureSpendLabel cm SpendLabelBudget))"
    "cm_Name cm' = cm_Name cm" "cm_ResourceVersion cm' = cm_ResourceVersion cm"
proof -
  let ?f = "foldBudgetKeys (cm_Data cm) live per u"
  let ?spend = "gsum_into (f_retired ?f) (f_current ?f)"
  obtain d2 c where c: "write_canonical ?spend (write_retired per u ?f) = (d2, c)" by fastforce
  obtain d3 a ar where a: "write_archive (f_stale ?f) per u d2 = (d3, a, ar)" by (metis prod_cases3)
  have "cm_Data (fst (ensureSpendLabel cm SpendLabelBudget)) = cm_Data cm"
    "cm_Name (fst (ensureSpendLabel cm SpendLabelBudget)) = cm_Name cm"
    "cm_ResourceVersion (fst (ensureSpendLabel cm SpendLabelBudget)) = cm_ResourceVersion cm"
    by (simp_all add: ensureSpendLabel_def)
  then show ?thesis
    using assms c a
    by (intro that [of ?f "write_retired per u ?f" d2 c a]) (auto simp: reduceBudget_def Let_def split_def)
qed

text \<open>The archive a pass leaves is one the next pass keeps.\<close>

definition archive_ok :: "string \<Rightarrow> string \<Rightarrow> budgetArchive \<Rightarrow> bool" where
  "archive_ok per u a \<longleftrightarrow> ba_Period a \<noteq> [] \<and> ba_ArchivedIn a = per \<and> ba_ProviderUID a \<in> {[], u}"

lemma merge_source_fields:
  "ba_Period (fst (fold merge_source stales (a, c))) = ba_Period a
   \<and> ba_ArchivedIn (fst (fold merge_source stales (a, c))) = ba_ArchivedIn a
   \<and> ba_ProviderUID (fst (fold merge_source stales (a, c))) = ba_ProviderUID a"
proof (induction stales arbitrary: a c)
  case Nil
  then show ?case by simp
next
  case (Cons e stales)
  obtain a' c' where s: "merge_source e (a, c) = (a', c')" by fastforce
  then have "ba_Period a' = ba_Period a" "ba_ArchivedIn a' = ba_ArchivedIn a" "ba_ProviderUID a' = ba_ProviderUID a"
    by (auto simp: merge_source_def Let_def split: prod.splits if_splits)
  then show ?case using Cons.IH [of a' c'] s by simp
qed

lemma merge_source_ok: "archive_ok per u (fst (fold merge_source stales (a, c))) \<longleftrightarrow> archive_ok per u a"
  using merge_source_fields [of stales a c] by (simp add: archive_ok_def)

lemma merge_ns_changed: "snd (fold merge_ns xs (d, True))"
  by (induction xs arbitrary: d) (auto simp: merge_ns_def split: option.splits)

lemma merge_source_changed: "snd (fold merge_source stales (a, True))"
proof (induction stales arbitrary: a)
  case Nil
  then show ?case by simp
next
  case (Cons e stales)
  obtain a' where "merge_source e (a, True) = (a', True)"
    using merge_ns_changed by (fastforce simp: merge_source_def split_def Let_def prod_eq_iff)
  then show ?case using Cons by simp
qed

lemma merge_archive_ok:
  assumes "mergeBudgetArchive stored stales per u = (Some a, c)" "\<forall>s. stored = Some s \<longrightarrow> ba_Period s \<noteq> []"
  shows "archive_ok per u a"
  using assms
  by (auto simp: mergeBudgetArchive_def Let_def split_def merge_source_ok split: option.splits if_splits)
    (auto simp: archive_ok_def)

lemma parseBudgetArchive_period: "parseBudgetArchive raw = Some a \<Longrightarrow> ba_Period a \<noteq> []"
  by (auto simp: parseBudgetArchive_def split: option.splits json.splits prod.splits if_splits)

lemma unmarshal_sources_marshal:
  "\<exists>m'. unmarshal_sources (map (\<lambda>(s, m). (s, JObject (map (\<lambda>(k, v). (k, JString v)) (sort_key fst m)))) srcs) d = Some m'"
  by (induction srcs arbitrary: d) (auto simp: unmarshal_members_strings)

lemma parse_marshal_archive:
  assumes "ba_Period a \<noteq> []"
  shows "\<exists>a'. parseBudgetArchive (Some (marshal_archive a)) = Some a' \<and> ba_Period a' = ba_Period a
    \<and> ba_ArchivedIn a' = ba_ArchivedIn a \<and> ba_ProviderUID a' = ba_ProviderUID a"
proof -
  have names: "EqualFold ''period'' ''period''" "\<not> EqualFold ''archivedIn'' ''period''" "EqualFold ''archivedIn'' ''archivedIn''"
    "\<not> EqualFold ''providerUID'' ''period''" "\<not> EqualFold ''providerUID'' ''archivedIn''" "EqualFold ''providerUID'' ''providerUID''"
    "\<not> EqualFold ''sources'' ''period''" "\<not> EqualFold ''sources'' ''archivedIn''" "\<not> EqualFold ''sources'' ''providerUID''"
    "EqualFold ''sources'' ''sources''"
    by code_simp+
  obtain m' where "unmarshal_sources (map (\<lambda>(s, m). (s, JObject (map (\<lambda>(k, v). (k, JString v)) (sort_key fst m))))
      (sort_key fst (ba_Sources a))) [] = Some m'"
    using unmarshal_sources_marshal by blast
  then show ?thesis
    using assms by (simp add: parseBudgetArchive_def marshal_archive_def archive_member_def names)
qed

lemma merge_nothing:
  "archive_ok per u a \<Longrightarrow> mergeBudgetArchive (Some a) [] per u = (Some a, False)"
  by (auto simp: mergeBudgetArchive_def newest_period_def archive_ok_def)

lemma write_archive_again:
  assumes "write_archive stales per u data = (data', c, archive)"
  shows "\<exists>archive'. write_archive [] per u data' = (data', False, archive')"
proof -
  let ?stored = "parseBudgetArchive (map_of data PreviousKey)"
  obtain ch where m: "mergeBudgetArchive ?stored stales per u = (archive, ch)"
    using assms by (auto simp: write_archive_def Let_def split: prod.splits if_splits)
  have absent: "\<exists>archive'. write_archive [] per u d = (d, False, archive')" if "map_of d PreviousKey = None" for d
    using that by (auto simp: write_archive_def Let_def parseBudgetArchive_def mergeBudgetArchive_def newest_period_def)
  have keep: "\<exists>archive'. write_archive [] per u d = (d, False, archive')"
    if "parseBudgetArchive (map_of d PreviousKey) = Some a" "archive_ok per u a" for d a
    using that by (simp add: write_archive_def Let_def merge_nothing)
  show ?thesis
  proof (cases archive)
    case None
    show ?thesis
    proof (cases "ch \<or> (map_of data PreviousKey \<noteq> None \<and> ?stored = None)")
      case True
      then have "map_of data' PreviousKey = None"
        using assms m None by (auto simp: write_archive_def Let_def gomap_simps)
      then show ?thesis using absent by blast
    next
      case False
      then have "data' = data" "map_of data PreviousKey = None"
        using assms m None
        by (auto simp: write_archive_def Let_def mergeBudgetArchive_def split_def split: option.splits if_splits)
      then show ?thesis using absent by simp
    qed
  next
    case (Some a)
    then have ok: "archive_ok per u a"
      using merge_archive_ok [of ?stored stales per u a ch] m parseBudgetArchive_period by blast
    show ?thesis
    proof (cases "ch \<or> (map_of data PreviousKey \<noteq> None \<and> ?stored = None)")
      case True
      then have "map_of data' PreviousKey = Some (marshal_archive a)"
        using assms m Some by (auto simp: write_archive_def Let_def gomap_simps)
      moreover obtain a' where "parseBudgetArchive (Some (marshal_archive a)) = Some a'" "archive_ok per u a'"
        using parse_marshal_archive [of a] ok by (auto simp: archive_ok_def)
      ultimately show ?thesis by (intro keep [of data' a']) simp_all
    next
      case False
      then have d: "data' = data" and nch: "\<not> ch"
        using assms m Some by (auto simp: write_archive_def Let_def)
      obtain s where "?stored = Some s" "archive_ok per u s"
        using m nch Some parseBudgetArchive_period [of "map_of data PreviousKey"]
        by (auto simp: mergeBudgetArchive_def Let_def split_def archive_ok_def merge_source_changed
            split: option.splits if_splits)
      then show ?thesis using keep d by simp
    qed
  qed
qed

lemma foldBudgetKeys_distinct:
  "distinct (map fst (gsum_into (f_retired (foldBudgetKeys data live per u)) (f_current (foldBudgetKeys data live per u))))"
  unfolding foldBudgetKeys_def budget_walk.walk_current
  by (intro distinct_gsum_into distinct_fold_gsum_into) simp

lemma fold_stale_kept:
  "\<forall>e \<in> set es. \<not> drops_budget live per u e \<Longrightarrow> f_stale (fold (fold_budget_key live per u) es f) = f_stale f"
proof (induction es arbitrary: f)
  case Nil
  then show ?case by simp
next
  case (Cons e es)
  have "f_stale (fold_budget_key live per u e f) = f_stale f"
    using Cons.prems reserved_distinct
    by (auto simp: fold_budget_key_def drops_budget_def walk_simps split: option.splits if_splits)
  then show ?case using Cons by simp
qed

lemma distinct_write_retired: "distinct (map fst (f_data f)) \<Longrightarrow> distinct (map fst (write_retired per u f))"
  by (simp add: write_retired_def distinct_update)

lemma reduceBudget_data:
  assumes "reduceBudget cm live per u = (cm', changed, spend, archive, raised)"
  shows "filter (\<lambda>e. fst e \<notin> {CanonicalKey, PreviousKey}) (cm_Data cm') =
    filter (\<lambda>e. fst e \<notin> {CanonicalKey, PreviousKey})
      (write_retired per u (fold (fold_budget_key live per u) (cm_Data cm) (start_fold (cm_Data cm))))"
proof -
  obtain f d1 d2 c a where "f = foldBudgetKeys (cm_Data cm) live per u" "d1 = write_retired per u f"
    "write_canonical spend d1 = (d2, c)" "write_archive (f_stale f) per u d2 = (cm_Data cm', a, archive)"
    using assms by (rule reduceBudget_parts) 
  then show ?thesis
    using write_canonical_filter [of spend d1] write_archive_filter [of "f_stale f" per u d2]
    by (simp add: foldBudgetKeys_def)
qed

lemma sum_one_key:
  "distinct (map fst m) \<Longrightarrow>
   (\<Sum>e\<leftarrow>m. if fst e = k then g (snd e) else 0) = (case map_of m k of None \<Rightarrow> 0 | Some v \<Rightarrow> (g v :: rat))"
proof (induction m)
  case Nil
  then show ?case by simp
next
  case (Cons e m)
  have "fst e = k \<Longrightarrow> map_of m k = None"
    using Cons.prems by (auto simp: map_of_eq_None_iff)
  with Cons show ?case by (cases e) auto
qed

lemma written_entries:
  assumes pass: "reduceBudget cm live per u = (cm', changed, spend, archive, raised)"
    and cm: "distinct (map fst (cm_Data cm))" "fits (f_retired (foldBudgetKeys (cm_Data cm) live per u))"
    and e: "e \<in> set (cm_Data cm')"
  shows "\<not> drops_budget live per u e \<and> fst e \<in> {CanonicalKey, PreviousKey} \<union> insert RetiredKey live"
proof (cases "fst e \<in> {CanonicalKey, PreviousKey}")
  case True
  then show ?thesis by (auto simp: drops_budget_def)
next
  case False
  then have "e \<in> set (write_retired per u (fold (fold_budget_key live per u) (cm_Data cm) (start_fold (cm_Data cm))))"
    using e arg_cong [OF reduceBudget_data [OF pass], of set] by auto
  from budget_walk.kept_entries [OF cm(1) _ _ _ this] show ?thesis
    using cm(2) by (simp add: foldBudgetKeys_def)
qed

lemma written_canonical:
  assumes "write_canonical spend d1 = (d2, c)" "write_archive stales per u d2 = (d3, a, archive)"
  shows "map_of d3 CanonicalKey = Some (canonical_of spend)"
proof -
  have "map_of d2 CanonicalKey = Some (canonical_of spend)"
    using assms(1) by (auto simp: write_canonical_def gomap_simps split: if_splits)
  moreover have "map_of d3 CanonicalKey = map_of d2 CanonicalKey"
    using assms(2) reserved_distinct
    by (auto simp: write_archive_def Let_def gomap_simps split: prod.splits if_splits option.splits)
  ultimately show ?thesis by simp
qed

subsection \<open>A concrete ConfigMap\<close>

text \<open>One live replica with two dollars spent, and the key of a Pod that is gone with five.\<close>

definition demo_raw :: "usd \<Rightarrow> jsontext" where
  "demo_raw v = marshal_partial (RetiredPartial ''2026-03'' [(''team-a'', v)] ''u1'')"

definition demo_cm :: configMap where
  "demo_cm = \<lparr>cm_Name = ''kaalm-budget-claude'', cm_ResourceVersion = ''7'', cm_Labels = [],
     cm_Data = [(''gw-0'', demo_raw 2), (''gw-old'', demo_raw 5)]\<rparr>"

lemma demo_num: "gnum (spendOf ''2026-03'' ''u1'' (demo_raw (of_int n))) ns = (if ns = ''team-a'' then of_int n else 0)"
  if "\<bar>n\<bar> < 10000"
proof -
  have "whole_cents (of_int n)"
    by (simp add: whole_cents_def)
  moreover have "\<bar>of_int n\<bar> < (10000 :: rat)"
    using that by linarith
  ultimately show ?thesis
    unfolding demo_raw_def
    by (subst retired_num)
      (use float_overflow_gr in \<open>auto simp: fits_def spend_field_def HasPrefix_def gnum_Cons to_cents_whole\<close>)
qed

lemmas demo_nums = demo_num [of 2, simplified] demo_num [of 5, simplified]

lemma fits_gnum: "distinct (map fst m) \<Longrightarrow> (\<And>k. \<bar>to_cents (gnum m k)\<bar> < float_overflow) \<Longrightarrow> fits m"
  unfolding fits_def gnum_def by (metis (no_types, lifting) case_prodI2 map_of_eq_Some_iff option.simps(5))

lemma demo_fits: "fits (f_retired (foldBudgetKeys (cm_Data demo_cm) {''gw-0''} ''2026-03'' ''u1''))"
proof (rule fits_gnum)
  show "distinct (map fst (f_retired (foldBudgetKeys (cm_Data demo_cm) {''gw-0''} ''2026-03'' ''u1'')))"
    unfolding foldBudgetKeys_def using budget_walk.walk_retired_keys by simp
  show "\<bar>to_cents (gnum (f_retired (foldBudgetKeys (cm_Data demo_cm) {''gw-0''} ''2026-03'' ''u1'')) k)\<bar> < float_overflow" for k
    unfolding foldBudgetKeys_def budget_walk.walk_retired_num
    using float_overflow_gr
    by (auto simp: demo_cm_def demo_nums reserved_keys to_cents_whole whole_cents_def)
qed

lemma demo_whole: "e \<in> set (cm_Data demo_cm) \<Longrightarrow> whole_cents (gnum (spendOf ''2026-03'' ''u1'' (snd e)) ns)"
  by (auto simp: demo_cm_def demo_nums whole_cents_def)

lemma demo_distinct: "distinct (map fst (cm_Data demo_cm))"
  by (simp add: demo_cm_def)

subsection \<open>Properties\<close>

text \<open>
  C27. A reducer pass loses no spend. For every live replica, what the replica folds from its
  peers after the pass differs from what it folded before by at most half a cent per namespace,
  although the keys of Pods that are gone have been deleted; and the spend the pass reports is
  what every live replica computes: its own partial plus its view of its peers.
\<close>

theorem reducer_keeps_view:
  assumes pass: "reduceBudget cm live per u = (cm', changed, spend, archive, raised)"
    and me: "me \<in> live" "me \<notin> {RetiredKey, CanonicalKey, PreviousKey}"
    and cm: "distinct (map fst (cm_Data cm))" "fits (f_retired (foldBudgetKeys (cm_Data cm) live per u))"
  shows "\<bar>gnum (FoldPartials (cm_Data cm') me per u) ns - gnum (FoldPartials (cm_Data cm) me per u) ns\<bar> \<le> 1 / 200
    \<and> gnum spend ns = gnum (FoldPartials (cm_Data cm) me per u) ns
        + (case map_of (cm_Data cm) me of None \<Rightarrow> 0 | Some raw \<Rightarrow> gnum (spendOf per u raw) ns)"
proof
  let ?es = "cm_Data cm"
  let ?f = "fold (fold_budget_key live per u) ?es (start_fold ?es)"
  have "FoldPartials (cm_Data cm') me per u = FoldPartials (write_retired per u ?f) me per u"
    by (rule FoldPartials_filter_cong) (rule reduceBudget_data [OF pass])
  then have "gnum (FoldPartials (cm_Data cm') me per u) ns - gnum (FoldPartials ?es me per u) ns =
      (if f_retiredChanged ?f then to_cents (gnum (f_retired ?f) ns) - gnum (f_retired ?f) ns else 0)"
    using budget_walk.view_kept [OF me cm(1), of "start_fold ?es" per u ns] cm(2) by (simp add: foldBudgetKeys_def)
  then show "\<bar>gnum (FoldPartials (cm_Data cm') me per u) ns - gnum (FoldPartials ?es me per u) ns\<bar> \<le> 1 / 200"
    using to_cents_close by simp
  have spend: "spend = gsum_into (f_retired ?f) (f_current ?f)"
    using pass by (rule reduceBudget_parts) (simp add: foldBudgetKeys_def)
  have "gnum spend ns = (\<Sum>e\<leftarrow>?es. gnum (counted me per u e) ns + (if fst e = me then gnum (spendOf per u (snd e)) ns else 0))"
    unfolding spend budget_walk.spend_num [of "start_fold ?es", simplified]
    using me by (intro arg_cong [where f = sum_list] map_cong) (auto simp: counted_spendOf)
  also have "\<dots> = gnum (FoldPartials ?es me per u) ns + (\<Sum>e\<leftarrow>?es. if fst e = me then gnum (spendOf per u (snd e)) ns else 0)"
    by (simp add: sum_list_addf FoldPartials_num)
  also have "(\<Sum>e\<leftarrow>?es. if fst e = me then gnum (spendOf per u (snd e)) ns else 0) =
      (case map_of ?es me of None \<Rightarrow> 0 | Some raw \<Rightarrow> gnum (spendOf per u raw) ns)"
    using cm(1) by (rule sum_one_key)
  finally show "gnum spend ns = gnum (FoldPartials ?es me per u) ns
      + (case map_of ?es me of None \<Rightarrow> 0 | Some raw \<Rightarrow> gnum (spendOf per u raw) ns)" .
qed

theorem reducer_keeps_view_witness:
  "\<exists>cm' changed spend archive raised.
     reduceBudget demo_cm {''gw-0''} ''2026-03'' ''u1'' = (cm', changed, spend, archive, raised)
   \<and> \<bar>gnum (FoldPartials (cm_Data cm') ''gw-0'' ''2026-03'' ''u1'') ''team-a'' - 5\<bar> \<le> 1 / 200
   \<and> gnum spend ''team-a'' = 7"
proof -
  obtain cm' changed spend archive raised
    where r: "reduceBudget demo_cm {''gw-0''} ''2026-03'' ''u1'' = (cm', changed, spend, archive, raised)"
    by (metis prod_cases5)
  have "gnum (FoldPartials (cm_Data demo_cm) ''gw-0'' ''2026-03'' ''u1'') ''team-a'' = 5"
    "map_of (cm_Data demo_cm) ''gw-0'' = Some (demo_raw 2)"
    by (simp_all add: FoldPartials_num demo_cm_def counted_spendOf reserved_keys demo_nums)
  then show ?thesis
    using reducer_keeps_view [OF r _ _ demo_distinct demo_fits, of "''gw-0''" "''team-a''"] r
    by (simp add: reserved_keys demo_nums)
qed

text \<open>
  C28. A pass settles: run again over the ConfigMap it wrote, in the same period and with the same
  live Pods, the reducer changes nothing, so it sends no update and raises no event of its own.
\<close>

theorem reducer_settles:
  assumes pass: "reduceBudget cm live per u = (cm', changed, spend, archive, raised)"
    and cm: "distinct (map fst (cm_Data cm))" "fits (f_retired (foldBudgetKeys (cm_Data cm) live per u))"
    and whole: "\<forall>e \<in> set (cm_Data cm). \<forall>ns. whole_cents (gnum (spendOf per u (snd e)) ns)"
  shows "fst (reduceBudget cm' live per u) = cm' \<and> \<not> fst (snd (reduceBudget cm' live per u))"
proof -
  let ?es = "cm_Data cm" and ?es' = "cm_Data cm'"
  let ?f = "fold (fold_budget_key live per u) ?es (start_fold ?es)"
  let ?g = "foldBudgetKeys ?es' live per u"
  obtain d2 c a where parts: "spend = gsum_into (f_retired ?f) (f_current ?f)"
    "write_canonical spend (write_retired per u ?f) = (d2, c)"
    "write_archive (f_stale ?f) per u d2 = (?es', a, archive)"
    "cm_Labels cm' = cm_Labels (fst (ensureSpendLabel cm SpendLabelBudget))"
    using pass by (rule reduceBudget_parts) (simp add: foldBudgetKeys_def)
  have quiet: "\<not> drops_budget live per u e \<and> fst e \<in> {CanonicalKey, PreviousKey} \<union> insert RetiredKey live"
    if "e \<in> set ?es'" for e
    using that written_entries [OF pass cm] by blast
  have g: "\<not> f_changed ?g" "\<not> f_retiredChanged ?g" "f_stale ?g = []" "f_data ?g = ?es'"
    using quiet budget_walk.settled [of ?es' live per u "start_fold ?es'"] fold_stale_kept [of ?es' live per u "start_fold ?es'"]
    by (simp_all add: foldBudgetKeys_def budget_walk.fold_data filter_id_conv)
  have "map_of (gsum_into (f_retired ?g) (f_current ?g)) = map_of spend"
    unfolding parts(1) foldBudgetKeys_def
    by (rule budget_walk.spend_again) (use cm whole reduceBudget_data [OF pass] in \<open>simp_all add: foldBudgetKeys_def\<close>)
  then have "canonical_of (gsum_into (f_retired ?g) (f_current ?g)) = canonical_of spend"
    using foldBudgetKeys_distinct parts(1) by (intro canonical_of_map_of) (simp_all add: foldBudgetKeys_def)
  moreover have "map_of ?es' CanonicalKey = Some (canonical_of spend)"
    using parts(2,3) written_canonical by blast
  ultimately have can: "write_canonical (gsum_into (f_retired ?g) (f_current ?g)) ?es' = (?es', False)"
    by (simp add: write_canonical_def)
  have lab: "ensureSpendLabel cm' SpendLabelBudget = (cm', False)"
    using parts(4) by (auto simp: ensureSpendLabel_def gstring_def gomap_simps)
  obtain archive' where "write_archive [] per u ?es' = (?es', False, archive')"
    using write_archive_again [OF parts(3)] by blast
  then show ?thesis
    using g can lab by (simp add: reduceBudget_def write_retired_def Let_def)
qed

theorem reducer_settles_witness:
  "\<exists>cm' changed spend archive raised.
     reduceBudget demo_cm {''gw-0''} ''2026-03'' ''u1'' = (cm', changed, spend, archive, raised)
   \<and> fst (reduceBudget cm' {''gw-0''} ''2026-03'' ''u1'') = cm'
   \<and> \<not> fst (snd (reduceBudget cm' {''gw-0''} ''2026-03'' ''u1''))"
proof -
  obtain cm' changed spend archive raised
    where r: "reduceBudget demo_cm {''gw-0''} ''2026-03'' ''u1'' = (cm', changed, spend, archive, raised)"
    by (metis prod_cases5)
  then show ?thesis
    using reducer_settles [OF r demo_distinct demo_fits] demo_whole by blast
qed

subsection \<open>The archive keeps the larger figure\<close>

definition figure :: "budgetArchive \<Rightarrow> string \<Rightarrow> string \<Rightarrow> string option" where
  "figure a source ns = Option.bind (map_of (ba_Sources a) source) (\<lambda>m. map_of m ns)"

text \<open>The figure after a new one of a source is merged into the archived one.\<close>

definition larger :: "usd option \<Rightarrow> string option \<Rightarrow> string option" where
  "larger new old =
     (case new of
        None \<Rightarrow> old
      | Some v \<Rightarrow> (case Option.bind old ParseFloat of
            None \<Rightarrow> Some (FormatFloat2 v)
          | Some x \<Rightarrow> if v \<le> x then old else Some (FormatFloat2 v)))"

lemma larger_None [simp]: "larger None old = old"
  by (simp add: larger_def)

lemma merge_ns_figure:
  "distinct (map fst xs) \<Longrightarrow> map_of (fst (fold merge_ns xs (d, c))) ns = larger (map_of xs ns) (map_of d ns)"
proof (induction xs arbitrary: d c)
  case Nil
  then show ?case by simp
next
  case (Cons e xs)
  obtain k v where e: "e = (k, v)" by (cases e)
  obtain d' c' where s: "merge_ns e (d, c) = (d', c')" by fastforce
  have "map_of d' ns = (if ns = k then larger (Some v) (map_of d ns) else map_of d ns)"
    using s by (auto simp: e merge_ns_def larger_def gomap_simps split: option.splits if_splits)
  moreover have "map_of xs k = None"
    using Cons.prems e by (simp add: map_of_eq_None_iff)
  ultimately show ?case
    using Cons s e by auto
qed

lemma merge_source_figure:
  assumes "distinct (map fst stales)" "\<forall>(s, sp) \<in> set stales. distinct (map fst (sp_spend sp))"
  shows "figure (fst (fold merge_source stales (a, c))) source ns =
    (case map_of stales source of
       None \<Rightarrow> figure a source ns
     | Some sp \<Rightarrow> if sp_period sp = ba_Period a then larger (map_of (sp_spend sp) ns) (figure a source ns)
                 else figure a source ns)"
  using assms
proof (induction stales arbitrary: a c)
  case Nil
  then show ?case by simp
next
  case (Cons e stales)
  obtain k sp where e: "e = (k, sp)" by (cases e)
  obtain a' c' where s: "merge_source e (a, c) = (a', c')" by fastforce
  have "figure a' source ns = (if source = k \<and> sp_period sp = ba_Period a
      then larger (map_of (sp_spend sp) ns) (figure a source ns) else figure a source ns)"
    using s Cons.prems(2)
    by (auto simp: e merge_source_def figure_def Let_def split_def gomap_simps merge_ns_figure prod_eq_iff
        split: option.splits if_splits)
  moreover have "ba_Period a' = ba_Period a"
    using merge_source_fields [of "[e]" a c] s by simp
  moreover have "map_of stales k = None"
    using Cons.prems e by (simp add: map_of_eq_None_iff)
  ultimately show ?case
    using Cons s e by (auto split: option.splits)
qed

lemma newest_period_ge: "(s, sp) \<in> set stales \<Longrightarrow> sp_period sp \<le> newest_period stales"
proof -
  have "n \<le> fold (\<lambda>(_, sp) newest. if sp_period sp > newest then sp_period sp else newest) stales n
    \<and> (\<forall>(s, sp) \<in> set stales. sp_period sp \<le> fold (\<lambda>(_, sp) newest. if sp_period sp > newest then sp_period sp else newest) stales n)"
    for n
  proof (induction stales arbitrary: n)
    case Nil
    then show ?case by simp
  next
    case (Cons e stales)
    show ?case
      using Cons.IH [of "if sp_period (snd e) > n then sp_period (snd e) else n"]
      by (auto simp: split_def split: if_splits)
  qed
  then show "(s, sp) \<in> set stales \<Longrightarrow> sp_period sp \<le> newest_period stales"
    by (fastforce simp: newest_period_def)
qed

text \<open>
  C29. The archive holds the newest past period, and of each source the larger figure. No stale
  key of the pass belongs to a later period than the archive's; and for every source of the
  archive's period and every namespace of it, the archived figure is the one stored before when
  that is at least as large, and the new one otherwise, so that a replica whose last publish
  arrives late is not counted twice and never shrinks the figure.
\<close>

theorem archive_keeps_larger:
  assumes merge: "mergeBudgetArchive stored stales cur u = (Some a, changed)"
    and stales: "distinct (map fst stales)" "\<forall>(s, sp) \<in> set stales. distinct (map fst (sp_spend sp))"
    and src: "map_of stales source = Some sp" "sp_period sp = ba_Period a"
  shows "(\<forall>(s, sp') \<in> set stales. sp_period sp' \<le> ba_Period a)
    \<and> figure a source ns = larger (map_of (sp_spend sp) ns)
        (case stored of
           None \<Rightarrow> None
         | Some old \<Rightarrow>
             if ba_ArchivedIn old = cur \<and> ba_ProviderUID old \<in> {[], u} \<and> ba_Period old = ba_Period a
             then figure old source ns else None)"
proof -
  obtain a0 c0 where a: "a = fst (fold merge_source stales (a0, c0))"
    and a0: "newest_period stales \<noteq> [] \<and> ba_Period a0 = newest_period stales \<and> ba_Sources a0 = []
        \<and> (\<forall>old. stored = Some old \<longrightarrow> ba_ArchivedIn old = cur \<longrightarrow> ba_ProviderUID old \<in> {[], u} \<longrightarrow> ba_Period old < ba_Period a0)
      \<or> (stored = Some a0 \<and> ba_ArchivedIn a0 = cur \<and> ba_ProviderUID a0 \<in> {[], u} \<and> newest_period stales \<le> ba_Period a0)"
    using merge
    by (auto simp: mergeBudgetArchive_def Let_def split_def not_less split: option.splits if_splits intro!: that)
  have per: "ba_Period a = ba_Period a0"
    using merge_source_fields [of stales a0 c0] a by simp
  have "figure a source ns = larger (map_of (sp_spend sp) ns) (figure a0 source ns)"
    using merge_source_figure [OF stales, of a0 c0 source ns] src a per by simp
  moreover have "sp_period sp' \<le> ba_Period a" if "(s, sp') \<in> set stales" for s sp'
    using newest_period_ge [OF that] a0 per by auto
  ultimately show ?thesis
    using a0 per by (auto simp: figure_def split: option.splits)
qed

theorem archive_keeps_larger_witness:
  "\<exists>a. mergeBudgetArchive None [(''gw-0'', \<lparr>sp_period = ''2026-02'', sp_spend = [(''team-a'', 4)]\<rparr>)] ''2026-03'' ''u1'' = (Some a, True)
     \<and> figure a ''gw-0'' ''team-a'' = Some (FormatFloat2 4)"
proof -
  let ?st = "[(''gw-0'', \<lparr>sp_period = ''2026-02'', sp_spend = [(''team-a'', 4)]\<rparr>)]"
  obtain a where a: "mergeBudgetArchive None ?st ''2026-03'' ''u1'' = (Some a, True)" "ba_Period a = ''2026-02''"
    by (simp add: mergeBudgetArchive_def newest_period_def merge_source_def merge_ns_def)
  then show ?thesis
    using archive_keeps_larger [OF a(1), of "''gw-0''" "\<lparr>sp_period = ''2026-02'', sp_spend = [(''team-a'', 4)]\<rparr>" "''team-a''"]
    by (simp add: larger_def)
qed

end
