(* ===== verification/Go_Text.thy ===== *)
theory Go_Text
  imports Api_Types Go_Strconv
begin

text \<open>
  The text functions of the Go library that the request path and the reconcilers share:
  splitting and joining, suffixes, decimal numbers, quoting, and the repository's own
  \<^verbatim>\<open>eventrec.Truncate\<close>. A string is a list of bytes. \<open>Quote\<close> renders bytes beyond
  ASCII as they are, which is what \<^verbatim>\<open>%q\<close> does with printable text.
\<close>

subsection \<open>Splitting and joining\<close>

text \<open>\<^verbatim>\<open>strings.Split\<close> for a one-byte separator.\<close>

fun Split :: "string \<Rightarrow> char \<Rightarrow> string list" where
  "Split [] sep = [[]]"
| "Split (c # s) sep =
     (if c = sep then [] # Split s sep
      else (case Split s sep of [] \<Rightarrow> [[c]] | e # es \<Rightarrow> (c # e) # es))"

lemma Split_nonempty [simp]: "Split s sep \<noteq> []"
  by (cases s) (auto split: list.splits)

lemma Split_none: "sep \<notin> set s \<Longrightarrow> Split s sep = [s]"
  by (induction s) auto

lemma Split_append: "sep \<notin> set s \<Longrightarrow> Split (s @ sep # t) sep = s # Split t sep"
  by (induction s) auto

lemma Split_pieces: "p \<in> set (Split s sep) \<Longrightarrow> sep \<notin> set p"
  by (induction s arbitrary: p) (fastforce split: list.splits if_splits)+

text \<open>\<^verbatim>\<open>strings.Join\<close>.\<close>

fun Join :: "string list \<Rightarrow> string \<Rightarrow> string" where
  "Join [] sep = []"
| "Join [x] sep = x"
| "Join (x # y # ys) sep = x @ sep @ Join (y # ys) sep"

lemma Join_Cons: "xs \<noteq> [] \<Longrightarrow> Join (x # xs) sep = x @ sep @ Join xs sep"
  by (cases xs) auto

lemma Join_Split: "Join (Split s sep) [sep] = s"
proof (induction s)
  case (Cons c s)
  obtain e es where "Split s sep = e # es" by (cases "Split s sep") auto
  with Cons show ?case by (cases es) (auto simp: Join_Cons)
qed simp

lemma Split_Join: "xs \<noteq> [] \<Longrightarrow> \<forall>x \<in> set xs. sep \<notin> set x \<Longrightarrow> Split (Join xs [sep]) sep = xs"
  by (induction xs "[sep]" rule: Join.induct) (auto simp: Split_none Split_append)

definition HasSuffix :: "string \<Rightarrow> string \<Rightarrow> bool" where
  "HasSuffix s t \<longleftrightarrow> length t \<le> length s \<and> drop (length s - length t) s = t"

lemma HasSuffix_iff: "HasSuffix s t \<longleftrightarrow> (\<exists>r. s = r @ t)"
proof
  assume "HasSuffix s t"
  then have "s = take (length s - length t) s @ t"
    unfolding HasSuffix_def by (metis append_take_drop_id)
  then show "\<exists>r. s = r @ t" ..
qed (auto simp: HasSuffix_def)

definition TrimSuffix :: "string \<Rightarrow> string \<Rightarrow> string" where
  "TrimSuffix s t = (if HasSuffix s t then take (length s - length t) s else s)"

subsection \<open>Numbers and quotes\<close>

text \<open>\<^verbatim>\<open>%d\<close> of an int.\<close>

definition Itoa :: "int \<Rightarrow> string" where
  "Itoa i = (if i < 0 then ''-'' @ show_nat (nat (- i)) else show_nat (nat i))"

definition hex_digit :: "nat \<Rightarrow> char" where
  "hex_digit n = (if n < 10 then char_of (48 + n) else char_of (87 + n))"

definition quote_char :: "char \<Rightarrow> string" where
  "quote_char c =
     (if c = CHR 0x22 \<or> c = CHR 0x5C then [CHR 0x5C, c]
      else if c = CHR 0x07 then [CHR 0x5C, CHR ''a'']
      else if c = CHR 0x08 then [CHR 0x5C, CHR ''b'']
      else if c = CHR 0x0C then [CHR 0x5C, CHR ''f'']
      else if c = CHR 0x0A then [CHR 0x5C, CHR ''n'']
      else if c = CHR 0x0D then [CHR 0x5C, CHR ''r'']
      else if c = CHR 0x09 then [CHR 0x5C, CHR ''t'']
      else if c = CHR 0x0B then [CHR 0x5C, CHR ''v'']
      else if (of_char c :: nat) < 32 \<or> c = CHR 0x7F
      then [CHR 0x5C, CHR ''x'', hex_digit (of_char c div 16), hex_digit (of_char c mod 16)]
      else [c])"

definition Quote :: "string \<Rightarrow> string" where
  "Quote s = CHR 0x22 # concat (map quote_char s) @ [CHR 0x22]"

lemma quote_char_length: "length (quote_char c) \<le> 4"
  by (simp add: quote_char_def)

lemma Quote_length: "length (Quote s) \<le> 4 * length s + 2"
proof -
  have "length (concat (map quote_char s)) \<le> 4 * length s"
  proof (induction s)
    case (Cons c s)
    then show ?case using quote_char_length [of c] by simp
  qed simp
  then show ?thesis by (simp add: Quote_def)
qed

subsection \<open>Cutting text\<close>

text \<open>\<^verbatim>\<open>utf8.RuneStart\<close>: not a continuation byte.\<close>

definition RuneStart :: "char \<Rightarrow> bool" where
  "RuneStart c \<longleftrightarrow> \<not> (128 \<le> (of_char c :: nat) \<and> (of_char c :: nat) < 192)"

fun back_to_rune :: "string \<Rightarrow> nat \<Rightarrow> nat" where
  "back_to_rune s 0 = 0"
| "back_to_rune s (Suc k) = (if RuneStart (s ! Suc k) then Suc k else back_to_rune s k)"

definition truncatedSuffix :: string where "truncatedSuffix = ''... (truncated)''"

definition Truncate :: "string \<Rightarrow> nat \<Rightarrow> string" where
  "Truncate s maxLen =
     (if length s \<le> maxLen then s
      else take (back_to_rune s (maxLen - length truncatedSuffix)) s @ truncatedSuffix)"

lemma back_to_rune_le: "back_to_rune s k \<le> k"
  by (induction k) auto

lemma Truncate_length: "length truncatedSuffix \<le> maxLen \<Longrightarrow> length (Truncate s maxLen) \<le> maxLen"
  using back_to_rune_le [of s "maxLen - length truncatedSuffix"] by (auto simp: Truncate_def)

end
