(* ===== verification/Gateway_Auth.thy ===== *)
theory Gateway_Auth
  imports Go_Text
begin

text \<open>
  Who is calling: the workload identity in a client certificate
  (\<^verbatim>\<open>src/internal/gateway/identity.go\<close>), the per-path authentication of the cluster
  listener (\<^verbatim>\<open>auth.go\<close>) and the cached TokenReview of the gateway-only tier
  (\<^verbatim>\<open>tokenauth.go\<close>).

  A request is the record \<open>httpRequest\<close> of what the code reads of it; a middleware returns
  either the response it writes or the caller it hands to the next handler. The Pod lookups of
  the store, the TokenReview API, SHA-256 and the decoder of a JWT payload are arguments.
\<close>

subsection \<open>Responses\<close>

record errorBody =
  eb_Type :: string
  eb_Message :: string
  eb_Provider :: string
  eb_Retryable :: bool

text \<open>What \<^verbatim>\<open>writeError\<close> sends: a \<^verbatim>\<open>Retry-After\<close> header only when positive.\<close>

record httpError =
  he_Status :: int
  he_Body :: errorBody
  he_RetryAfter :: "int option"

definition writeError :: "int \<Rightarrow> errorBody \<Rightarrow> int \<Rightarrow> httpError" where
  "writeError status body retryAfter =
     \<lparr>he_Status = status, he_Body = body, he_RetryAfter = (if retryAfter > 0 then Some retryAfter else None)\<rparr>"

definition plainBody :: "string \<Rightarrow> string \<Rightarrow> errorBody" where
  "plainBody t msg = \<lparr>eb_Type = t, eb_Message = msg, eb_Provider = [], eb_Retryable = False\<rparr>"

definition errUnauthorized :: string where "errUnauthorized = ''unauthorized''"
definition errAccessDenied :: string where "errAccessDenied = ''access_denied''"
definition errInvalidCert :: string where "errInvalidCert = ''invalid_cert''"
definition errInvalidRequest :: string where "errInvalidRequest = ''invalid_request''"
definition errInternalUnavailable :: string where "errInternalUnavailable = ''internal_unavailable''"

definition unauthorized :: "string \<Rightarrow> httpError" where
  "unauthorized msg = writeError 401 (plainBody errUnauthorized msg) 0"

definition forbidden :: "string \<Rightarrow> string \<Rightarrow> httpError" where
  "forbidden errType msg = writeError 403 (plainBody errType msg) 0"

definition badRequest :: "string \<Rightarrow> httpError" where
  "badRequest msg = writeError 400 (plainBody errInvalidRequest msg) 0"

subsection \<open>Workload identity\<close>

datatype WorkloadKind = KindAgent | KindAgentTask

record Identity =
  id_Namespace :: string
  id_Name :: string
  id_Kind :: WorkloadKind

datatype sanError = errNoRecognizedSAN | errMultipleRecognizedSANs | errBadLabelCount

fun sanErrorText :: "sanError \<Rightarrow> string" where
  "sanErrorText errNoRecognizedSAN = ''no recognized workload SAN''"
| "sanErrorText errMultipleRecognizedSANs = ''multiple recognized workload SANs''"
| "sanErrorText errBadLabelCount = ''recognized SAN has the wrong label count''"

definition AgentSANSuffix :: string where "AgentSANSuffix = ''svc.cluster.local''"
definition TaskSANSuffix :: string where "TaskSANSuffix = ''task.kaalm.io''"
definition AgentSANLabels :: nat where "AgentSANLabels = 5"
definition TaskSANLabels :: nat where "TaskSANLabels = 5"

definition scan_san :: "string \<Rightarrow> Identity list \<times> bool \<Rightarrow> Identity list \<times> bool" where
  "scan_san san = (\<lambda>(matched, badCount).
     let labels = Split san (CHR ''.'')
     in if HasSuffix san (''.'' @ AgentSANSuffix) then
          (if length labels \<noteq> AgentSANLabels then (matched, True)
           else (matched @ [\<lparr>id_Namespace = labels ! 1, id_Name = labels ! 0, id_Kind = KindAgent\<rparr>], badCount))
        else if HasSuffix san (''.'' @ TaskSANSuffix) then
          (if length labels \<noteq> TaskSANLabels then (matched, True)
           else (matched @ [\<lparr>id_Namespace = labels ! 1, id_Name = labels ! 0, id_Kind = KindAgentTask\<rparr>], badCount))
        else (matched, badCount))"

definition ParseWorkloadSAN :: "string list \<Rightarrow> sanError + Identity" where
  "ParseWorkloadSAN dnsNames =
     (let (matched, badCount) = fold scan_san dnsNames ([], False)
      in case matched of
           [i] \<Rightarrow> Inr i
         | _ # _ # _ \<Rightarrow> Inl errMultipleRecognizedSANs
         | [] \<Rightarrow> Inl (if badCount then errBadLabelCount else errNoRecognizedSAN))"

definition isServiceCert :: "string list \<Rightarrow> string \<Rightarrow> string \<Rightarrow> bool" where
  "isServiceCert dnsNames service operatorNamespace \<longleftrightarrow>
     (let long = service @ ''.'' @ operatorNamespace @ ''.svc.cluster.local'';
          short = service @ ''.'' @ operatorNamespace @ ''.svc''
      in \<exists>san \<in> set dnsNames. san = long \<or> san = short)"

definition IsControllerCert :: "string list \<Rightarrow> string \<Rightarrow> bool" where
  "IsControllerCert dnsNames operatorNamespace = isServiceCert dnsNames ''kaalm-controller'' operatorNamespace"

definition IsConsoleCert :: "string list \<Rightarrow> string \<Rightarrow> bool" where
  "IsConsoleCert dnsNames operatorNamespace = isServiceCert dnsNames ''kaalm-console'' operatorNamespace"

subsection \<open>Bearer tokens\<close>

text \<open>
  A cache entry for a token's hash. \<open>review\<close> is the TokenReview API: an error, or the username
  and whether it is authenticated. \<open>payload\<close> decodes the middle part of a JWT.
\<close>

record tokenCacheEntry =
  tc_namespace :: string
  tc_expires :: gotime

datatype reviewAnswer = ReviewFailed | Reviewed string bool

definition tokenCacheMaxTTL :: duration where "tokenCacheMaxTTL = 5 * minute"
definition tokenCacheSafetyMargin :: duration where "tokenCacheSafetyMargin = 60 * second"

definition namespaceFromUsername :: "string \<Rightarrow> string option" where
  "namespaceFromUsername username =
     (let parts = Split username (CHR '':'')
      in if length parts \<noteq> 4 \<or> parts ! 0 \<noteq> ''system'' \<or> parts ! 1 \<noteq> ''serviceaccount'' \<or> parts ! 2 = []
         then None else Some (parts ! 2))"

text \<open>
  The claim is an \<^verbatim>\<open>int64\<close>: a number that is not one is a decoding error. A JSON number is its
  value here, so an integer written with a fraction or an exponent is not told apart.
\<close>

definition exp_claim :: "json \<Rightarrow> int option" where
  "exp_claim j =
     (case j of
        JNumber n \<Rightarrow> if n \<in> \<int> \<and> - (2 ^ 63) \<le> n \<and> n < 2 ^ 63 then Some \<lfloor>n\<rfloor> else None
      | _ \<Rightarrow> None)"

fun exp_members :: "(string \<times> json) list \<Rightarrow> int \<Rightarrow> int option" where
  "exp_members [] old = Some old"
| "exp_members ((k, j) # ms) old =
     (if EqualFold k ''exp'' then
        (case j of JNull \<Rightarrow> exp_members ms old
         | _ \<Rightarrow> (case exp_claim j of None \<Rightarrow> None | Some n \<Rightarrow> exp_members ms n))
      else exp_members ms old)"

definition jwtExpiry :: "(string \<Rightarrow> jsontext option) \<Rightarrow> string \<Rightarrow> gotime option" where
  "jwtExpiry payload token =
     (let parts = Split token (CHR ''.'')
      in if length parts \<noteq> 3 then None
         else case payload (parts ! 1) of
             Some (Some (JObject ms)) \<Rightarrow>
               (case exp_members ms 0 of
                  None \<Rightarrow> None
                | Some e \<Rightarrow> if e = 0 then None else Some (e * second))
           | _ \<Rightarrow> None)"

text \<open>
  A duration is an \<^verbatim>\<open>int64\<close>: \<^verbatim>\<open>Time.Sub\<close> saturates, and subtracting two durations wraps.
\<close>

definition time_Sub :: "gotime \<Rightarrow> gotime \<Rightarrow> duration" where
  "time_Sub a b = max (- (2 ^ 63)) (min (2 ^ 63 - 1) (a - b))"

definition wrap64 :: "int \<Rightarrow> int" where
  "wrap64 x = (x + 2 ^ 63) mod 2 ^ 64 - 2 ^ 63"

lemma wrap64_id: "- (2 ^ 63) \<le> x \<Longrightarrow> x < 2 ^ 63 \<Longrightarrow> wrap64 x = x"
  by (simp add: wrap64_def)

definition cacheTTL :: "(string \<Rightarrow> jsontext option) \<Rightarrow> string \<Rightarrow> gotime \<Rightarrow> duration" where
  "cacheTTL payload token now =
     (case jwtExpiry payload token of
        None \<Rightarrow> tokenCacheMaxTTL
      | Some e \<Rightarrow>
          (let ttl = wrap64 (time_Sub e now - tokenCacheSafetyMargin)
           in if ttl > tokenCacheMaxTTL then tokenCacheMaxTTL else if ttl < 0 then 0 else ttl))"

text \<open>
  \<open>Authenticate\<close> reads the clock for the cache hit (\<open>now\<close>) and again after the review
  (\<open>now'\<close>). \<open>Inl\<close> is an unreachable API, \<open>Inr None\<close> a rejected token.
\<close>

definition review_token ::
  "(string \<Rightarrow> 'h) \<Rightarrow> (string \<Rightarrow> jsontext option) \<Rightarrow> (string \<Rightarrow> reviewAnswer) \<Rightarrow> gotime \<Rightarrow> string
    \<Rightarrow> ('h, tokenCacheEntry) gomap \<Rightarrow> ('h, tokenCacheEntry) gomap \<times> (unit + string option)" where
  "review_token sum256 payload review now token cache =
     (case review token of
        ReviewFailed \<Rightarrow> (cache, Inl ())
      | Reviewed username authenticated \<Rightarrow>
          if \<not> authenticated then (cache, Inr None)
          else case namespaceFromUsername username of
              None \<Rightarrow> (cache, Inr None)
            | Some ns \<Rightarrow>
                (AList.update (sum256 token) \<lparr>tc_namespace = ns, tc_expires = now + cacheTTL payload token now\<rparr> cache,
                 Inr (Some ns)))"

definition Authenticate ::
  "(string \<Rightarrow> 'h) \<Rightarrow> (string \<Rightarrow> jsontext option) \<Rightarrow> (string \<Rightarrow> reviewAnswer) \<Rightarrow> gotime \<Rightarrow> gotime \<Rightarrow> string
    \<Rightarrow> ('h, tokenCacheEntry) gomap \<Rightarrow> ('h, tokenCacheEntry) gomap \<times> (unit + string option)" where
  "Authenticate sum256 payload review now now' token cache =
     (case map_of cache (sum256 token) of
        Some entry \<Rightarrow>
          if now < tc_expires entry then (cache, Inr (Some (tc_namespace entry)))
          else review_token sum256 payload review now' token cache
      | None \<Rightarrow> review_token sum256 payload review now' token cache)"

definition bearerToken :: "string \<Rightarrow> string option" where
  "bearerToken header =
     (case CutPrefix header ''Bearer '' of
        None \<Rightarrow> None
      | Some t \<Rightarrow> if t = [] then None else Some t)"

subsection \<open>The per-path middleware\<close>

text \<open>
  Of a Pod the code reads the namespace, the API group and kind of its owner references (no group
  where the API version does not parse) and the labels.
\<close>

record pod =
  pod_Namespace :: string
  pod_Owners :: "(string option \<times> string) list"
  pod_Labels :: "(string, string) gomap"

definition isKaalmManagedPod :: "pod \<Rightarrow> bool" where
  "isKaalmManagedPod p \<longleftrightarrow>
     (\<exists>(group, kind) \<in> set (pod_Owners p). group = Some ''kaalm.io'' \<and> (kind = ''Agent'' \<or> kind = ''AgentTask''))
     \<or> map_of (pod_Labels p) ''kaalm.io/workload'' \<noteq> None"

text \<open>
  The part of \<^verbatim>\<open>net.SplitHostPort\<close> the code uses, the host; \<open>None\<close> is an address error.
\<close>

definition last_colon :: "string \<Rightarrow> nat option" where
  "last_colon s = (if CHR '':'' \<in> set s then Some (length s - 1 - length (takeWhile (\<lambda>c. c \<noteq> CHR '':'') (rev s))) else None)"

definition SplitHost :: "string \<Rightarrow> string option" where
  "SplitHost s =
     (case last_colon s of
        None \<Rightarrow> None
      | Some i \<Rightarrow>
          if s ! 0 = CHR ''['' then
            (let e = length (takeWhile (\<lambda>c. c \<noteq> CHR '']'') s)
             in if e = length s \<or> e + 1 = length s \<or> e + 1 \<noteq> i then None
                else if CHR ''['' \<in> set (drop 1 s) \<or> CHR '']'' \<in> set (drop (e + 1) s) then None
                else Some (drop 1 (take e s)))
          else if CHR '':'' \<in> set (take i s) then None
          else if CHR ''['' \<in> set s \<or> CHR '']'' \<in> set s then None
          else Some (take i s))"

record httpRequest =
  rq_PeerDNSNames :: "string list option"
  rq_Authorization :: string
  rq_RemoteAddr :: string

definition sourceIP :: "httpRequest \<Rightarrow> string" where
  "sourceIP r = (case SplitHost (rq_RemoteAddr r) of None \<Rightarrow> rq_RemoteAddr r | Some host \<Rightarrow> host)"

record Authenticator =
  au_OperatorNamespace :: string
  au_DisableSourceIPCheck :: bool

record caller =
  cl_Namespace :: string
  cl_Workload :: "Identity option"

text \<open>
  The store's Pod lookup is indexed by the number of the read within one request, since the
  informer may learn of a Pod between two reads; \<open>podByIPLive\<close> is the live list.
\<close>

type_synonym podLookup = "nat \<Rightarrow> string \<Rightarrow> pod option"

definition crossCheck :: "Authenticator \<Rightarrow> podLookup \<Rightarrow> httpRequest \<Rightarrow> string \<Rightarrow> bool" where
  "crossCheck a podByIP r namespace \<longleftrightarrow>
     (if au_DisableSourceIPCheck a then True
      else case podByIP 0 (sourceIP r) of None \<Rightarrow> False | Some p \<Rightarrow> pod_Namespace p = namespace)"

definition crossCheckLive ::
  "Authenticator \<Rightarrow> podLookup \<Rightarrow> (string \<Rightarrow> string \<Rightarrow> pod option) \<Rightarrow> httpRequest \<Rightarrow> string \<Rightarrow> bool" where
  "crossCheckLive a podByIP podByIPLive r namespace \<longleftrightarrow>
     (if au_DisableSourceIPCheck a then True
      else case (case podByIP 0 (sourceIP r) of Some p \<Rightarrow> Some p | None \<Rightarrow> podByIPLive namespace (sourceIP r)) of
          None \<Rightarrow> False | Some p \<Rightarrow> pod_Namespace p = namespace)"

definition workloadCaller :: "Identity \<Rightarrow> caller" where
  "workloadCaller i = \<lparr>cl_Namespace = id_Namespace i, cl_Workload = Some i\<rparr>"

definition msgSourceIP :: string where
  "msgSourceIP = ''source IP does not match the authenticated namespace''"

definition msgManaged :: string where
  "msgManaged = ''Kaalm-managed Pods must authenticate with mTLS''"

text \<open>The bearer half of \<^verbatim>\<open>DualModePaths\<close>; \<open>auth\<close> is \<open>Authenticate\<close> on the listener's cache.\<close>

definition bearerMode ::
  "Authenticator \<Rightarrow> podLookup \<Rightarrow> (string \<Rightarrow> 'c \<times> (unit + string option)) \<Rightarrow> 'c \<Rightarrow> httpRequest
    \<Rightarrow> 'c \<times> (httpError + caller)" where
  "bearerMode a podByIP auth cache r =
     (case bearerToken (rq_Authorization r) of
        None \<Rightarrow> (cache, Inl (unauthorized ''no client certificate or bearer token presented''))
      | Some token \<Rightarrow>
          let first = (if au_DisableSourceIPCheck a then None else podByIP 0 (sourceIP r))
          in if (case first of None \<Rightarrow> False | Some p \<Rightarrow> isKaalmManagedPod p) then (cache, Inl (unauthorized msgManaged))
             else
               let (cache, answer) = auth token
               in (cache,
                   case answer of
                     Inl _ \<Rightarrow> Inl (writeError 503 ((plainBody errInternalUnavailable ''TokenReview unavailable'')\<lparr>eb_Retryable := True\<rparr>) 1)
                   | Inr None \<Rightarrow> Inl (unauthorized ''token rejected'')
                   | Inr (Some ns) \<Rightarrow>
                       if au_DisableSourceIPCheck a then Inr \<lparr>cl_Namespace = ns, cl_Workload = None\<rparr>
                       else
                         let found = (case first of Some p \<Rightarrow> Some p | None \<Rightarrow> podByIP 1 (sourceIP r))
                         in if first = None \<and> (case found of None \<Rightarrow> False | Some p \<Rightarrow> isKaalmManagedPod p)
                            then Inl (unauthorized msgManaged)
                            else case found of
                                None \<Rightarrow> Inl (unauthorized msgSourceIP)
                              | Some p \<Rightarrow>
                                  if pod_Namespace p \<noteq> ns then Inl (unauthorized msgSourceIP)
                                  else Inr \<lparr>cl_Namespace = ns, cl_Workload = None\<rparr>))"

definition DualModePaths ::
  "Authenticator \<Rightarrow> podLookup \<Rightarrow> (string \<Rightarrow> 'c \<times> (unit + string option)) \<Rightarrow> 'c \<Rightarrow> httpRequest
    \<Rightarrow> 'c \<times> (httpError + caller)" where
  "DualModePaths a podByIP auth cache r =
     (case rq_PeerDNSNames r of
        Some names \<Rightarrow>
          (cache,
           case ParseWorkloadSAN names of
             Inl e \<Rightarrow> Inl (forbidden errInvalidCert (sanErrorText e))
           | Inr i \<Rightarrow>
               if \<not> crossCheck a podByIP r (id_Namespace i) then Inl (unauthorized msgSourceIP)
               else Inr (workloadCaller i))
      | None \<Rightarrow> bearerMode a podByIP auth cache r)"

fun kindText :: "WorkloadKind \<Rightarrow> string" where
  "kindText KindAgent = ''Agent''"
| "kindText KindAgentTask = ''AgentTask''"

definition AgentReportPaths ::
  "Authenticator \<Rightarrow> podLookup \<Rightarrow> (string \<Rightarrow> string \<Rightarrow> pod option) \<Rightarrow> WorkloadKind \<Rightarrow> httpRequest \<Rightarrow> httpError + caller" where
  "AgentReportPaths a podByIP podByIPLive requiredKind r =
     (case rq_PeerDNSNames r of
        None \<Rightarrow> Inl (unauthorized ''client certificate required'')
      | Some names \<Rightarrow>
          (case ParseWorkloadSAN names of
             Inl e \<Rightarrow> Inl (forbidden errInvalidCert (sanErrorText e))
           | Inr i \<Rightarrow>
               if id_Kind i \<noteq> requiredKind then
                 (let msg = kindText (id_Kind i) @ '' callers are not accepted on this path'';
                      msg = (if requiredKind = KindAgentTask then ''NotAgentTaskPod: '' @ msg else msg)
                  in Inl (forbidden errAccessDenied msg))
               else if \<not> (if requiredKind = KindAgentTask then crossCheckLive a podByIP podByIPLive r (id_Namespace i)
                          else crossCheck a podByIP r (id_Namespace i))
               then Inl (unauthorized msgSourceIP)
               else Inr (workloadCaller i)))"

definition servicePaths ::
  "(string list \<Rightarrow> string \<Rightarrow> bool) \<Rightarrow> string \<Rightarrow> Authenticator \<Rightarrow> podLookup \<Rightarrow> httpRequest \<Rightarrow> httpError + unit" where
  "servicePaths isCert who a podByIP r =
     (case rq_PeerDNSNames r of
        None \<Rightarrow> Inl (unauthorized ''client certificate required'')
      | Some names \<Rightarrow>
          if \<not> isCert names (au_OperatorNamespace a)
          then Inl (forbidden errAccessDenied (''this path requires the '' @ who @ '' identity''))
          else if \<not> crossCheck a podByIP r (au_OperatorNamespace a)
          then Inl (unauthorized ''source IP does not match the operator namespace'')
          else Inr ())"

definition ControllerPaths :: "Authenticator \<Rightarrow> podLookup \<Rightarrow> httpRequest \<Rightarrow> httpError + unit" where
  "ControllerPaths = servicePaths IsControllerCert ''controller''"

definition ConsolePaths :: "Authenticator \<Rightarrow> podLookup \<Rightarrow> httpRequest \<Rightarrow> httpError + unit" where
  "ConsolePaths = servicePaths IsConsoleCert ''console''"

subsection \<open>The names the controller issues\<close>

text \<open>
  The SAN lists of \<^verbatim>\<open>desiredCertificate\<close> and \<^verbatim>\<open>desiredTaskCertificate\<close>
  (\<^verbatim>\<open>src/internal/controller/agent_desired.go\<close>, \<^verbatim>\<open>agenttask_desired.go\<close>).
\<close>

definition agentSANs :: "string \<Rightarrow> string \<Rightarrow> string list" where
  "agentSANs name ns = [name @ ''.'' @ ns @ ''.svc.cluster.local'', name @ ''.'' @ ns @ ''.svc'', name @ ''.'' @ ns]"

definition taskSANs :: "string \<Rightarrow> string \<Rightarrow> string list" where
  "taskSANs name ns = [name @ ''.'' @ ns @ ''.'' @ TaskSANSuffix]"

subsection \<open>Recognized names\<close>

lemma Split_sep: "Split (s @ sep # t) sep = Split s sep @ Split t sep"
proof (induction s)
  case (Cons c s)
  then show ?case by (cases "Split s sep") auto
qed simp

lemma Split_suffix [simp]: "Split AgentSANSuffix (CHR ''.'') = [''svc'', ''cluster'', ''local'']"
  "Split TaskSANSuffix (CHR ''.'') = [''task'', ''kaalm'', ''io'']"
  by (simp_all add: AgentSANSuffix_def TaskSANSuffix_def)

text \<open>The identity one name carries: the suffix and the exact number of labels.\<close>

definition recognized :: "string \<Rightarrow> Identity option" where
  "recognized san =
     (let labels = Split san (CHR ''.'')
      in if length labels \<noteq> 5 then None
         else if HasSuffix san (''.'' @ AgentSANSuffix)
         then Some \<lparr>id_Namespace = labels ! 1, id_Name = labels ! 0, id_Kind = KindAgent\<rparr>
         else if HasSuffix san (''.'' @ TaskSANSuffix)
         then Some \<lparr>id_Namespace = labels ! 1, id_Name = labels ! 0, id_Kind = KindAgentTask\<rparr>
         else None)"

fun suffixOf :: "WorkloadKind \<Rightarrow> string" where
  "suffixOf KindAgent = AgentSANSuffix"
| "suffixOf KindAgentTask = TaskSANSuffix"

lemma five_labels:
  assumes "HasSuffix san (''.'' @ suf)" "length (Split suf (CHR ''.'')) = 3" "length (Split san (CHR ''.'')) = 5"
  shows "san = Split san (CHR ''.'') ! 0 @ ''.'' @ Split san (CHR ''.'') ! 1 @ ''.'' @ suf"
proof -
  obtain r where r: "san = r @ CHR ''.'' # suf"
    using assms(1) by (auto simp: HasSuffix_iff)
  then have sp: "Split san (CHR ''.'') = Split r (CHR ''.'') @ Split suf (CHR ''.'')"
    by (simp add: Split_sep)
  then have "length (Split r (CHR ''.'')) = 2"
    using assms(2,3) by simp
  then obtain a b where ab: "Split r (CHR ''.'') = [a, b]"
    by (auto simp: numeral_2_eq_2 length_Suc_conv)
  then have "r = a @ ''.'' @ b"
    using Join_Split [of r "CHR ''.''"] by simp
  then show ?thesis using r sp ab by simp
qed

lemma recognized_name:
  assumes "recognized san = Some i"
  shows "san = id_Name i @ ''.'' @ id_Namespace i @ ''.'' @ suffixOf (id_Kind i)
    \<and> CHR ''.'' \<notin> set (id_Name i) \<and> CHR ''.'' \<notin> set (id_Namespace i)"
proof -
  have len: "length (Split san (CHR ''.'')) = 5"
    using assms by (auto simp: recognized_def Let_def split: if_splits)
  have piece: "CHR ''.'' \<notin> set (Split san (CHR ''.'') ! k)" if "k < 5" for k
    using that len by (intro Split_pieces [of _ san]) simp
  have "CHR ''.'' \<notin> set (Split san (CHR ''.'') ! 0)" "CHR ''.'' \<notin> set (Split san (CHR ''.'') ! 1)"
    using piece by simp_all
  then show ?thesis
    using assms five_labels [of san AgentSANSuffix] five_labels [of san TaskSANSuffix] len
    by (auto simp: recognized_def Let_def split: if_splits)
qed

lemma scan_san_recognized:
  "scan_san san (m, b) = (m @ (case recognized san of None \<Rightarrow> [] | Some i \<Rightarrow> [i]),
     b \<or> (recognized san = None \<and> (HasSuffix san (''.'' @ AgentSANSuffix) \<or> HasSuffix san (''.'' @ TaskSANSuffix))))"
  by (auto simp: scan_san_def recognized_def AgentSANLabels_def TaskSANLabels_def Let_def)

lemma scan_sans: "fst (fold scan_san names (m, b)) = m @ List.map_filter recognized names"
  by (induction names arbitrary: m b) (auto simp: scan_san_recognized map_filter_simps split: option.splits)

lemma ParseWorkloadSAN_iff: "ParseWorkloadSAN names = Inr i \<longleftrightarrow> List.map_filter recognized names = [i]"
  using scan_sans [of names "[]" False]
  by (auto simp: ParseWorkloadSAN_def split_def split: list.splits)

lemma recognized_issued:
  assumes "CHR ''.'' \<notin> set name" "CHR ''.'' \<notin> set ns"
  shows "recognized (name @ ''.'' @ ns @ ''.svc.cluster.local'') = Some \<lparr>id_Namespace = ns, id_Name = name, id_Kind = KindAgent\<rparr>"
    "recognized (name @ ''.'' @ ns @ ''.'' @ TaskSANSuffix) = Some \<lparr>id_Namespace = ns, id_Name = name, id_Kind = KindAgentTask\<rparr>"
    "recognized (name @ ''.'' @ ns @ ''.svc'') = None" "recognized (name @ ''.'' @ ns) = None"
proof -
  have sp: "Split (name @ ''.'' @ ns @ CHR ''.'' # t) (CHR ''.'') = [name, ns] @ Split t (CHR ''.'')" for t
    using assms by (simp add: Split_append)
  have suf: "HasSuffix (name @ ''.'' @ ns @ ''.'' @ t) (''.'' @ t)" for t
    by (auto simp: HasSuffix_iff)
  have nt: "\<not> HasSuffix (name @ ''.'' @ ns @ ''.'' @ TaskSANSuffix) (''.'' @ AgentSANSuffix)"
    by (auto simp: HasSuffix_iff AgentSANSuffix_def TaskSANSuffix_def append_eq_append_conv2 append_eq_Cons_conv)
  show "recognized (name @ ''.'' @ ns @ ''.svc.cluster.local'') = Some \<lparr>id_Namespace = ns, id_Name = name, id_Kind = KindAgent\<rparr>"
    using sp [of AgentSANSuffix] suf [of AgentSANSuffix] by (simp add: recognized_def AgentSANSuffix_def)
  show "recognized (name @ ''.'' @ ns @ ''.'' @ TaskSANSuffix) = Some \<lparr>id_Namespace = ns, id_Name = name, id_Kind = KindAgentTask\<rparr>"
    using sp [of TaskSANSuffix] suf [of TaskSANSuffix] nt by (simp add: recognized_def)
  show "recognized (name @ ''.'' @ ns @ ''.svc'') = None"
    using sp [of "''svc''"] by (simp add: recognized_def)
  show "recognized (name @ ''.'' @ ns) = None"
    using assms by (simp add: recognized_def Split_append Split_none)
qed

text \<open>Two undotted pairs joined by a dot and followed by dotted tails agree only piece by piece.\<close>

lemma dotted_eq:
  assumes "CHR ''.'' \<notin> set a" "CHR ''.'' \<notin> set a'" "CHR ''.'' \<notin> set b" "CHR ''.'' \<notin> set b'"
  shows "a @ ''.'' @ b @ t = a' @ ''.'' @ b' @ t' \<and> (t = [] \<or> hd t = CHR ''.'') \<and> (t' = [] \<or> hd t' = CHR ''.'') \<longrightarrow>
    a = a' \<and> b = b' \<and> t = t'"
proof (intro impI)
  assume eq: "a @ ''.'' @ b @ t = a' @ ''.'' @ b' @ t' \<and> (t = [] \<or> hd t = CHR ''.'') \<and> (t' = [] \<or> hd t' = CHR ''.'')"
  have sp: "Split (x @ ''.'' @ y @ z) (CHR ''.'') = x # y # (if z = [] then [] else Split (tl z) (CHR ''.''))"
    if "CHR ''.'' \<notin> set x" "CHR ''.'' \<notin> set y" "z = [] \<or> hd z = CHR ''.''" for x y z
    using that by (cases z) (auto simp: Split_append Split_none)
  have "a = a'" "b = b'"
    using sp [of a b t] sp [of a' b' t'] assms eq by auto
  then show "a = a' \<and> b = b' \<and> t = t'" using eq by simp
qed

lemma service_names:
  assumes "CHR ''.'' \<notin> set name" "CHR ''.'' \<notin> set ns" "CHR ''.'' \<notin> set op" "CHR ''.'' \<notin> set service"
  shows "name @ ''.'' @ ns @ ''.svc.cluster.local'' = service @ ''.'' @ op @ ''.svc.cluster.local'' \<longleftrightarrow> name = service \<and> ns = op"
    "name @ ''.'' @ ns @ ''.svc.cluster.local'' \<noteq> service @ ''.'' @ op @ ''.svc''"
    "name @ ''.'' @ ns @ ''.svc'' = service @ ''.'' @ op @ ''.svc'' \<longleftrightarrow> name = service \<and> ns = op"
    "name @ ''.'' @ ns @ ''.svc'' \<noteq> service @ ''.'' @ op @ ''.svc.cluster.local''"
    "name @ ''.'' @ ns \<noteq> service @ ''.'' @ op @ ''.svc''"
    "name @ ''.'' @ ns \<noteq> service @ ''.'' @ op @ ''.svc.cluster.local''"
    "name @ ''.'' @ ns @ ''.'' @ TaskSANSuffix \<noteq> service @ ''.'' @ op @ ''.svc''"
    "name @ ''.'' @ ns @ ''.'' @ TaskSANSuffix \<noteq> service @ ''.'' @ op @ ''.svc.cluster.local''"
  using dotted_eq [OF assms(1,4,2,3), of "''.svc.cluster.local''" "''.svc.cluster.local''"]
    dotted_eq [OF assms(1,4,2,3), of "''.svc.cluster.local''" "''.svc''"] dotted_eq [OF assms(1,4,2,3), of "''.svc''" "''.svc''"]
    dotted_eq [OF assms(1,4,2,3), of "''.svc''" "''.svc.cluster.local''"] dotted_eq [OF assms(1,4,2,3), of "[]" "''.svc''"]
    dotted_eq [OF assms(1,4,2,3), of "[]" "''.svc.cluster.local''"] dotted_eq [OF assms(1,4,2,3), of "''.'' @ TaskSANSuffix" "''.svc''"]
    dotted_eq [OF assms(1,4,2,3), of "''.'' @ TaskSANSuffix" "''.svc.cluster.local''"]
  by (auto simp: TaskSANSuffix_def)

lemma map_filter_single:
  "List.map_filter f xs = [y] \<Longrightarrow> \<exists>x. filter (\<lambda>x. f x \<noteq> None) xs = [x] \<and> f x = Some y"
proof (induction xs)
  case (Cons x xs)
  have "filter (\<lambda>x. f x \<noteq> None) xs = []" if "List.map_filter f xs = []"
    using that by (induction xs) (auto simp: map_filter_simps split: option.splits)
  with Cons show ?case by (auto simp: map_filter_simps split: option.splits)
qed (simp add: map_filter_simps)

lemma bearerToken_some: "bearerToken h = Some t \<Longrightarrow> h = ''Bearer '' @ t"
  by (auto simp: bearerToken_def CutPrefix_Some split: option.splits if_splits)

lemma bearerMode_accepts:
  assumes acc: "bearerMode a podByIP auth cache r = (cache', Inr c)" and chk: "\<not> au_DisableSourceIPCheck a"
  shows "\<exists>token k p. bearerToken (rq_Authorization r) = Some token \<and> snd (auth token) = Inr (Some (cl_Namespace c))
    \<and> podByIP k (sourceIP r) = Some p \<and> pod_Namespace p = cl_Namespace c \<and> \<not> isKaalmManagedPod p \<and> cl_Workload c = None"
proof -
  obtain token where t: "bearerToken (rq_Authorization r) = Some token"
    using acc by (auto simp: bearerMode_def split: option.splits)
  obtain c2 answer where au: "auth token = (c2, answer)" by fastforce
  have nm: "\<not> (case podByIP 0 (sourceIP r) of None \<Rightarrow> False | Some p \<Rightarrow> isKaalmManagedPod p)"
    using acc t chk by (auto simp: bearerMode_def Let_def split: if_splits)
  obtain ns where ns: "answer = Inr (Some ns)"
    using acc t chk au nm by (auto simp: bearerMode_def Let_def split: if_splits sum.splits option.splits)
  show ?thesis
  proof (cases "podByIP 0 (sourceIP r)")
    case None
    then show ?thesis
      using acc t chk au ns nm
      by (auto simp: bearerMode_def Let_def intro!: exI [of _ "Suc 0"] split: option.splits if_splits)
  next
    case (Some p)
    then show ?thesis
      using acc t chk au ns nm by (auto simp: bearerMode_def Let_def intro!: exI [of _ 0] split: if_splits)
  qed
qed

subsection \<open>The token cache over time\<close>

text \<open>
  The caches a listener can have at time \<open>t\<close>: each call reviews at a time of its own, and the
  clock does not run backwards. \<open>review s\<close> is what the API answers at time \<open>s\<close>.
\<close>

inductive token_runs ::
  "(string \<Rightarrow> 'h) \<Rightarrow> (string \<Rightarrow> jsontext option) \<Rightarrow> (gotime \<Rightarrow> string \<Rightarrow> reviewAnswer) \<Rightarrow> gotime \<Rightarrow> ('h, tokenCacheEntry) gomap \<Rightarrow> bool"
  for sum256 payload review where
  start: "token_runs sum256 payload review t []"
| call: "token_runs sum256 payload review t cache \<Longrightarrow> t \<le> now \<Longrightarrow> now \<le> now' \<Longrightarrow>
    token_runs sum256 payload review now' (fst (Authenticate sum256 payload (review now') now now' token cache))"

text \<open>An entry comes from a review of the token it is stored for, and expires in time.\<close>

definition vouched ::
  "(string \<Rightarrow> jsontext option) \<Rightarrow> (gotime \<Rightarrow> string \<Rightarrow> reviewAnswer) \<Rightarrow> string \<Rightarrow> string \<Rightarrow> gotime \<Rightarrow> bool" where
  "vouched payload review token ns s \<longleftrightarrow>
     (\<exists>username. review s token = Reviewed username True \<and> namespaceFromUsername username = Some ns)"

definition cache_ok ::
  "(string \<Rightarrow> 'h) \<Rightarrow> (string \<Rightarrow> jsontext option) \<Rightarrow> (gotime \<Rightarrow> string \<Rightarrow> reviewAnswer) \<Rightarrow> gotime \<Rightarrow> ('h, tokenCacheEntry) gomap \<Rightarrow> bool" where
  "cache_ok sum256 payload review t cache \<longleftrightarrow>
     (\<forall>h entry. map_of cache h = Some entry \<longrightarrow>
        (\<exists>token s. h = sum256 token \<and> s \<le> t \<and> vouched payload review token (tc_namespace entry) s
           \<and> tc_expires entry = s + cacheTTL payload token s))"

lemma cache_ok_later: "cache_ok sum256 payload review t cache \<Longrightarrow> t \<le> t' \<Longrightarrow> cache_ok sum256 payload review t' cache"
  unfolding cache_ok_def by (meson order_trans)

lemma review_token_ok:
  assumes "cache_ok sum256 payload review t cache" "t \<le> now"
  shows "cache_ok sum256 payload review now (fst (review_token sum256 payload (review now) now token cache))"
proof -
  have later: "cache_ok sum256 payload review now cache"
    using assms by (rule cache_ok_later)
  show ?thesis
  proof (cases "fst (review_token sum256 payload (review now) now token cache) = cache")
    case False
    then obtain username ns where r: "review now token = Reviewed username True" "namespaceFromUsername username = Some ns"
      and c: "fst (review_token sum256 payload (review now) now token cache) =
        AList.update (sum256 token) \<lparr>tc_namespace = ns, tc_expires = now + cacheTTL payload token now\<rparr> cache"
      by (auto simp: review_token_def split: reviewAnswer.splits option.splits if_splits)
    show ?thesis
      unfolding cache_ok_def c
    proof (intro allI impI)
      fix h entry
      assume "map_of (AList.update (sum256 token) \<lparr>tc_namespace = ns, tc_expires = now + cacheTTL payload token now\<rparr> cache) h = Some entry"
      then have upd: "map_of (AList.update (sum256 token) \<lparr>tc_namespace = ns, tc_expires = now + cacheTTL payload token now\<rparr> cache) h = Some entry" .
      show "\<exists>token s. h = sum256 token \<and> s \<le> now \<and> vouched payload review token (tc_namespace entry) s
          \<and> tc_expires entry = s + cacheTTL payload token s"
      proof (cases "h = sum256 token")
        case True
        moreover have "vouched payload review token ns now" using r by (auto simp: vouched_def)
        ultimately show ?thesis
          using upd by (intro exI [of _ token] exI [of _ now]) (auto simp: gomap_simps)
      next
        case False
        then show ?thesis using later upd by (simp add: gomap_simps cache_ok_def)
      qed
    qed
  qed (simp add: later)
qed

lemma token_runs_ok: "token_runs sum256 payload review t cache \<Longrightarrow> cache_ok sum256 payload review t cache"
proof (induction rule: token_runs.induct)
  case (start t)
  then show ?case by (simp add: cache_ok_def)
next
  case (call t cache now now' token)
  then have "cache_ok sum256 payload review now' (fst (review_token sum256 payload (review now') now' token cache))"
    "cache_ok sum256 payload review now' cache"
    by (auto intro: review_token_ok cache_ok_later)
  then show ?case by (simp add: Authenticate_def split: option.split)
qed

lemma cacheTTL_bounds:
  assumes "s \<le> now" "now < s + cacheTTL payload token s"
  shows "now < s + tokenCacheMaxTTL"
    "jwtExpiry payload token = Some e \<Longrightarrow> tokenCacheSafetyMargin - 2 ^ 63 \<le> e - now \<Longrightarrow> now < e - tokenCacheSafetyMargin"
proof -
  show "now < s + tokenCacheMaxTTL"
    using assms by (auto simp: cacheTTL_def Let_def split: option.splits if_splits)
  assume e: "jwtExpiry payload token = Some e" "tokenCacheSafetyMargin - 2 ^ 63 \<le> e - now"
  have margin: "0 \<le> tokenCacheSafetyMargin" "tokenCacheSafetyMargin < 2 ^ 62" by (simp_all add: tokenCacheSafetyMargin_def second_def)
  have "wrap64 (time_Sub e s - tokenCacheSafetyMargin) = time_Sub e s - tokenCacheSafetyMargin"
    using e(2) assms(1) margin by (intro wrap64_id) (auto simp: time_Sub_def)
  moreover have "time_Sub e s \<le> e - s"
    using e(2) assms(1) margin by (auto simp: time_Sub_def)
  ultimately show "now < e - tokenCacheSafetyMargin"
    using e(1) assms by (auto simp: cacheTTL_def Let_def split: if_splits)
qed

subsection \<open>Properties\<close>

text \<open>
  C30. Whom the proxy and the tool broker accept. With the source check on, a caller is accepted
  only when a Pod with the request's source address lives in the caller's namespace. With a
  client certificate, the workload identity is read from exactly one of its names, which is the
  workload's name, its namespace and the suffix of its kind, none of them dotted. Without one,
  the Pod is not managed by Kaalm and the bearer token was accepted for the namespace.
\<close>

theorem dual_mode_identity:
  assumes "DualModePaths a podByIP auth cache r = (cache', Inr c)" "\<not> au_DisableSourceIPCheck a"
  shows "\<exists>p k. podByIP k (sourceIP r) = Some p \<and> pod_Namespace p = cl_Namespace c
    \<and> (case rq_PeerDNSNames r of
         Some names \<Rightarrow>
           (\<exists>i san. cl_Workload c = Some i \<and> id_Namespace i = cl_Namespace c
              \<and> filter (\<lambda>n. recognized n \<noteq> None) names = [san]
              \<and> san = id_Name i @ ''.'' @ id_Namespace i @ ''.'' @ suffixOf (id_Kind i)
              \<and> CHR ''.'' \<notin> set (id_Name i) \<and> CHR ''.'' \<notin> set (id_Namespace i))
       | None \<Rightarrow>
           cl_Workload c = None \<and> \<not> isKaalmManagedPod p
           \<and> (\<exists>token. rq_Authorization r = ''Bearer '' @ token \<and> snd (auth token) = Inr (Some (cl_Namespace c))))"
proof (cases "rq_PeerDNSNames r")
  case (Some names)
  then obtain i where i: "ParseWorkloadSAN names = Inr i" "crossCheck a podByIP r (id_Namespace i)" "c = workloadCaller i"
    using assms(1) by (auto simp: DualModePaths_def split: sum.splits if_splits)
  have "List.map_filter recognized names = [i]"
    using i(1) by (simp only: ParseWorkloadSAN_iff)
  from map_filter_single [OF this]
  obtain san where san: "filter (\<lambda>n. recognized n \<noteq> None) names = [san]" "recognized san = Some i"
    by blast
  obtain p where "podByIP 0 (sourceIP r) = Some p" "pod_Namespace p = id_Namespace i"
    using i(2) assms(2) by (auto simp: crossCheck_def split: option.splits)
  then have "podByIP 0 (sourceIP r) = Some p \<and> pod_Namespace p = cl_Namespace c \<and> cl_Workload c = Some i
      \<and> id_Namespace i = cl_Namespace c"
    using i(3) by (simp add: workloadCaller_def)
  then show ?thesis
    unfolding Some option.case using san(1) recognized_name [OF san(2)] by blast
next
  case None
  then have "bearerMode a podByIP auth cache r = (cache', Inr c)"
    using assms(1) by (simp add: DualModePaths_def)
  then obtain token k p where "bearerToken (rq_Authorization r) = Some token"
    and p: "snd (auth token) = Inr (Some (cl_Namespace c))" "podByIP k (sourceIP r) = Some p"
      "pod_Namespace p = cl_Namespace c" "\<not> isKaalmManagedPod p" "cl_Workload c = None"
    by (blast dest: bearerMode_accepts [OF _ assms(2)])
  then have "rq_Authorization r = ''Bearer '' @ token"
    using bearerToken_some by blast
  then show ?thesis
    unfolding None option.case using p by blast
qed

definition demo_auth :: Authenticator where
  "demo_auth = \<lparr>au_OperatorNamespace = ''kaalm-system'', au_DisableSourceIPCheck = False\<rparr>"

definition demo_pods :: podLookup where
  "demo_pods k ip = (if ip = ''10.0.0.7'' then Some \<lparr>pod_Namespace = ''team-a'', pod_Owners = [], pod_Labels = []\<rparr> else None)"

definition demo_request :: httpRequest where
  "demo_request = \<lparr>rq_PeerDNSNames = Some (agentSANs ''bot'' ''team-a''), rq_Authorization = [], rq_RemoteAddr = ''10.0.0.7:4711''\<rparr>"

lemma demo_sourceIP: "sourceIP demo_request = ''10.0.0.7''"
  by (simp add: sourceIP_def demo_request_def SplitHost_def last_colon_def)

lemma demo_names: "ParseWorkloadSAN (agentSANs ''bot'' ''team-a'') = Inr \<lparr>id_Namespace = ''team-a'', id_Name = ''bot'', id_Kind = KindAgent\<rparr>"
  using recognized_issued [of "''bot''" "''team-a''"] by (simp add: ParseWorkloadSAN_iff agentSANs_def map_filter_simps)

theorem dual_mode_identity_witness:
  "\<exists>c. DualModePaths demo_auth demo_pods (\<lambda>t. ((), Inr None)) () demo_request = ((), Inr c)
     \<and> (\<exists>p k. demo_pods k (sourceIP demo_request) = Some p \<and> pod_Namespace p = cl_Namespace c)"
proof -
  let ?c = "workloadCaller \<lparr>id_Namespace = ''team-a'', id_Name = ''bot'', id_Kind = KindAgent\<rparr>"
  have acc: "DualModePaths demo_auth demo_pods (\<lambda>t. ((), Inr None)) () demo_request = ((), Inr ?c)"
    using demo_names demo_sourceIP
    by (simp add: DualModePaths_def crossCheck_def demo_pods_def demo_auth_def demo_request_def)
  then show ?thesis
    using dual_mode_identity [OF acc] by (auto simp: demo_auth_def)
qed

text \<open>
  C31. The controller's certificates and the gateway's checks fit together. For undotted names,
  the certificate the controller issues to an Agent identifies that Agent and the one it issues
  to an AgentTask that AgentTask; neither opens the controller-only or the console-only paths,
  with one exception: an Agent named like the service itself in the operator namespace.
\<close>

theorem issued_identity:
  assumes "CHR ''.'' \<notin> set name" "CHR ''.'' \<notin> set ns" "CHR ''.'' \<notin> set op"
  shows "ParseWorkloadSAN (agentSANs name ns) = Inr \<lparr>id_Namespace = ns, id_Name = name, id_Kind = KindAgent\<rparr>
    \<and> ParseWorkloadSAN (taskSANs name ns) = Inr \<lparr>id_Namespace = ns, id_Name = name, id_Kind = KindAgentTask\<rparr>
    \<and> (IsControllerCert (agentSANs name ns) op \<longleftrightarrow> name = ''kaalm-controller'' \<and> ns = op)
    \<and> (IsConsoleCert (agentSANs name ns) op \<longleftrightarrow> name = ''kaalm-console'' \<and> ns = op)
    \<and> \<not> IsControllerCert (taskSANs name ns) op \<and> \<not> IsConsoleCert (taskSANs name ns) op"
proof -
  have svc: "isServiceCert (agentSANs name ns) service op \<longleftrightarrow> name = service \<and> ns = op" "\<not> isServiceCert (taskSANs name ns) service op"
    if "CHR ''.'' \<notin> set service" for service
    using service_names [OF assms that] by (auto simp: isServiceCert_def agentSANs_def taskSANs_def)
  show ?thesis
    using recognized_issued [OF assms(1,2)] svc [of "''kaalm-controller''"] svc [of "''kaalm-console''"]
    by (simp add: ParseWorkloadSAN_iff agentSANs_def taskSANs_def map_filter_simps IsControllerCert_def IsConsoleCert_def)
qed

theorem issued_identity_witness:
  "ParseWorkloadSAN (agentSANs ''bot'' ''team-a'') = Inr \<lparr>id_Namespace = ''team-a'', id_Name = ''bot'', id_Kind = KindAgent\<rparr>
   \<and> \<not> IsControllerCert (agentSANs ''bot'' ''team-a'') ''kaalm-system''"
  using issued_identity [of "''bot''" "''team-a''" "''kaalm-system''"] by simp

text \<open>
  C32. A bearer token is never accepted on a stale answer. Whatever calls came before, when a
  token is accepted for a namespace then the API accepted that very token for that namespace
  either now or less than five minutes ago, and in the latter case the token has more than its
  safety margin left before it expires, unless its expiry lies so far in the past (292 years)
  that the subtraction of two times overflows. The hash of the token is assumed to be no other
  token's.
\<close>

theorem token_cache_sound:
  assumes "token_runs sum256 payload review t cache" "\<forall>token'. sum256 token' = sum256 token \<longrightarrow> token' = token"
    and "t \<le> now" "now \<le> now'"
    and "snd (Authenticate sum256 payload (review now') now now' token cache) = Inr (Some ns)"
  shows "vouched payload review token ns now'
    \<or> (\<exists>s. vouched payload review token ns s \<and> s \<le> now \<and> now < s + tokenCacheMaxTTL
        \<and> (\<forall>e. jwtExpiry payload token = Some e \<and> tokenCacheSafetyMargin - 2 ^ 63 \<le> e - now \<longrightarrow> now < e - tokenCacheSafetyMargin))"
proof (cases "\<exists>entry. map_of cache (sum256 token) = Some entry \<and> now < tc_expires entry")
  case True
  then obtain entry where e: "map_of cache (sum256 token) = Some entry" "now < tc_expires entry" by blast
  then have "tc_namespace entry = ns"
    using assms(5) by (simp add: Authenticate_def)
  moreover obtain s where "s \<le> t" "vouched payload review token (tc_namespace entry) s"
    "tc_expires entry = s + cacheTTL payload token s"
    using token_runs_ok [OF assms(1)] e(1) assms(2) unfolding cache_ok_def by metis
  ultimately show ?thesis
    using e(2) assms(3) cacheTTL_bounds [of s now payload token] by auto
next
  case False
  then have "snd (review_token sum256 payload (review now') now' token cache) = Inr (Some ns)"
    using assms(5) by (auto simp: Authenticate_def split: option.splits if_splits)
  then show ?thesis
    by (auto simp: review_token_def vouched_def split: reviewAnswer.splits option.splits if_splits)
qed

theorem token_cache_sound_witness:
  "vouched (\<lambda>_. None) (\<lambda>_ _. Reviewed ''system:serviceaccount:team-a:bot'' True) ''tok'' ''team-a'' 5
   \<or> (\<exists>s. vouched (\<lambda>_. None) (\<lambda>_ _. Reviewed ''system:serviceaccount:team-a:bot'' True) ''tok'' ''team-a'' s
        \<and> s \<le> 4 \<and> 4 < s + tokenCacheMaxTTL)"
  using token_cache_sound [of id "\<lambda>_. None" "\<lambda>_ _. Reviewed ''system:serviceaccount:team-a:bot'' True" 0 "[]" "''tok''" 4 5 "''team-a''"]
  by (auto simp: Authenticate_def review_token_def namespaceFromUsername_def intro: token_runs.start)

end
