(* ===== verification/Gateway_Routing.thy ===== *)
theory Gateway_Routing
  imports Gateway_Auth
begin

text \<open>
  The tenancy chain of the LLM proxy (\<^verbatim>\<open>src/internal/gateway/routing.go\<close>): from the
  authenticated caller and the qualified model name to the provider, or a denial. The store's
  lookups are the record \<open>Store\<close>; of an Agent and an AgentTask the chain reads the provider
  references and the class.
\<close>

subsection \<open>Definitions\<close>

definition splitQualifiedModel :: "string \<Rightarrow> (string \<times> string) option" where
  "splitQualifiedModel qualified =
     (let (before, after, found) = Cut qualified (CHR ''/'')
      in if \<not> found \<or> before = [] \<or> after = [] then None else Some (before, after))"

record routeDenial =
  rd_status :: int
  rd_errType :: string
  rd_message :: string

record workloadSpec =
  w_Providers :: "string list"
  w_AgentClassRef :: string

record Store =
  AgentByName :: "string \<Rightarrow> string \<Rightarrow> workloadSpec option"
  TaskByName :: "string \<Rightarrow> string \<Rightarrow> workloadSpec option"
  ClassByName :: "string \<Rightarrow> AgentClass option"
  ProviderByName :: "string \<Rightarrow> ModelProvider option"

definition workloadProviders :: "Store \<Rightarrow> string \<Rightarrow> Identity \<Rightarrow> (string list \<times> string) option" where
  "workloadProviders st ns i =
     (case id_Kind i of
        KindAgent \<Rightarrow>
          (case AgentByName st ns (id_Name i) of None \<Rightarrow> None | Some w \<Rightarrow> Some (w_Providers w, w_AgentClassRef w))
      | KindAgentTask \<Rightarrow>
          (case TaskByName st ns (id_Name i) of None \<Rightarrow> None | Some w \<Rightarrow> Some (w_Providers w, w_AgentClassRef w)))"

fun containsProviderRef :: "string list \<Rightarrow> string \<Rightarrow> bool" where
  "containsProviderRef [] name = False"
| "containsProviderRef (r # rs) name = (if r = name then True else containsProviderRef rs name)"

definition namespaceGlobAllowed :: "string \<Rightarrow> string list \<Rightarrow> bool" where
  "namespaceGlobAllowed ns allowed \<longleftrightarrow> (if allowed = [] then False else globAny ns allowed)"

definition denied :: "string \<Rightarrow> routeDenial" where
  "denied msg = \<lparr>rd_status = 403, rd_errType = errAccessDenied, rd_message = msg\<rparr>"

definition invalid :: "string \<Rightarrow> routeDenial" where
  "invalid msg = \<lparr>rd_status = 400, rd_errType = errInvalidRequest, rd_message = msg\<rparr>"

text \<open>The workload half of the chain: the first denial, if any.\<close>

definition authorizeWorkload :: "Store \<Rightarrow> caller \<Rightarrow> Identity \<Rightarrow> string \<Rightarrow> routeDenial option" where
  "authorizeWorkload st c i providerName =
     (case workloadProviders st (cl_Namespace c) i of
        None \<Rightarrow>
          Some (denied (kindText (id_Kind i) @ '' '' @ Quote (id_Name i) @ '' not found in namespace '' @ Quote (cl_Namespace c)))
      | Some (refs, classRef) \<Rightarrow>
          if \<not> containsProviderRef refs providerName
          then Some (denied (''provider '' @ Quote providerName @ '' is not in the workload's spec.providers''))
          else case ClassByName st classRef of
              None \<Rightarrow> Some (denied (''AgentClass '' @ Quote classRef @ '' not found''))
            | Some cls \<Rightarrow>
                if \<not> AdmitsNamespace cls (cl_Namespace c)
                then Some (denied (''namespace '' @ Quote (cl_Namespace c) @ '' is not in AgentClass '' @ Quote classRef @ '' allowedNamespaces''))
                else if \<not> containsProviderRef (class_AllowedProviders cls) providerName
                then Some (denied (''provider '' @ Quote providerName @ '' is not in AgentClass '' @ Quote classRef @ '' allowedProviders''))
                else None)"

definition authorizeRoute :: "Store \<Rightarrow> caller \<Rightarrow> string \<Rightarrow> string \<Rightarrow> routeDenial + ModelProvider" where
  "authorizeRoute st c providerName modelID =
     (case (case cl_Workload c of None \<Rightarrow> None | Some i \<Rightarrow> authorizeWorkload st c i providerName) of
        Some d \<Rightarrow> Inl d
      | None \<Rightarrow>
          (case ProviderByName st providerName of
             None \<Rightarrow> Inl (invalid (''unknown provider '' @ Quote providerName))
           | Some provider \<Rightarrow>
               if \<not> namespaceGlobAllowed (cl_Namespace c) (AllowedNamespaces (Spec provider))
               then Inl (denied (''namespace '' @ Quote (cl_Namespace c) @ '' is not allowed to use provider '' @ Quote providerName))
               else if modelID \<in> set (map ID (Models (Spec provider))) then Inr provider
               else Inl (invalid (''model '' @ Quote modelID @ '' is not offered by provider '' @ Quote providerName))))"

subsection \<open>Lemmas\<close>

lemma containsProviderRef_iff: "containsProviderRef refs name \<longleftrightarrow> name \<in> set refs"
  by (induction refs) auto

lemma namespaceGlobAllowed_iff: "namespaceGlobAllowed ns ps \<longleftrightarrow> (\<exists>p \<in> set ps. Match p ns = Some True)"
  by (auto simp: namespaceGlobAllowed_def globAny_iff)

lemma Cut_found: "Cut s sep = (b, a, f) \<Longrightarrow> (f \<longrightarrow> s = b @ sep # a) \<and> sep \<notin> set b"
  by (induction s arbitrary: b) (auto split: if_splits prod.splits)

lemma Cut_append: "sep \<notin> set b \<Longrightarrow> Cut (b @ sep # a) sep = (b, a, True)"
  by (induction b) auto

text \<open>What the chain grants, as a specification over the store.\<close>

definition entitled :: "Store \<Rightarrow> caller \<Rightarrow> string \<Rightarrow> bool" where
  "entitled st c providerName \<longleftrightarrow>
     (\<forall>i. cl_Workload c = Some i \<longrightarrow>
        (\<exists>refs classRef cls. workloadProviders st (cl_Namespace c) i = Some (refs, classRef) \<and> providerName \<in> set refs
           \<and> ClassByName st classRef = Some cls \<and> AdmitsNamespace cls (cl_Namespace c) \<and> providerName \<in> set (class_AllowedProviders cls)))
     \<and> (\<exists>p. ProviderByName st providerName = Some p \<and> (\<exists>g \<in> set (AllowedNamespaces (Spec p)). Match g (cl_Namespace c) = Some True))"

lemma authorizeWorkload_None:
  "authorizeWorkload st c i n = None \<longleftrightarrow>
     (\<exists>refs classRef cls. workloadProviders st (cl_Namespace c) i = Some (refs, classRef) \<and> n \<in> set refs
       \<and> ClassByName st classRef = Some cls \<and> AdmitsNamespace cls (cl_Namespace c) \<and> n \<in> set (class_AllowedProviders cls))"
  by (auto simp: authorizeWorkload_def containsProviderRef_iff split: option.splits)

lemma authorizeRoute_entitled:
  assumes "entitled st c n"
  obtains p where "ProviderByName st n = Some p"
    "authorizeRoute st c n m = (if m \<in> set (map ID (Models (Spec p))) then Inr p
       else Inl (invalid (''model '' @ Quote m @ '' is not offered by provider '' @ Quote n)))"
proof -
  have "(case cl_Workload c of None \<Rightarrow> None | Some i \<Rightarrow> authorizeWorkload st c i n) = None"
    using assms by (auto simp: entitled_def authorizeWorkload_None split: option.splits)
  moreover obtain p where "ProviderByName st n = Some p" "namespaceGlobAllowed (cl_Namespace c) (AllowedNamespaces (Spec p))"
    using assms by (auto simp: entitled_def namespaceGlobAllowed_iff)
  ultimately show thesis using that by (simp add: authorizeRoute_def)
qed

text \<open>Two stores that differ only in the model catalogs of their providers.\<close>

definition same_but_models :: "Store \<Rightarrow> Store \<Rightarrow> bool" where
  "same_but_models st st' \<longleftrightarrow>
     AgentByName st = AgentByName st' \<and> TaskByName st = TaskByName st' \<and> ClassByName st = ClassByName st'
     \<and> (\<forall>n. rel_option (\<lambda>p p'. AllowedNamespaces (Spec p) = AllowedNamespaces (Spec p')) (ProviderByName st n) (ProviderByName st' n))"

lemma authorizeRoute_not_entitled:
  assumes "\<not> entitled st c n" "same_but_models st st'"
  shows "\<exists>d. authorizeRoute st c n m = Inl d \<and> authorizeRoute st' c n m' = Inl d"
proof -
  have same: "authorizeWorkload st c i n = authorizeWorkload st' c i n" for i
  proof -
    have "AgentByName st = AgentByName st'" "TaskByName st = TaskByName st'" "ClassByName st = ClassByName st'"
      using assms(2) by (simp_all add: same_but_models_def)
    then show ?thesis unfolding authorizeWorkload_def workloadProviders_def by metis
  qed
  have same_workload: "(case cl_Workload c of None \<Rightarrow> None | Some i \<Rightarrow> authorizeWorkload st' c i n)
      = (case cl_Workload c of None \<Rightarrow> None | Some i \<Rightarrow> authorizeWorkload st c i n)"
    by (cases "cl_Workload c") (simp_all add: same)
  show ?thesis
  proof (cases "case cl_Workload c of None \<Rightarrow> None | Some i \<Rightarrow> authorizeWorkload st c i n")
    case (Some d)
    then show ?thesis using same_workload by (simp add: authorizeRoute_def)
  next
    case None
    then have "\<not> (\<exists>p. ProviderByName st n = Some p \<and> namespaceGlobAllowed (cl_Namespace c) (AllowedNamespaces (Spec p)))"
      using assms(1) by (auto simp: entitled_def authorizeWorkload_None namespaceGlobAllowed_iff split: option.splits)
    moreover have "rel_option (\<lambda>p p'. AllowedNamespaces (Spec p) = AllowedNamespaces (Spec p')) (ProviderByName st n) (ProviderByName st' n)"
      using assms(2) by (simp add: same_but_models_def)
    ultimately show ?thesis
      using None same_workload by (auto simp: authorizeRoute_def rel_option_iff split: option.splits)
  qed
qed

subsection \<open>Properties\<close>

text \<open>
  C33. The tenancy chain grants exactly what the resources say, and leaks nothing else. A request
  reaches a provider if and only if the caller is entitled to it (the workload names it, its
  class exists, admits the namespace and allows the provider, and the provider admits the
  namespace) and the provider offers the model. A caller that is not entitled gets the same
  answer whatever models any provider hosts and whatever model it asks for.
\<close>

theorem route_exact_and_blind:
  "(authorizeRoute st c n m = Inr p \<longleftrightarrow>
      entitled st c n \<and> ProviderByName st n = Some p \<and> m \<in> set (map ID (Models (Spec p))))
   \<and> (\<not> entitled st c n \<and> same_but_models st st' \<longrightarrow> authorizeRoute st c n m = authorizeRoute st' c n m')"
proof (cases "entitled st c n")
  case True
  then obtain q where "ProviderByName st n = Some q"
    "authorizeRoute st c n m = (if m \<in> set (map ID (Models (Spec q))) then Inr q
       else Inl (invalid (''model '' @ Quote m @ '' is not offered by provider '' @ Quote n)))"
    by (rule authorizeRoute_entitled)
  then show ?thesis using True by auto
next
  case False
  have "same_but_models st st"
    by (simp add: same_but_models_def rel_option_iff split: option.splits)
  then show ?thesis
    using False authorizeRoute_not_entitled [OF False, of st m m] authorizeRoute_not_entitled [OF False, of st' m m'] by auto
qed

definition demo_catalog :: "string list \<Rightarrow> ModelProvider" where
  "demo_catalog models = \<lparr>Name = ''claude'', UID = ''u1'', Spec = \<lparr>Type = ''anthropic'', Endpoint = ''https://api.example.com'',
     CredentialsRef = \<lparr>secret_Name = ''creds'', secret_Key = ''key''\<rparr>,
     Models = map (\<lambda>m. \<lparr>ID = m, DisplayName = m, CostPer1MInputTokens = ''1'', CostPer1MOutputTokens = ''1'', MaxOutputTokens = None\<rparr>) models,
     AllowedNamespaces = [''ops''],
     Budget = \<lparr>Period = ''none'', PerNamespaceUSD = [], Policies = [], ClusterUSD = None, Enforcement = ''soft'', Hard = None\<rparr>,
     RateLimits = \<lparr>RequestsPerMinute = 0, TokensPerMinute = 0\<rparr>, Fallback = [], HealthCheck = None\<rparr>\<rparr>"

definition demo_store :: "string list \<Rightarrow> Store" where
  "demo_store models = \<lparr>AgentByName = (\<lambda>ns n. None), TaskByName = (\<lambda>ns n. None), ClassByName = (\<lambda>n. None),
     ProviderByName = (\<lambda>n. if n = ''claude'' then Some (demo_catalog models) else None)\<rparr>"

theorem route_exact_and_blind_witness:
  "authorizeRoute (demo_store [''opus'']) \<lparr>cl_Namespace = ''ops'', cl_Workload = None\<rparr> ''claude'' ''opus'' = Inr (demo_catalog [''opus''])
   \<and> authorizeRoute (demo_store [''opus'']) \<lparr>cl_Namespace = ''team-a'', cl_Workload = None\<rparr> ''claude'' ''opus'' =
     authorizeRoute (demo_store []) \<lparr>cl_Namespace = ''team-a'', cl_Workload = None\<rparr> ''claude'' ''haiku''"
proof
  have "entitled (demo_store [''opus'']) \<lparr>cl_Namespace = ''ops'', cl_Workload = None\<rparr> ''claude''"
    by (simp add: entitled_def demo_store_def demo_catalog_def) code_simp
  then show "authorizeRoute (demo_store [''opus'']) \<lparr>cl_Namespace = ''ops'', cl_Workload = None\<rparr> ''claude'' ''opus'' = Inr (demo_catalog [''opus''])"
    using route_exact_and_blind [of "demo_store [''opus'']" "\<lparr>cl_Namespace = ''ops'', cl_Workload = None\<rparr>" "''claude''" "''opus''"
        "demo_catalog [''opus'']"]
    by (simp add: demo_store_def demo_catalog_def)
  have "Match ''ops'' ''team-a'' \<noteq> Some True" by code_simp
  then have "\<not> entitled (demo_store [''opus'']) \<lparr>cl_Namespace = ''team-a'', cl_Workload = None\<rparr> ''claude''"
    by (simp add: entitled_def demo_store_def demo_catalog_def)
  moreover have "same_but_models (demo_store [''opus'']) (demo_store [])"
    by (simp add: demo_store_def demo_catalog_def same_but_models_def)
  ultimately show "authorizeRoute (demo_store [''opus'']) \<lparr>cl_Namespace = ''team-a'', cl_Workload = None\<rparr> ''claude'' ''opus'' =
     authorizeRoute (demo_store []) \<lparr>cl_Namespace = ''team-a'', cl_Workload = None\<rparr> ''claude'' ''haiku''"
    using route_exact_and_blind [of "demo_store [''opus'']" _ "''claude''" "''opus''" _ "demo_store []" "''haiku''"] by blast
qed

end
