(* ===== verification/Fallback_Walk.thy ===== *)
theory Fallback_Walk
  imports Gateway_Routing Budget_Hard Kube_Status
begin

text \<open>
  The fallback walk of the LLM proxy (\<^verbatim>\<open>src/internal/gateway/fallback.go\<close>): depth first in
  declared order from the primary provider, each candidate checked, admitted by its budget and
  attempted, until one answers.

  The walk's mutable state is the record \<open>walk\<close>: the fields of the code's \<^verbatim>\<open>walkState\<close>, then
  what the walk touches outside it, namely the ledger, the clock, the caller's context and the
  sequence of the calls it makes. The attempt is an argument, as in the code; it takes time, so
  it may change the clock, the context and, through other requests, the ledger. The translator
  of request bodies is a field of \<open>Server\<close>.
\<close>

subsection \<open>Failure classes\<close>

datatype failClass = classNone | classConnect | classTimeout | classUpstream | classBudget
  | classNonFallle | classBudgetUnavailable

fun failClassName :: "failClass \<Rightarrow> string" where
  "failClassName classConnect = ''connect_error''"
| "failClassName classTimeout = ''timeout''"
| "failClassName classBudget = ''budget_blocked''"
| "failClassName classBudgetUnavailable = ''budget_unavailable''"
| "failClassName classUpstream = ''upstream_error''"
| "failClassName _ = ''other''"

definition isFallbackable :: "int \<Rightarrow> bool \<times> failClass" where
  "isFallbackable status =
     (if status \<ge> 200 \<and> status \<le> 299 then (False, classNone)
      else if status = 429 \<or> status \<ge> 500 \<and> status \<le> 599 then (True, classUpstream)
      else if status = 401 \<or> status = 403 then (True, classUpstream)
      else if status = 400 \<or> status = 422 then (False, classNonFallle)
      else if status \<ge> 400 \<and> status \<le> 499 then (False, classNonFallle)
      else (True, classUpstream))"

subsection \<open>The state of a walk\<close>

type_synonym header = "(string, string list) gomap"

record httpResponse =
  StatusCode :: int
  resp_Header :: header
  ContentLength :: int

record forwardResult =
  fr_resp :: "httpResponse option"
  fr_body :: string
  fallilable :: bool
  fr_class :: failClass
  fr_err :: "string option"
  fr_provider :: string
  fr_chosen :: "ModelProvider option"
  fr_model :: string
  fr_format :: string
  holdLimit :: int
  credentialRejected :: bool
  fr_settle :: "ticket option"

definition no_result :: forwardResult where
  "no_result = \<lparr>fr_resp = None, fr_body = [], fallilable = False, fr_class = classNone, fr_err = None, fr_provider = [],
     fr_chosen = None, fr_model = [], fr_format = [], holdLimit = 0, credentialRejected = False, fr_settle = None\<rparr>"

text \<open>The decoded body is what \<^verbatim>\<open>request()\<close> returns: nothing for a body that is no JSON object.\<close>

record walkState =
  st_primary :: ModelProvider
  st_namespace :: string
  st_workload :: string
  st_modelID :: string
  attemptCount :: int
  maxDepth :: int
  visited :: "string set"
  observed :: "failClass set"
  maxRetryAfter :: int
  budgetBlocked :: bool
  primarySettle :: "ticket option"
  st_request :: "json option"
  inboundFormat :: string
  modelFor :: "(string, string) gomap"
  translated :: "(string, json) gomap"

text \<open>The calls a walk makes, in order.\<close>

datatype walkCall =
    EventCall string "string option" event
  | BoundaryMetric string string string
  | FallbackMetric string string string
  | AdmitCall ModelProvider "ticket option"
  | AttemptCall ModelProvider string
  | SettleCall ticket usd
  | AddCall ModelProvider usd
  | MetricCall string "string list"

record walk = walkState +
  w_ledger :: BudgetLedger
  w_now :: gotime
  w_replicas :: "int option"
  w_ctxErr :: bool
  w_settled :: "ticket list"
  w_calls :: "walkCall list"

text \<open>\<open>srv_Recorder\<close> and \<open>srv_Budget\<close> say whether the server has an event recorder and a ledger.\<close>

record Server =
  srv_Store :: Store
  srv_Recorder :: bool
  srv_Budget :: bool
  srv_translate :: "string \<Rightarrow> string \<Rightarrow> json \<Rightarrow> string \<Rightarrow> int \<Rightarrow> string + json"

definition log_call :: "walkCall \<Rightarrow> walk \<Rightarrow> walk" where
  "log_call c st = st\<lparr>w_calls := w_calls st @ [c]\<rparr>"

definition recordEvent :: "Server \<Rightarrow> string \<Rightarrow> string option \<Rightarrow> string \<Rightarrow> string \<Rightarrow> string \<Rightarrow> walk \<Rightarrow> walk" where
  "recordEvent s regarding related reason action note st =
     (if \<not> srv_Recorder s then st
      else log_call (EventCall regarding related
             \<lparr>e_Type = EventTypeWarning, e_Reason = reason, e_Action = action, e_Note = note\<rparr>) st)"

definition fallbackCandidate :: "ModelProvider \<Rightarrow> ModelProvider \<Rightarrow> string option" where
  "fallbackCandidate primary candidate = (if Name candidate = Name primary then None else Some (Name candidate))"

text \<open>The closure behind a ticket runs once: the second call does nothing.\<close>

definition callSettle :: "ticket \<Rightarrow> usd \<Rightarrow> walk \<Rightarrow> walk" where
  "callSettle tk costUSD st =
     (if tk \<in> set (w_settled st) then st
      else log_call (SettleCall tk costUSD)
             (st\<lparr>w_ledger := settle (w_now st) tk costUSD (w_ledger st), w_settled := tk # w_settled st\<rparr>))"

subsection \<open>Eligibility\<close>

definition ReasonFallbackIneligible :: string where "ReasonFallbackIneligible = ''FallbackIneligible''"
definition ReasonCredentialsInvalid :: string where "ReasonCredentialsInvalid = ''CredentialsInvalid''"
definition ActionFallback :: string where "ActionFallback = ''Fallback''"

definition candidateModel :: "walk \<Rightarrow> ModelProvider \<Rightarrow> string" where
  "candidateModel st provider =
     (case map_of (modelFor st) (Name provider) of
        Some m \<Rightarrow> if m \<noteq> [] then m else st_modelID st
      | None \<Rightarrow> st_modelID st)"

definition FormatAnthropic :: string where "FormatAnthropic = ''anthropic''"
definition FormatOpenAI :: string where "FormatOpenAI = ''openai''"

definition formatForType :: "string \<Rightarrow> string" where
  "formatForType providerType =
     (if ProviderFormat providerType = ProviderTypeAnthropic then FormatAnthropic
      else if ProviderFormat providerType = ProviderTypeOpenAI then FormatOpenAI else [])"

definition crosses :: "walk \<Rightarrow> ModelProvider \<Rightarrow> bool" where
  "crosses st provider \<longleftrightarrow>
     (let target = formatForType (Type (Spec provider))
      in inboundFormat st \<noteq> [] \<and> target \<noteq> [] \<and> target \<noteq> inboundFormat st)"

definition canonicalPath :: "string \<Rightarrow> string" where
  "canonicalPath format = (if format = FormatAnthropic then ''/v1/messages'' else ''/v1/chat/completions'')"

fun maxOutputTokens_models :: "ModelProviderModel list \<Rightarrow> string \<Rightarrow> int" where
  "maxOutputTokens_models [] model = 0"
| "maxOutputTokens_models (m # ms) model =
     (if ID m = model \<and> MaxOutputTokens m \<noteq> None then the (MaxOutputTokens m) else maxOutputTokens_models ms model)"

definition maxOutputTokensOf :: "ModelProvider \<Rightarrow> string \<Rightarrow> int" where
  "maxOutputTokensOf provider model = maxOutputTokens_models (Models (Spec provider)) model"

text \<open>The reason is empty for an eligible candidate.\<close>

definition translateFor :: "Server \<Rightarrow> ModelProvider \<Rightarrow> string \<Rightarrow> walk \<Rightarrow> walk \<times> string" where
  "translateFor s provider model st =
     (case st_request st of
        None \<Rightarrow> (st, [])
      | Some request \<Rightarrow>
          if \<not> crosses st provider \<or> map_of (translated st) (Name provider) \<noteq> None then (st, [])
          else case srv_translate s (inboundFormat st) (formatForType (Type (Spec provider))) request model
                      (maxOutputTokensOf provider model) of
              Inl err \<Rightarrow> (st, err)
            | Inr body \<Rightarrow> (st\<lparr>translated := AList.update (Name provider) body (translated st)\<rparr>, []))"

definition staticallyIneligible :: "Server \<Rightarrow> ModelProvider \<Rightarrow> walk \<Rightarrow> walk \<times> string" where
  "staticallyIneligible s provider st =
     (let primaryType = Type (Spec (st_primary st)); providerType = Type (Spec provider);
          fallback = (Name provider \<noteq> Name (st_primary st)); model = candidateModel st provider
      in if fallback \<and> \<not> FallbackFormatCompatible primaryType providerType
         then (st, ''type '' @ Quote providerType @ '' cannot follow primary type '' @ Quote primaryType @ '' (rule 12)'')
         else if fallback \<and> FallbackCrossesFormat primaryType providerType \<and> inboundFormat st = []
         then (st, ''the request's format cannot cross into type '' @ Quote providerType)
         else if \<not> namespaceGlobAllowed (st_namespace st) (AllowedNamespaces (Spec provider))
         then (st, ''namespace '' @ Quote (st_namespace st) @ '' not in allowedNamespaces'')
         else if model \<notin> set (map ID (Models (Spec provider)))
         then (st, ''model '' @ Quote model @ '' not offered'')
         else translateFor s provider model st)"

subsection \<open>The walk\<close>

text \<open>
  Budget admission of a candidate. The primary was admitted before the walk. A refusal is the
  class it is observed as; otherwise the candidate may hold a ticket.
\<close>

definition admitCandidate :: "Server \<Rightarrow> ModelProvider \<Rightarrow> walk \<Rightarrow> walk \<times> (failClass + ticket option)" where
  "admitCandidate s provider st =
     (if \<not> srv_Budget s then (st, Inr None)
      else if Name provider = Name (st_primary st) then (st, Inr (primarySettle st))
      else
        let (b, d, sfn) = Admit (w_now st) (w_replicas st) provider (st_namespace st) (st_workload st) (w_ledger st);
            boundary = (\<lambda>outcome. log_call (BoundaryMetric (Name provider) (st_namespace st) outcome));
            st = log_call (AdmitCall provider sfn) (st\<lparr>w_ledger := b\<rparr>);
            st = (if MarginRaisedNow d then boundary ''margin_raised'' st else st)
        in if Unavailable d then
             ((boundary ''fail_closed'' st)\<lparr>observed := insert classBudgetUnavailable (observed st)\<rparr>, Inl classBudgetUnavailable)
           else if Throttled d then
             ((boundary ''throttled'' st)\<lparr>observed := insert classBudget (observed st),
                maxRetryAfter := (if maxRetryAfter st < 1 then 1 else maxRetryAfter st)\<rparr>, Inl classBudget)
           else if d_Action d = BudgetActionBlock then
             (st\<lparr>observed := insert classBudget (observed st), budgetBlocked := True,
                maxRetryAfter := (if d_RetryAfter d > maxRetryAfter st then d_RetryAfter d else maxRetryAfter st)\<rparr>, Inl classBudget)
           else ((if sfn \<noteq> None then boundary ''engaged'' st else st), Inr sfn))"

definition recordCredentialFailure :: "Server \<Rightarrow> ModelProvider \<Rightarrow> forwardResult \<Rightarrow> walk \<Rightarrow> walk" where
  "recordCredentialFailure s provider res st =
     (if fr_class res \<noteq> classUpstream then st
      else if credentialRejected res then
        recordEvent s (Name provider) None ReasonCredentialsInvalid ActionFallback
          ''the token endpoint rejected the service-account key; credential rotation may be needed'' st
      else case fr_resp res of
          None \<Rightarrow> st
        | Some resp \<Rightarrow>
            if StatusCode resp = 401 \<or> StatusCode resp = 403 then
              recordEvent s (Name provider) None ReasonCredentialsInvalid ActionFallback
                (''upstream returned '' @ Itoa (StatusCode resp) @ ''; credential rotation may be needed'') st
            else st)"

definition succeeded :: "forwardResult \<Rightarrow> bool" where
  "succeeded res \<longleftrightarrow> fr_class res = classNone \<and> fr_err res = None
     \<and> (case fr_resp res of None \<Rightarrow> False | Some resp \<Rightarrow> StatusCode resp \<ge> 200 \<and> StatusCode resp \<le> 299)"

text \<open>
  \<open>walkRefs\<close> is the loop of \<^verbatim>\<open>walkChildren\<close> and \<open>tryNext\<close> its recursive call; \<open>None\<close> is a
  call that ran out of fuel. \<open>setModelFor\<close> applies the edge's model map on the way down.
\<close>

type_synonym walkResult = "(walk \<times> forwardResult \<times> bool) option"

definition setModelFor :: "FallbackReference \<Rightarrow> string \<Rightarrow> ModelProvider \<Rightarrow> walk \<Rightarrow> walk" where
  "setModelFor ref parentModel next st =
     st\<lparr>modelFor := AList.update (Name next)
          (case map_of (ModelMap ref) parentModel of
             Some mapped \<Rightarrow> if mapped \<noteq> [] then mapped else parentModel
           | None \<Rightarrow> parentModel) (modelFor st)\<rparr>"

primrec walkRefs ::
  "Server \<Rightarrow> (ModelProvider \<Rightarrow> walk \<Rightarrow> walkResult) \<Rightarrow> string \<Rightarrow> FallbackReference list \<Rightarrow> walk \<Rightarrow> walkResult" where
  "walkRefs s tryNext parentModel [] st = Some (st, no_result, False)"
| "walkRefs s tryNext parentModel (ref # refs) st =
     (case ProviderByName (srv_Store s) (ref_Name ref) of
        None \<Rightarrow>
          walkRefs s tryNext parentModel refs
            (recordEvent s (Name (st_primary st)) None ReasonFallbackIneligible ActionFallback
               (''fallback '' @ Quote (ref_Name ref) @ '' skipped: provider does not exist'') st)
      | Some next \<Rightarrow>
          (case tryNext next (setModelFor ref parentModel next st) of
             None \<Rightarrow> None
           | Some (st, res, ok) \<Rightarrow>
               if ok then Some (st, res, True) else walkRefs s tryNext parentModel refs st))"

definition walkChildren ::
  "Server \<Rightarrow> (ModelProvider \<Rightarrow> walk \<Rightarrow> walkResult) \<Rightarrow> ModelProvider \<Rightarrow> walk \<Rightarrow> walkResult" where
  "walkChildren s tryNext provider st = walkRefs s tryNext (candidateModel st provider) (Fallback (Spec provider)) st"

text \<open>The attempt on an admitted candidate and what follows it.\<close>

definition runCandidate ::
  "Server \<Rightarrow> (ModelProvider \<Rightarrow> walk \<Rightarrow> walk \<times> forwardResult) \<Rightarrow> (walk \<Rightarrow> walkResult) \<Rightarrow> ModelProvider
    \<Rightarrow> ticket option \<Rightarrow> walk \<Rightarrow> walkResult" where
  "runCandidate s attempt children provider sfn st =
     (let (st, res) = attempt provider (log_call (AttemptCall provider (candidateModel st provider)) st);
          res = res\<lparr>fr_settle := sfn\<rparr>
      in if w_ctxErr st then Some (st, res, True)
         else if succeeded res then Some (st, res, True)
         else if \<not> fallilable res then Some (st, res, True)
         else
           let (st, res) = (case sfn of None \<Rightarrow> (st, res) | Some tk \<Rightarrow> (callSettle tk 0 st, res\<lparr>fr_settle := None\<rparr>));
               st = recordCredentialFailure s provider res st
           in case children st of
                None \<Rightarrow> None
              | Some (st, child, ok) \<Rightarrow> if ok then Some (st, child, True) else Some (st, res, False))"

primrec tryWithFallbacks ::
  "nat \<Rightarrow> Server \<Rightarrow> (ModelProvider \<Rightarrow> walk \<Rightarrow> walk \<times> forwardResult) \<Rightarrow> ModelProvider \<Rightarrow> walk \<Rightarrow> walkResult" where
  "tryWithFallbacks 0 s attempt provider st = None"
| "tryWithFallbacks (Suc fuel) s attempt provider st =
     (if Name provider \<in> visited st then Some (st, no_result, False)
      else
        let (st, reason) = staticallyIneligible s provider (st\<lparr>visited := insert (Name provider) (visited st)\<rparr>)
        in if reason \<noteq> [] then
             Some (recordEvent s (Name (st_primary st)) (fallbackCandidate (st_primary st) provider)
                     ReasonFallbackIneligible ActionFallback
                     (''fallback '' @ Quote (Name provider) @ '' skipped: '' @ reason) st, no_result, False)
           else if attemptCount st \<ge> maxDepth st then Some (st, no_result, False)
           else
             let (st, admission) = admitCandidate s provider (st\<lparr>attemptCount := attemptCount st + 1\<rparr>);
                 children = walkChildren s (tryWithFallbacks fuel s attempt) provider
             in case admission of
                  Inl refusal \<Rightarrow>
                    (case children st of
                       None \<Rightarrow> None
                     | Some (st, res, ok) \<Rightarrow>
                         if ok then Some (st, res, True) else Some (st, no_result\<lparr>fr_class := refusal\<rparr>, False))
                | Inr sfn \<Rightarrow> runCandidate s attempt children provider sfn st)"

subsection \<open>Exhaustion\<close>

definition errProviderError :: string where "errProviderError = ''provider_error''"
definition errProviderUnavailable :: string where "errProviderUnavailable = ''provider_unavailable''"
definition errProviderTimeout :: string where "errProviderTimeout = ''provider_timeout''"
definition errBudgetExhausted :: string where "errBudgetExhausted = ''budget_exhausted''"
definition errBudgetThrottled :: string where "errBudgetThrottled = ''budget_throttled''"
definition errBudgetUnavailable :: string where "errBudgetUnavailable = ''budget_state_unavailable''"

definition providerBody :: "string \<Rightarrow> string \<Rightarrow> bool \<Rightarrow> string \<Rightarrow> errorBody" where
  "providerBody t provider retryable msg = \<lparr>eb_Type = t, eb_Message = msg, eb_Provider = provider, eb_Retryable = retryable\<rparr>"

definition exhaustionError :: "failClass set \<Rightarrow> int \<Rightarrow> bool \<Rightarrow> string \<Rightarrow> int \<times> errorBody \<times> int" where
  "exhaustionError obs retryAfter blocked providerName =
     (let budgetOnly = (obs \<noteq> {} \<and> (\<forall>class \<in> obs. \<not> (class \<noteq> classBudget \<and> class \<noteq> classBudgetUnavailable)))
      in if budgetOnly \<and> classBudgetUnavailable \<in> obs then
           (503, providerBody errBudgetUnavailable providerName True
              ''budget state could not be verified for the provider and all fallbacks; failing closed'', 1)
         else if budgetOnly then
           (429, providerBody errBudgetExhausted providerName (\<not> blocked)
              ''the provider and all fallbacks are budget-blocked'', retryAfter)
         else if obs = {classConnect} then
           (503, providerBody errProviderUnavailable providerName False ''all providers were unreachable'', 0)
         else if obs = {classTimeout} then
           (504, providerBody errProviderTimeout providerName False ''all provider attempts timed out'', 0)
         else (502, providerBody errProviderError providerName False ''the provider and all fallbacks failed'', 0))"

subsection \<open>Reading the sequence of calls\<close>

fun attempts :: "walkCall list \<Rightarrow> (ModelProvider \<times> string) list" where
  "attempts [] = []"
| "attempts (AttemptCall p m # cs) = (p, m) # attempts cs"
| "attempts (_ # cs) = attempts cs"

fun settles :: "walkCall list \<Rightarrow> ticket list" where
  "settles [] = []"
| "settles (SettleCall tk cost # cs) = tk # settles cs"
| "settles (_ # cs) = settles cs"

text \<open>What the calls charge, and to which provider; a call at no cost charges nothing.\<close>

fun charges :: "walkCall list \<Rightarrow> (string \<times> usd) list" where
  "charges [] = []"
| "charges (SettleCall tk cost # cs) = (if cost = 0 then charges cs else (tk_name tk, cost) # charges cs)"
| "charges (AddCall p cost # cs) = (if cost = 0 then charges cs else (Name p, cost) # charges cs)"
| "charges (_ # cs) = charges cs"

text \<open>The tickets that are held, and that no ticket is held while another provider is called.\<close>

fun held_step :: "ticket list \<Rightarrow> walkCall \<Rightarrow> ticket list" where
  "held_step held (AdmitCall p (Some tk)) = tk # held"
| "held_step held (SettleCall tk cost) = removeAll tk held"
| "held_step held _ = held"

definition held_after :: "ticket list \<Rightarrow> walkCall list \<Rightarrow> ticket list" where
  "held_after held cs = foldl held_step held cs"

fun exclusive :: "ticket list \<Rightarrow> walkCall list \<Rightarrow> bool" where
  "exclusive held [] = True"
| "exclusive held (AttemptCall p m # cs) = ((\<forall>tk \<in> set held. tk_name tk = Name p) \<and> exclusive held cs)"
| "exclusive held (c # cs) = exclusive (held_step held c) cs"

definition quiet_call :: "walkCall \<Rightarrow> bool" where
  "quiet_call c \<longleftrightarrow> (case c of EventCall _ _ _ \<Rightarrow> True | BoundaryMetric _ _ _ \<Rightarrow> True | FallbackMetric _ _ _ \<Rightarrow> True
     | MetricCall _ _ \<Rightarrow> True | _ \<Rightarrow> False)"

named_theorems walk_simps

lemma attempts_append [walk_simps]: "attempts (cs @ ds) = attempts cs @ attempts ds"
  by (induction cs rule: attempts.induct) auto

lemma settles_append [walk_simps]: "settles (cs @ ds) = settles cs @ settles ds"
  by (induction cs rule: settles.induct) auto

lemma charges_append [walk_simps]: "charges (cs @ ds) = charges cs @ charges ds"
  by (induction cs rule: charges.induct) auto

lemma held_after_append [walk_simps]: "held_after held (cs @ ds) = held_after (held_after held cs) ds"
  by (simp add: held_after_def)

lemma held_after_Nil [walk_simps]: "held_after held [] = held"
  by (simp add: held_after_def)

lemma exclusive_append [walk_simps]: "exclusive held (cs @ ds) \<longleftrightarrow> exclusive held cs \<and> exclusive (held_after held cs) ds"
  by (induction held cs rule: exclusive.induct) (auto simp: held_after_def)

lemma quiet_calls:
  assumes "\<forall>c \<in> set cs. quiet_call c"
  shows "attempts cs = []" "held_after held cs = held" "exclusive held cs" "settles cs = []" "charges cs = []"
  using assms
  by (induction cs) (auto simp: quiet_call_def held_after_def split: walkCall.splits)

subsection \<open>What a walk does\<close>

text \<open>A candidate that may be contacted with a model, for a walk from \<open>primary\<close> in \<open>ns\<close>.\<close>

definition eligible :: "Server \<Rightarrow> ModelProvider \<Rightarrow> string \<Rightarrow> string \<Rightarrow> ModelProvider \<Rightarrow> string \<Rightarrow> bool" where
  "eligible s primary ns format p m \<longleftrightarrow>
     (p = primary \<or> (\<exists>n. ProviderByName (srv_Store s) n = Some p))
     \<and> (Name p \<noteq> Name primary \<longrightarrow> FallbackFormatCompatible (Type (Spec primary)) (Type (Spec p))
          \<and> (FallbackCrossesFormat (Type (Spec primary)) (Type (Spec p)) \<longrightarrow> format \<noteq> []))
     \<and> (\<exists>g \<in> set (AllowedNamespaces (Spec p)). Match g ns = Some True)
     \<and> m \<in> set (map ID (Models (Spec p)))"

text \<open>
  The relation between the states before and after a part of a walk; \<open>held\<close> and \<open>held'\<close> are the
  tickets held at its two ends.
\<close>

definition kept :: "walk \<Rightarrow> walk \<Rightarrow> bool" where
  "kept st st' \<longleftrightarrow>
     st_primary st' = st_primary st \<and> st_namespace st' = st_namespace st \<and> inboundFormat st' = inboundFormat st
     \<and> maxDepth st' = maxDepth st \<and> primarySettle st' = primarySettle st
     \<and> attemptCount st \<le> attemptCount st' \<and> attemptCount st' \<le> max (attemptCount st) (maxDepth st)
     \<and> visited st \<subseteq> visited st' \<and> observed st \<subseteq> observed st'"

definition walked :: "Server \<Rightarrow> ticket list \<Rightarrow> walk \<Rightarrow> walk \<Rightarrow> ticket list \<Rightarrow> bool" where
  "walked s held st st' held' \<longleftrightarrow> kept st st'
     \<and> (\<exists>cs. w_calls st' = w_calls st @ cs
          \<and> (\<forall>a \<in> set (attempts cs). eligible s (st_primary st) (st_namespace st) (inboundFormat st) (fst a) (snd a))
          \<and> exclusive held cs \<and> held_after held cs = held')"

text \<open>
  The invariant of a walk: every contacted provider was visited, once, on an attempt of its own,
  only tickets of visited providers were settled, each once, and nothing was charged.
\<close>

definition contacted :: "walk \<Rightarrow> string list" where
  "contacted st = map (\<lambda>a. Name (fst a)) (attempts (w_calls st))"

definition walk_ok :: "walk \<Rightarrow> bool" where
  "walk_ok st \<longleftrightarrow> distinct (contacted st) \<and> set (contacted st) \<subseteq> visited st
     \<and> int (length (contacted st)) \<le> attemptCount st
     \<and> w_settled st = rev (settles (w_calls st)) \<and> distinct (settles (w_calls st)) \<and> (\<forall>tk \<in> set (settles (w_calls st)). tk_name tk \<in> visited st)
     \<and> charges (w_calls st) = []"

lemma keptD:
  assumes "kept st st'"
  shows "st_primary st' = st_primary st" "st_namespace st' = st_namespace st" "inboundFormat st' = inboundFormat st"
    "maxDepth st' = maxDepth st" "primarySettle st' = primarySettle st"
    "attemptCount st \<le> attemptCount st'" "attemptCount st' \<le> max (attemptCount st) (maxDepth st)"
    "visited st \<subseteq> visited st'" "observed st \<subseteq> observed st'"
  using assms unfolding kept_def by blast+

lemma kept_trans:
  assumes "kept st st'" "kept st' st''"
  shows "kept st st''"
  unfolding kept_def
proof (intro conjI)
  note a = keptD [OF assms(1)] and b = keptD [OF assms(2)]
  show "visited st \<subseteq> visited st''" "observed st \<subseteq> observed st''"
    using a(8,9) b(8,9) by (metis order_trans)+
  show "attemptCount st \<le> attemptCount st''" "attemptCount st'' \<le> max (attemptCount st) (maxDepth st)"
    using a(4,6,7) b(4,6,7) by linarith+
qed (simp_all only: keptD(1-5) [OF assms(1)] keptD(1-5) [OF assms(2)])

lemma walked_kept: "walked s h st st' h' \<Longrightarrow> kept st st'"
  by (simp add: walked_def)

lemma walked_trans:
  assumes "walked s h st st' h'" "walked s h' st' st'' h''"
  shows "walked s h st st'' h''"
proof -
  obtain cs where cs: "w_calls st' = w_calls st @ cs" "exclusive h cs" "held_after h cs = h'"
    "\<forall>a \<in> set (attempts cs). eligible s (st_primary st) (st_namespace st) (inboundFormat st) (fst a) (snd a)"
    using assms(1) unfolding walked_def by blast
  obtain ds where ds: "w_calls st'' = w_calls st' @ ds" "exclusive h' ds" "held_after h' ds = h''"
    "\<forall>a \<in> set (attempts ds). eligible s (st_primary st') (st_namespace st') (inboundFormat st') (fst a) (snd a)"
    using assms(2) unfolding walked_def by blast
  have kept: "kept st st'" "kept st' st''"
    using assms by (simp_all add: walked_kept)
  have "\<forall>a \<in> set (attempts (cs @ ds)). eligible s (st_primary st) (st_namespace st) (inboundFormat st) (fst a) (snd a)"
    using cs(4) ds(4) keptD(1-3) [OF kept(1)] unfolding attempts_append by auto
  moreover have "w_calls st'' = w_calls st @ cs @ ds" "exclusive h (cs @ ds)" "held_after h (cs @ ds) = h''"
    using cs(1-3) ds(1-3) by (simp_all add: walk_simps)
  ultimately show ?thesis
    unfolding walked_def using kept_trans [OF kept] by blast
qed

text \<open>A step that contacts no one and neither takes nor frees a ticket.\<close>

definition quiet :: "walk \<Rightarrow> walk \<Rightarrow> bool" where
  "quiet st st' \<longleftrightarrow> kept st st' \<and> w_settled st' = w_settled st
     \<and> (\<exists>cs. w_calls st' = w_calls st @ cs \<and> (\<forall>c \<in> set cs. quiet_call c))"

lemma quietI:
  assumes "st_primary st' = st_primary st" "st_namespace st' = st_namespace st" "inboundFormat st' = inboundFormat st"
    "maxDepth st' = maxDepth st" "primarySettle st' = primarySettle st"
    "attemptCount st \<le> attemptCount st'" "attemptCount st' \<le> max (attemptCount st) (maxDepth st)"
    "visited st \<subseteq> visited st'" "observed st \<subseteq> observed st'" "w_settled st' = w_settled st"
    "w_calls st' = w_calls st @ cs" "\<forall>c \<in> set cs. quiet_call c"
  shows "quiet st st'"
  using assms unfolding quiet_def kept_def by blast

lemma quiet_walked: "quiet st st' \<Longrightarrow> walked s h st st' h"
  unfolding quiet_def walked_def using quiet_calls by fastforce

lemma quiet_contacted: "quiet st st' \<Longrightarrow> contacted st' = contacted st"
  unfolding quiet_def contacted_def using quiet_calls(1) by (auto simp: walk_simps)

lemma quiet_settles:
  assumes "quiet st st'"
  shows "settles (w_calls st') = settles (w_calls st)" "charges (w_calls st') = charges (w_calls st)"
  using assms unfolding quiet_def using quiet_calls(4,5) by (auto simp: walk_simps)

lemma quiet_ok:
  assumes "quiet st st'" "walk_ok st"
  shows "walk_ok st'"
proof -
  have "kept st st'" "w_settled st' = w_settled st" using assms(1) by (auto simp: quiet_def)
  then show ?thesis
    using assms(2) keptD(6,8) [of st st'] unfolding walk_ok_def quiet_contacted [OF assms(1)] quiet_settles [OF assms(1)] by auto
qed

lemma quiet_refl: "quiet st st"
  by (rule quietI [of _ _ "[]"]) auto

lemma recordEvent_quiet: "quiet st (recordEvent r n rel re ac note st)"
  by (rule quietI [of _ _ "if srv_Recorder r then [EventCall n rel \<lparr>e_Type = EventTypeWarning, e_Reason = re, e_Action = ac, e_Note = note\<rparr>] else []"])
    (auto simp: recordEvent_def log_call_def quiet_call_def)

lemma recordCredentialFailure_quiet: "quiet st (recordCredentialFailure r p res st)"
  using recordEvent_quiet quiet_refl by (auto simp: recordCredentialFailure_def split: option.split)

lemma setModelFor_quiet: "quiet st (setModelFor ref m p st)"
  by (rule quietI [of _ _ "[]"]) (auto simp: setModelFor_def)

lemma staticallyIneligible_quiet:
  assumes "staticallyIneligible r p st = (st', reason)"
  shows "quiet st st'" "visited st' = visited st" "attemptCount st' = attemptCount st" "observed st' = observed st"
    "candidateModel st' p = candidateModel st p"
proof -
  have "st' = st\<lparr>translated := translated st'\<rparr>"
    using assms by (auto simp: staticallyIneligible_def translateFor_def Let_def split: if_splits option.splits sum.splits)
  then obtain tr where st': "st' = st\<lparr>translated := tr\<rparr>" by blast
  show "quiet st st'"
    by (rule quietI [of _ _ "[]"]) (auto simp: st')
  show "visited st' = visited st" "attemptCount st' = attemptCount st" "observed st' = observed st"
    "candidateModel st' p = candidateModel st p"
    by (simp_all add: st' candidateModel_def split: option.split)
qed

lemma staticallyIneligible_eligible:
  assumes "staticallyIneligible s p st = (st', [])"
    and "p = st_primary st \<or> (\<exists>n. ProviderByName (srv_Store s) n = Some p)"
  shows "eligible s (st_primary st) (st_namespace st) (inboundFormat st) p (candidateModel st p)"
  using assms by (auto simp: staticallyIneligible_def eligible_def namespaceGlobAllowed_iff Let_def split: if_splits)

text \<open>A ticket names its provider, and a refused candidate holds none.\<close>

lemma Admit_ticket:
  assumes "Admit now reps p ns wl b = (b', d, tk)"
  shows "tk = None \<or> (\<exists>t. tk = Some t \<and> tk_name t = Name p \<and> \<not> Unavailable d \<and> \<not> Throttled d \<and> d_Action d \<noteq> BudgetActionBlock)"
proof (cases "PeriodKey (period_of p) now = [] \<or> Policies (budget_of p) = []")
  case True
  then show ?thesis using assms by (auto simp: Admit_def Let_def)
next
  case False
  then have "(d, tk) = snd (withLedger now (Name p) (UID p) (period_of p)
      (admit_section now reps (stalenessWindow b) p ns wl) b)"
    using assms by (simp add: Admit_def Let_def)
  then obtain l where "(d, tk) = snd (admit_section now reps (stalenessWindow b) p ns wl l)"
    by (auto simp: withLedger_def Let_def split: prod.splits) (metis snd_conv)
  then show ?thesis
    by (cases rule: admit_section_cases [of now reps "stalenessWindow b" p ns wl l]) (auto simp: admit_section_def Let_def split: if_splits)
qed

fun tickets :: "ticket option \<Rightarrow> ticket list" where
  "tickets None = []"
| "tickets (Some tk) = [tk]"

lemma admitCandidate_primary:
  assumes "Name p = Name (st_primary st)" "primarySettle st = None \<or> srv_Budget s"
  shows "admitCandidate s p st = (st, Inr (primarySettle st))"
  using assms by (auto simp: admitCandidate_def)

lemma admitCandidate_fallback:
  assumes "admitCandidate s p st = (st', a)" "Name p \<noteq> Name (st_primary st)"
  shows "walked s [] st st' (case a of Inl c \<Rightarrow> [] | Inr sfn \<Rightarrow> tickets sfn)"
    and "candidateModel st' p = candidateModel st p" "contacted st' = contacted st" "w_settled st' = w_settled st"
    and "attemptCount st' = attemptCount st" "visited st' = visited st"
    and "\<And>tk. a = Inr (Some tk) \<Longrightarrow> tk_name tk = Name p" "settles (w_calls st') = settles (w_calls st)"
    and "charges (w_calls st') = charges (w_calls st)"
proof -
  obtain b d sfn where A: "Admit (w_now st) (w_replicas st) p (st_namespace st) (st_workload st) (w_ledger st) = (b, d, sfn)"
    by (metis surj_pair)
  note ticket = Admit_ticket [OF A]
  define ms where "ms = (if MarginRaisedNow d then [BoundaryMetric (Name p) (st_namespace st) ''margin_raised''] else [])
    @ (if Unavailable d then [BoundaryMetric (Name p) (st_namespace st) ''fail_closed'']
       else if Throttled d then [BoundaryMetric (Name p) (st_namespace st) ''throttled'']
       else if d_Action d \<noteq> BudgetActionBlock \<and> sfn \<noteq> None then [BoundaryMetric (Name p) (st_namespace st) ''engaged''] else [])"
  have quiet: "\<forall>c \<in> set ms. quiet_call c" by (auto simp: ms_def quiet_call_def split: if_splits)
  have "srv_Budget s \<Longrightarrow> w_calls st' = w_calls st @ AdmitCall p sfn # ms"
    and "srv_Budget s \<Longrightarrow> a = (if Unavailable d then Inl classBudgetUnavailable
          else if Throttled d \<or> d_Action d = BudgetActionBlock then Inl classBudget else Inr sfn)"
    and same: "kept st st'" "candidateModel st' p = candidateModel st p" "w_settled st' = w_settled st"
      "attemptCount st' = attemptCount st" "visited st' = visited st"
    and off: "\<not> srv_Budget s \<Longrightarrow> st' = st \<and> a = Inr None"
    using assms A by (auto simp: admitCandidate_def log_call_def Let_def ms_def kept_def candidateModel_def split: if_splits option.splits)
  then show "candidateModel st' p = candidateModel st p" "w_settled st' = w_settled st"
    "attemptCount st' = attemptCount st" "visited st' = visited st" by blast+
  have calls: "\<exists>cs. w_calls st' = w_calls st @ cs \<and> attempts cs = [] \<and> settles cs = [] \<and> charges cs = [] \<and> exclusive [] cs
      \<and> held_after [] cs = (case a of Inl c \<Rightarrow> [] | Inr sfn \<Rightarrow> tickets sfn)
      \<and> (\<forall>tk. a = Inr (Some tk) \<longrightarrow> tk_name tk = Name p)"
  proof (cases "srv_Budget s")
    case True
    have "held_after [] (AdmitCall p sfn # ms) = tickets sfn" "exclusive [] (AdmitCall p sfn # ms)" "attempts (AdmitCall p sfn # ms) = []"
      "settles (AdmitCall p sfn # ms) = []" "charges (AdmitCall p sfn # ms) = []"
      using quiet_calls [OF quiet] by (cases sfn; simp add: held_after_def)+
    then show ?thesis
      using ticket \<open>srv_Budget s \<Longrightarrow> w_calls st' = _\<close> \<open>srv_Budget s \<Longrightarrow> a = _\<close> True
      by (intro exI [of _ "AdmitCall p sfn # ms"]) auto
  next
    case False
    then show ?thesis using off by (auto simp: walk_simps intro!: exI [of _ "[]"])
  qed
  then show "walked s [] st st' (case a of Inl c \<Rightarrow> [] | Inr sfn \<Rightarrow> tickets sfn)"
    unfolding walked_def using same(1) by auto
  show "contacted st' = contacted st" "settles (w_calls st') = settles (w_calls st)" "charges (w_calls st') = charges (w_calls st)"
    using calls by (auto simp: contacted_def walk_simps)
  show "tk_name tk = Name p" if "a = Inr (Some tk)" for tk using calls that by auto
qed

subsection \<open>Walking the children\<close>

text \<open>
  \<open>ready\<close> is the state in which a walk descends: the primary is visited. \<open>walks\<close> is what a
  recursive call does from there while it has fuel for the attempts that are left.
\<close>

definition primary_ticket :: "Server \<Rightarrow> walk \<Rightarrow> bool" where
  "primary_ticket s st \<longleftrightarrow> (\<forall>tk. primarySettle st = Some tk \<longrightarrow> srv_Budget s \<and> tk_name tk = Name (st_primary st))"

definition ready :: "Server \<Rightarrow> walk \<Rightarrow> bool" where
  "ready s st \<longleftrightarrow> walk_ok st \<and> Name (st_primary st) \<in> visited st \<and> primary_ticket s st"

definition fuelled :: "nat \<Rightarrow> walk \<Rightarrow> bool" where
  "fuelled fuel st \<longleftrightarrow> 0 < fuel \<and> maxDepth st - attemptCount st < int fuel"

text \<open>
  The answer of a walk: its ticket is open, both are of a contacted provider, and unless the
  caller left there is a response that is not fallbackable. The model is the one the provider was called with.
\<close>

definition sound_result :: "walk \<Rightarrow> forwardResult \<Rightarrow> bool" where
  "sound_result st res \<longleftrightarrow> set (tickets (fr_settle res)) \<inter> set (w_settled st) = {}
     \<and> (w_ctxErr st \<or> (\<exists>resp. fr_resp res = Some resp \<and> \<not> fst (isFallbackable (StatusCode resp)))) \<and> (fr_resp res \<noteq> None \<longrightarrow> fr_chosen res \<noteq> None)
     \<and> (\<forall>q. fr_chosen res = Some q \<longrightarrow> (q, fr_model res) \<in> set (attempts (w_calls st)) \<and> (\<forall>tk. fr_settle res = Some tk \<longrightarrow> tk_name tk = Name q))"

definition completes :: "Server \<Rightarrow> walk \<Rightarrow> walkResult \<Rightarrow> bool" where
  "completes s st r \<longleftrightarrow> (\<exists>st' res ok. r = Some (st', res, ok) \<and> walk_ok st'
     \<and> (ok \<longrightarrow> sound_result st' res)
     \<and> walked s [] st st' (if ok then tickets (fr_settle res) else []))"

definition walks :: "nat \<Rightarrow> Server \<Rightarrow> (ModelProvider \<Rightarrow> walk \<Rightarrow> walkResult) \<Rightarrow> bool" where
  "walks fuel s tryNext \<longleftrightarrow> (\<forall>p st. ready s st \<longrightarrow> fuelled fuel st \<longrightarrow>
     (\<exists>n. ProviderByName (srv_Store s) n = Some p) \<longrightarrow> completes s st (tryNext p st))"

lemma kept_ready:
  assumes "kept st st'" "walk_ok st'" "ready s st"
  shows "ready s st'"
  using assms keptD(1,5,8) [OF assms(1)] by (auto simp: ready_def primary_ticket_def)

lemma kept_fuelled: "kept st st' \<Longrightarrow> fuelled fuel st \<Longrightarrow> fuelled fuel st'"
  using keptD(4,6) [of st st'] by (auto simp: fuelled_def)

lemma quiet_ready: "quiet st st' \<Longrightarrow> ready s st \<Longrightarrow> ready s st'"
  by (meson kept_ready quiet_def quiet_ok ready_def)

lemma completesI:
  "walk_ok st' \<Longrightarrow> (ok \<longrightarrow> sound_result st' res) \<Longrightarrow> walked s [] st st' (if ok then tickets (fr_settle res) else []) \<Longrightarrow> completes s st (Some (st', res, ok))"
  unfolding completes_def by blast

lemma completes_after:
  assumes "walked s [] st st' []" "completes s st' r"
  shows "completes s st r"
proof -
  obtain st'' res ok where r: "r = Some (st'', res, ok)" "walk_ok st''"
    "ok \<longrightarrow> sound_result st'' res" "walked s [] st' st'' (if ok then tickets (fr_settle res) else [])"
    using assms(2) unfolding completes_def by blast
  then show ?thesis
    unfolding completes_def using walked_trans [OF assms(1) r(4)] by blast
qed

lemma walkRefs_completes:
  assumes "walks fuel s tryNext" "ready s st" "fuelled fuel st"
  shows "completes s st (walkRefs s tryNext m refs st)"
  using assms(2,3)
proof (induction refs arbitrary: st)
  case Nil
  have "walk_ok st" "walked s [] st st []"
    using Nil quiet_walked [OF quiet_refl] by (auto simp: ready_def)
  then show ?case
    unfolding completes_def by (intro exI [of _ st] exI [of _ no_result] exI [of _ False]) simp
next
  case (Cons ref refs)
  show ?case
  proof (cases "ProviderByName (srv_Store s) (ref_Name ref)")
    case None
    let ?st = "recordEvent s (Name (st_primary st)) None ReasonFallbackIneligible ActionFallback
               (''fallback '' @ Quote (ref_Name ref) @ '' skipped: provider does not exist'') st"
    have q: "quiet st ?st" by (rule recordEvent_quiet)
    have "kept st ?st" using q by (simp add: quiet_def)
    then have "completes s ?st (walkRefs s tryNext m refs ?st)"
      by (intro Cons.IH quiet_ready [OF q Cons.prems(1)] kept_fuelled [OF _ Cons.prems(2)])
    then show ?thesis
      using None completes_after [OF quiet_walked [OF q]] by simp
  next
    case (Some p)
    let ?st = "setModelFor ref m p st"
    have q: "quiet st ?st" by (rule setModelFor_quiet)
    have "kept st ?st" using q by (simp add: quiet_def)
    then have "ready s ?st" "fuelled fuel ?st"
      by (intro quiet_ready [OF q Cons.prems(1)] kept_fuelled [OF _ Cons.prems(2)])+
    then obtain st' res ok where r: "tryNext p ?st = Some (st', res, ok)" "walk_ok st'"
      "ok \<longrightarrow> sound_result st' res"
      "walked s [] ?st st' (if ok then tickets (fr_settle res) else [])"
      using assms(1) Some unfolding walks_def completes_def by blast
    show ?thesis
    proof (cases ok)
      case True
      then show ?thesis
        using r(1,2) Some completesI [OF r(2,3) walked_trans [OF quiet_walked [OF q] r(4)]] by simp
    next
      case False
      have w: "walked s [] st st' []"
        using r(4) False walked_trans [OF quiet_walked [OF q]] by simp
      have "completes s st' (walkRefs s tryNext m refs st')"
        by (intro Cons.IH kept_ready [OF walked_kept [OF w] r(2) Cons.prems(1)] kept_fuelled [OF walked_kept [OF w] Cons.prems(2)])
      then show ?thesis
        using r(1) Some False completes_after [OF w] by simp
    qed
  qed
qed

lemma walkChildren_completes:
  "walks fuel s tryNext \<Longrightarrow> ready s st \<Longrightarrow> fuelled fuel st \<Longrightarrow> completes s st (walkChildren s tryNext p st)"
  unfolding walkChildren_def by (rule walkRefs_completes)

lemma callSettle_walked:
  assumes "tk \<notin> set (w_settled st)"
  shows "walked s [tk] st (callSettle tk c st) []" "observed (callSettle tk c st) = observed st"
    "walk_ok st \<Longrightarrow> tk_name tk \<in> visited st \<Longrightarrow> c = 0 \<Longrightarrow> walk_ok (callSettle tk c st)"
proof -
  have "kept st (callSettle tk c st)" by (simp add: callSettle_def kept_def log_call_def)
  moreover have "w_calls (callSettle tk c st) = w_calls st @ [SettleCall tk c]"
    using assms by (simp add: callSettle_def log_call_def)
  ultimately show "walked s [tk] st (callSettle tk c st) []"
    unfolding walked_def by (auto simp: held_after_def intro!: exI [of _ "[SettleCall tk c]"])
  show "observed (callSettle tk c st) = observed st" by (simp add: callSettle_def log_call_def)
  show "walk_ok (callSettle tk c st)" if "walk_ok st" "tk_name tk \<in> visited st" "c = 0"
    using that assms by (simp add: walk_ok_def contacted_def callSettle_def log_call_def walk_simps)
qed

lemma admitCandidate_walked:
  assumes "admitCandidate s p st = (st', a)" "primary_ticket s st"
    and "h = (if Name p = Name (st_primary st) then tickets (primarySettle st) else [])"
  shows "walked s h st st' (case a of Inl c \<Rightarrow> [] | Inr sfn \<Rightarrow> tickets sfn)"
    and "contacted st' = contacted st" "candidateModel st' p = candidateModel st p" "w_settled st' = w_settled st"
    and "attemptCount st' = attemptCount st" "visited st' = visited st"
    and "\<And>tk. a = Inr (Some tk) \<Longrightarrow> tk_name tk = Name p"
    and "Name p = Name (st_primary st) \<Longrightarrow> \<exists>sfn. a = Inr sfn" "settles (w_calls st') = settles (w_calls st)"
    and "charges (w_calls st') = charges (w_calls st)"
proof -
  have primary: "st' = st" "a = Inr (primarySettle st)" if "Name p = Name (st_primary st)"
  proof -
    have "primarySettle st = None \<or> srv_Budget s" using assms(2) by (cases "primarySettle st") (auto simp: primary_ticket_def)
    then show "st' = st" "a = Inr (primarySettle st)"
      using admitCandidate_primary [of p st s] that assms(1) by auto
  qed
  show "Name p = Name (st_primary st) \<Longrightarrow> \<exists>sfn. a = Inr sfn" using primary by blast
  note other = admitCandidate_fallback [OF assms(1)]
  show "walked s h st st' (case a of Inl c \<Rightarrow> [] | Inr sfn \<Rightarrow> tickets sfn)"
    using primary other(1) assms(3) quiet_walked [OF quiet_refl] by (cases "Name p = Name (st_primary st)") auto
  show "contacted st' = contacted st" "candidateModel st' p = candidateModel st p" "w_settled st' = w_settled st"
    "attemptCount st' = attemptCount st" "visited st' = visited st" "settles (w_calls st') = settles (w_calls st)"
    "charges (w_calls st') = charges (w_calls st)"
    using primary(1) other(2-6,8,9) by auto
  show "tk_name tk = Name p" if "a = Inr (Some tk)" for tk
    using primary other(7) that assms(2) by (cases "Name p = Name (st_primary st)") (auto simp: primary_ticket_def)
qed

text \<open>The state from which the proxy starts a walk.\<close>

definition started :: "Server \<Rightarrow> walk \<Rightarrow> bool" where
  "started s st \<longleftrightarrow> visited st = {} \<and> contacted st = [] \<and> attemptCount st = 0 \<and> observed st = {} \<and> w_settled st = []
     \<and> settles (w_calls st) = [] \<and> charges (w_calls st) = [] \<and> primary_ticket s st"

subsection \<open>The contract of an attempt\<close>

lemma isFallbackable_2xx: "200 \<le> status \<Longrightarrow> status \<le> 299 \<Longrightarrow> \<not> fst (isFallbackable status)"
  by (simp add: isFallbackable_def)

lemma candidateModel_log: "candidateModel (log_call c st) p = candidateModel st p"
  by (simp add: candidateModel_def log_call_def split: option.split)

text \<open>
  What the walk relies on: an attempt changes nothing of the walk but the classes it observed,
  makes no call to the ledger or to another attempt, observes the class of a failure unless the
  caller left, calls only a failure of a provider fallbackable, takes a response's status for
  whether it is, and answers for its candidate.
\<close>

locale walk_attempt =
  fixes attempt :: "ModelProvider \<Rightarrow> walk \<Rightarrow> walk \<times> forwardResult"
  assumes frame: "attempt p st = (st', res) \<Longrightarrow>
      walkState.truncate st' = (walkState.truncate st)\<lparr>observed := observed st'\<rparr> \<and> w_settled st' = w_settled st"
    and calls: "attempt p st = (st', res) \<Longrightarrow> \<exists>cs. w_calls st' = w_calls st @ cs \<and> (\<forall>c \<in> set cs. quiet_call c)"
    and observes: "attempt p st = (st', res) \<Longrightarrow>
      observed st' = (if w_ctxErr st' \<or> fr_class res = classNone then observed st else insert (fr_class res) (observed st))"
    and classes: "attempt p st = (st', res) \<Longrightarrow> fallilable res \<Longrightarrow> fr_class res \<in> {classConnect, classTimeout, classUpstream}"
    and chosen: "attempt p st = (st', res) \<Longrightarrow> fr_chosen res = (if fr_resp res = None then None else Some p)"
    and models: "attempt p st = (st', res) \<Longrightarrow> fr_model res = candidateModel st p"
    and answers: "attempt p st = (st', res) \<Longrightarrow> \<not> fallilable res \<Longrightarrow> fr_resp res \<noteq> None"
    and statuses: "attempt p st = (st', res) \<Longrightarrow> fr_resp res = Some resp \<Longrightarrow> fallilable res = fst (isFallbackable (StatusCode resp))"
begin

lemma attempt_quiet:
  assumes "attempt p st = (st', res)"
  shows "quiet st st'"
proof -
  obtain cs where cs: "w_calls st' = w_calls st @ cs" "\<forall>c \<in> set cs. quiet_call c" using calls [OF assms] by blast
  have f: "walkState.truncate st' = (walkState.truncate st)\<lparr>observed := observed st'\<rparr>" "w_settled st' = w_settled st"
    using frame [OF assms] by auto
  have "observed st \<subseteq> observed st'" using observes [OF assms] by auto
  then show ?thesis
    using f cs by (intro quietI [of _ _ cs]) (auto simp: walkState.truncate_def)
qed

text \<open>The whole step on a candidate that is about to be contacted.\<close>

lemma attempt_step:
  assumes "attempt p (log_call (AttemptCall p m) st) = (st', res)" "walk_ok st" "Name p \<notin> set (contacted st)" "Name p \<in> visited st"
    and "int (length (contacted st)) < attemptCount st" "\<forall>tk \<in> set h. tk_name tk = Name p"
    and "eligible s (st_primary st) (st_namespace st) (inboundFormat st) p m"
  shows "walked s h st st' h" "walk_ok st'"
proof -
  let ?st = "log_call (AttemptCall p m) st"
  have q: "quiet ?st st'" using assms(1) by (rule attempt_quiet)
  have "kept st ?st" by (simp add: kept_def log_call_def)
  moreover have "\<exists>cs. w_calls ?st = w_calls st @ cs
      \<and> (\<forall>a \<in> set (attempts cs). eligible s (st_primary st) (st_namespace st) (inboundFormat st) (fst a) (snd a))
      \<and> exclusive h cs \<and> held_after h cs = h"
    using assms(6,7) by (intro exI [of _ "[AttemptCall p m]"]) (auto simp: log_call_def held_after_def)
  ultimately have "walked s h st ?st h" unfolding walked_def by blast
  then show "walked s h st st' h" using quiet_walked [OF q] walked_trans by blast
  have "walk_ok ?st"
    using assms(2-5) by (simp add: walk_ok_def contacted_def log_call_def walk_simps)
  then show "walk_ok st'" using q quiet_ok by blast
qed

lemma runCandidate_completes:
  assumes children: "\<And>st'. ready s st' \<Longrightarrow> fuelled fuel st' \<Longrightarrow> completes s st' (children st')"
    and st: "ready s st" "fuelled fuel st" "Name p \<in> visited st" "Name p \<notin> set (contacted st)"
      "int (length (contacted st)) < attemptCount st"
      "eligible s (st_primary st) (st_namespace st) (inboundFormat st) p (candidateModel st p)"
    and sfn: "\<And>tk. sfn = Some tk \<Longrightarrow> tk_name tk = Name p \<and> tk \<notin> set (w_settled st)"
  obtains st' res ok where "runCandidate s attempt children p sfn st = Some (st', res, ok)" "walk_ok st'"
    "ok \<longrightarrow> sound_result st' res"
    "walked s (tickets sfn) st st' (if ok then tickets (fr_settle res) else [])"
    "\<not> ok \<longrightarrow> observed st' \<inter> {classConnect, classTimeout, classUpstream} \<noteq> {}"
proof -
  obtain st1 res where a: "attempt p (log_call (AttemptCall p (candidateModel st p)) st) = (st1, res)"
    by (cases "attempt p (log_call (AttemptCall p (candidateModel st p)) st)")
  have held: "\<forall>tk \<in> set (tickets sfn). tk_name tk = Name p" using sfn by (cases sfn) auto
  have ok: "walk_ok st" using st(1) by (simp add: ready_def)
  note step = attempt_step [OF a ok st(4,3,5) held st(6)]
  let ?res = "res\<lparr>fr_settle := sfn\<rparr>"
  show thesis
  proof (cases "w_ctxErr st1 \<or> succeeded ?res \<or> \<not> fallilable res")
    case True
    then have "runCandidate s attempt children p sfn st = Some (st1, ?res, True)"
      using a by (auto simp: runCandidate_def Let_def)
    moreover have "sound_result st1 ?res"
    proof -
      obtain cs where "w_calls st1 = w_calls st @ AttemptCall p (candidateModel st p) # cs"
        using calls [OF a] by (auto simp: log_call_def)
      then have "(p, fr_model res) \<in> set (attempts (w_calls st1))"
        using models [OF a] by (simp add: candidateModel_log walk_simps)
      moreover have "w_settled st1 = w_settled st" using frame [OF a] by (simp add: log_call_def)
      moreover have "w_ctxErr st1 \<or> (\<exists>resp. fr_resp res = Some resp \<and> \<not> fst (isFallbackable (StatusCode resp)))"
        using True
      proof (elim disjE)
        assume "succeeded ?res"
        then show ?thesis using isFallbackable_2xx by (auto simp: succeeded_def split: option.splits)
      next
        assume "\<not> fallilable res"
        then show ?thesis using answers [OF a] statuses [OF a] by blast
      qed simp
      ultimately show ?thesis
        unfolding sound_result_def using sfn chosen [OF a] by (cases sfn) (simp_all split: if_splits)
    qed
    ultimately show thesis using that step by simp
  next
    case False
    define st2 where "st2 = (case sfn of None \<Rightarrow> st1 | Some tk \<Rightarrow> callSettle tk 0 st1)"
    define st3 where "st3 = recordCredentialFailure s p (?res\<lparr>fr_settle := None\<rparr>) st2"
    have cls: "fr_class res \<in> {classConnect, classTimeout, classUpstream}" "fr_class res \<in> observed st1"
      using classes [OF a] observes [OF a] False by auto
    have settled: "w_settled st1 = w_settled st" using frame [OF a] by (simp add: log_call_def)
    have "Name p \<in> visited st1" using st(3) keptD(8) [OF walked_kept [OF step(1)]] by blast
    then have two: "walked s (tickets sfn) st1 st2 []" "walk_ok st2" "observed st2 = observed st1"
      using callSettle_walked [of _ st1] quiet_walked [OF quiet_refl] step(2) sfn settled
      by (auto simp: st2_def split: option.split)
    have q: "quiet st2 st3" unfolding st3_def by (rule recordCredentialFailure_quiet)
    have three: "walked s (tickets sfn) st st3 []" "walk_ok st3" "observed st2 \<subseteq> observed st3"
      using walked_trans [OF walked_trans [OF step(1) two(1)] quiet_walked [OF q]] quiet_ok [OF q two(2)] q
      by (auto simp: quiet_def dest: keptD(9))
    then obtain st' child ok where c: "children st3 = Some (st', child, ok)" "walk_ok st'"
      "ok \<longrightarrow> sound_result st' child"
      "walked s [] st3 st' (if ok then tickets (fr_settle child) else [])"
      using children [of st3] st(1,2) kept_ready [OF walked_kept [OF three(1)]] kept_fuelled [OF walked_kept [OF three(1)]]
      unfolding completes_def by blast
    have res: "recordCredentialFailure s p ?res = recordCredentialFailure s p (?res\<lparr>fr_settle := None\<rparr>)"
      by (intro ext) (simp add: recordCredentialFailure_def)
    have run: "runCandidate s attempt children p sfn st = Some (st', if ok then child else res\<lparr>fr_settle := None\<rparr>, ok)"
      using a False c(1) unfolding st3_def st2_def
      by (auto simp: runCandidate_def Let_def split: option.splits)
    have "observed st3 \<subseteq> observed st'" using keptD(9) [OF walked_kept [OF c(4)]] .
    then have "observed st' \<inter> {classConnect, classTimeout, classUpstream} \<noteq> {}"
      using cls two(3) three(3) by blast
    moreover have "walked s (tickets sfn) st st' (if ok then tickets (fr_settle (if ok then child else res\<lparr>fr_settle := None\<rparr>)) else [])"
      using walked_trans [OF three(1) c(4)] by (cases ok) simp_all
    ultimately show thesis using that run c(2,3) by (cases ok) simp_all
  qed
qed

text \<open>One call: \<open>h\<close> is what the request holds when it enters.\<close>

lemma try_step:
  assumes w: "walks fuel s (tryWithFallbacks fuel s attempt)"
    and st: "walk_ok st" "primary_ticket s st" "p = st_primary st \<or> (\<exists>n. ProviderByName (srv_Store s) n = Some p)"
      "fuelled (Suc fuel) st"
    and h: "if Name p = Name (st_primary st) \<and> Name p \<notin> visited st then h = tickets (primarySettle st)
            else h = [] \<and> Name (st_primary st) \<in> visited st"
  obtains st' res ok h' where "tryWithFallbacks (Suc fuel) s attempt p st = Some (st', res, ok)" "walk_ok st'" "walked s h st st' h'"
    "h' = (if ok then tickets (fr_settle res) else []) \<or> \<not> ok \<and> h' = h \<and> w_settled st' = w_settled st" "ok \<longrightarrow> sound_result st' res"
    "\<not> ok \<Longrightarrow> Name p = Name (st_primary st) \<Longrightarrow> observed st' = observed st \<or> observed st' \<inter> {classConnect, classTimeout, classUpstream} \<noteq> {}"
proof (cases "Name p \<in> visited st")
  case True
  then show thesis using that [of st no_result False h] st(1) quiet_walked [OF quiet_refl] by simp
next
  case new: False
  let ?st = "st\<lparr>visited := insert (Name p) (visited st)\<rparr>"
  obtain st1 reason where e: "staticallyIneligible s p ?st = (st1, reason)" by (cases "staticallyIneligible s p ?st")
  have "quiet st ?st" by (rule quietI [of _ _ "[]"]) auto
  then have ok: "walk_ok st1" "walked s h st st1 h" and c1: "contacted st1 = contacted st"
    using staticallyIneligible_quiet(1) [OF e] quiet_ok quiet_walked walked_trans quiet_contacted st(1) by metis+
  have same: "visited st1 = insert (Name p) (visited st)" "attemptCount st1 = attemptCount st" "observed st1 = observed st"
    "w_settled st1 = w_settled st" "candidateModel st1 p = candidateModel ?st p"
    using staticallyIneligible_quiet [OF e] by (auto simp: quiet_def)
  show thesis
  proof (cases "reason \<noteq> [] \<or> attemptCount st1 \<ge> maxDepth st1")
    case True
    define ev where "ev = recordEvent s (Name (st_primary st1)) (fallbackCandidate (st_primary st1) p) ReasonFallbackIneligible
      ActionFallback (''fallback '' @ Quote (Name p) @ '' skipped: '' @ reason) st1"
    have q: "quiet st1 ev" "observed ev = observed st1" "w_settled ev = w_settled st1"
      unfolding ev_def by (rule recordEvent_quiet) (simp_all add: recordEvent_def log_call_def)
    have "tryWithFallbacks (Suc fuel) s attempt p st = Some (if reason \<noteq> [] then ev else st1, no_result, False)"
      using True e new by (auto simp: ev_def)
    moreover have "walk_ok ev" "walked s h st ev h"
      using quiet_ok [OF q(1) ok(1)] walked_trans [OF ok(2) quiet_walked [OF q(1)]] .
    ultimately show thesis
      using that [of "if reason \<noteq> [] then ev else st1" no_result False h] ok q(2,3) same(3,4) by simp
  next
    case False
    let ?st1 = "st1\<lparr>attemptCount := attemptCount st1 + 1\<rparr>"
    have q: "quiet st1 ?st1" using False by (intro quietI [of _ _ "[]"]) auto
    have ok1: "walk_ok ?st1" "walked s h st ?st1 h"
      using quiet_ok [OF q ok(1)] walked_trans [OF ok(2) quiet_walked [OF q]] .
    have k1: "kept st ?st1" using ok1(2) by (rule walked_kept)
    have ready: "ready s ?st1"
      using ok1(1) h same(1) st(2) keptD(1,5) [OF k1] by (auto simp: ready_def primary_ticket_def split: if_splits)
    have fuel: "fuelled fuel ?st1"
      using st(4) False same(2) keptD(4) [OF k1] by (auto simp: fuelled_def)
    have elig: "eligible s (st_primary ?st1) (st_namespace ?st1) (inboundFormat ?st1) p (candidateModel ?st1 p)"
    proof -
      have "candidateModel ?st1 p = candidateModel st1 p"
        by (simp add: candidateModel_def split: option.split)
      then have "candidateModel ?st1 p = candidateModel ?st p" using same(5) by (rule trans)
      then show ?thesis
        using staticallyIneligible_eligible [of s p ?st st1] e False st(3) keptD(1-3) [OF k1] by simp
    qed
    have fresh: "Name p \<notin> set (contacted ?st1)" "int (length (contacted ?st1)) < attemptCount ?st1"
      using c1 st(1) new same(2) by (auto simp: contacted_def walk_ok_def)
    have unsettled: "tk \<notin> set (w_settled st)" if "tk_name tk = Name p" for tk
      using st(1) new that by (auto simp: walk_ok_def)
    let ?children = "walkChildren s (tryWithFallbacks fuel s attempt) p"
    obtain st2 a where ad: "admitCandidate s p ?st1 = (st2, a)" by (cases "admitCandidate s p ?st1")
    have body: "tryWithFallbacks (Suc fuel) s attempt p st =
      (case a of Inl refusal \<Rightarrow> (case ?children st2 of None \<Rightarrow> None
         | Some (st, res, ok) \<Rightarrow> if ok then Some (st, res, True) else Some (st, no_result\<lparr>fr_class := refusal\<rparr>, False))
       | Inr sfn \<Rightarrow> runCandidate s attempt ?children p sfn st2)"
      using new e False ad by (simp add: Let_def)
    have h1: "h = (if Name p = Name (st_primary ?st1) then tickets (primarySettle ?st1) else [])"
      using h new keptD(1,5) [OF k1] by (simp split: if_splits)
    have "primary_ticket s ?st1" using ready by (simp add: ready_def)
    note two = admitCandidate_walked [OF ad this h1]
    have k2: "kept ?st1 st2" using two(1) by (rule walked_kept)
    have ok2: "walk_ok st2"
      using ok1(1) two(2,4-6,9,10) same(4) by (simp add: walk_ok_def)
    have r2: "ready s st2" "fuelled fuel st2"
      using kept_ready [OF k2 ok2 ready] kept_fuelled [OF k2 fuel] .
    have children: "completes s x (?children x)" if "ready s x" "fuelled fuel x" for x
      using w that by (rule walkChildren_completes)
    show thesis
    proof (cases a)
      case (Inl refusal)
      obtain st' res ok where c: "?children st2 = Some (st', res, ok)" "walk_ok st'"
        "ok \<longrightarrow> sound_result st' res" "walked s [] st2 st' (if ok then tickets (fr_settle res) else [])"
        using children [OF r2] unfolding completes_def by blast
      have "walked s h st st' (if ok then tickets (fr_settle res) else [])"
        using walked_trans [OF walked_trans [OF ok1(2) two(1)]] c(4) Inl by simp
      moreover have "Name p \<noteq> Name (st_primary st)" using two(8) Inl keptD(1) [OF k1] by auto
      ultimately show thesis
        using that [of st' "if ok then res else no_result\<lparr>fr_class := refusal\<rparr>" ok] body Inl c(1-3) by (cases ok) simp_all
    next
      case (Inr sfn)
      have tk: "tk_name tk = Name p \<and> tk \<notin> set (w_settled st2)" if "sfn = Some tk" for tk
        using two(4) two(7) [of tk] Inr that unsettled same(4) by simp
      have p2: "Name p \<in> visited st2" "Name p \<notin> set (contacted st2)" "int (length (contacted st2)) < attemptCount st2"
        "eligible s (st_primary st2) (st_namespace st2) (inboundFormat st2) p (candidateModel st2 p)"
        using two(2,3,5,6) fresh elig same(1) keptD(1-3) [OF k2] by simp_all
      obtain st' res ok where r: "runCandidate s attempt ?children p sfn st2 = Some (st', res, ok)" "walk_ok st'"
        "ok \<longrightarrow> sound_result st' res"
        "walked s (tickets sfn) st2 st' (if ok then tickets (fr_settle res) else [])"
        "\<not> ok \<longrightarrow> observed st' \<inter> {classConnect, classTimeout, classUpstream} \<noteq> {}"
        by (rule runCandidate_completes [OF children r2 p2 tk]) blast
      have "walked s h st st' (if ok then tickets (fr_settle res) else [])"
        using walked_trans [OF walked_trans [OF ok1(2) two(1)]] r(4) Inr by simp
      then show thesis using that [of st' res ok] body Inr r(1-3,5) by simp
    qed
  qed
qed

lemma tryWithFallbacks_walks: "walks fuel s (tryWithFallbacks fuel s attempt)"
proof (induction fuel)
  case 0
  then show ?case by (simp add: walks_def fuelled_def)
next
  case (Suc fuel)
  show ?case
    unfolding walks_def
  proof (intro allI impI)
    fix p st
    assume r: "ready s st" "fuelled (Suc fuel) st" "\<exists>n. ProviderByName (srv_Store s) n = Some p"
    obtain st' res ok h' where "tryWithFallbacks (Suc fuel) s attempt p st = Some (st', res, ok)" "walk_ok st'" "walked s [] st st' h'"
      "h' = (if ok then tickets (fr_settle res) else []) \<or> \<not> ok \<and> h' = []" "ok \<longrightarrow> sound_result st' res"
      by (rule try_step [OF Suc, of st p "[]"]) (use r in \<open>auto simp: ready_def\<close>)
    then show "completes s st (tryWithFallbacks (Suc fuel) s attempt p st)"
      using completesI [of st' ok res s st] by (auto split: if_splits)
  qed
qed

text \<open>A walk from the primary, with more fuel than it may make attempts.\<close>

lemma walk_total:
  assumes "started s st" "nat (maxDepth st) \<le> fuel"
  obtains st' res ok h' where "tryWithFallbacks (Suc fuel) s attempt (st_primary st) st = Some (st', res, ok)"
    "walk_ok st'" "walked s (tickets (primarySettle st)) st st' h'"
    "h' = (if ok then tickets (fr_settle res) else []) \<or> \<not> ok \<and> h' = tickets (primarySettle st) \<and> w_settled st' = []"
    "ok \<longrightarrow> sound_result st' res"
    "\<not> ok \<Longrightarrow> observed st' = {} \<or> observed st' \<inter> {classConnect, classTimeout, classUpstream} \<noteq> {}"
proof -
  have st: "visited st = {}" "contacted st = []" "attemptCount st = 0" "observed st = {}" "w_settled st = []" "primary_ticket s st"
    "settles (w_calls st) = []" "charges (w_calls st) = []"
    using assms by (auto simp: started_def)
  have "walk_ok st" "fuelled (Suc fuel) st"
    using st assms(2) by (auto simp: walk_ok_def fuelled_def)
  moreover have "if Name (st_primary st) = Name (st_primary st) \<and> Name (st_primary st) \<notin> visited st
      then tickets (primarySettle st) = tickets (primarySettle st)
      else tickets (primarySettle st) = [] \<and> Name (st_primary st) \<in> visited st"
    using st by simp
  ultimately show thesis
    using try_step [OF tryWithFallbacks_walks, of st s "st_primary st" fuel "tickets (primarySettle st)"] st(4-6) that
    by metis
qed

end

end
