(* ===== verification/Rate_Limiter.thy ===== *)
theory Rate_Limiter
  imports Api_Types
begin

text \<open>
  The rate limiter of a gateway replica (\<^verbatim>\<open>src/internal/gateway/ratelimit.go\<close>): one
  token bucket per key, refilled on use. The mutex makes each call one step; the clock and the
  replica count are arguments. Rates and levels are exact rationals.

  \<open>refill\<close> is the arithmetic of \<^verbatim>\<open>refilled\<close> on one bucket. The locale
  \<open>bucket_law\<close> states what the limiter relies on of it, and derives from these laws alone
  that a bucket admits no more than its burst plus what it earned.
\<close>

subsection \<open>Buckets\<close>

record tokenBucket =
  tokens :: rat
  lastRefill :: gotime

type_synonym buckets = "(string, tokenBucket) gomap"

definition minutes_of :: "duration \<Rightarrow> rat" where
  "minutes_of d = of_int d / of_int minute"

definition refill :: "gotime \<Rightarrow> rat \<Rightarrow> rat \<Rightarrow> tokenBucket option \<Rightarrow> tokenBucket" where
  "refill now perMinute burst found =
     (let b = (case found of None \<Rightarrow> \<lparr>tokens = burst, lastRefill = now\<rparr> | Some b \<Rightarrow> b);
          b = (if tokens b < - burst then b\<lparr>tokens := - burst\<rparr> else b);
          elapsed = minutes_of (now - lastRefill b);
          b = (if elapsed > 0 then b\<lparr>tokens := tokens b + elapsed * perMinute, lastRefill := now\<rparr> else b)
      in if tokens b > burst then b\<lparr>tokens := burst\<rparr> else b)"

definition refilled :: "gotime \<Rightarrow> string \<Rightarrow> rat \<Rightarrow> rat \<Rightarrow> buckets \<Rightarrow> buckets \<times> tokenBucket" where
  "refilled now key perMinute burst bs =
     (let b = refill now perMinute burst (map_of bs key) in (AList.update key b bs, b))"

text \<open>\<^verbatim>\<open>math.Round\<close> rounds half away from zero; integer division truncates.\<close>

definition math_Round :: "rat \<Rightarrow> int" where
  "math_Round x = (if 0 \<le> x then \<lfloor>x + 1 / 2\<rfloor> else \<lceil>x - 1 / 2\<rceil>)"

definition go_div :: "int \<Rightarrow> int \<Rightarrow> int" where
  "go_div a b = sgn a * sgn b * (\<bar>a\<bar> div \<bar>b\<bar>)"

definition retryAfterSeconds :: "rat \<Rightarrow> rat \<Rightarrow> int" where
  "retryAfterSeconds deficit perMinute =
     (let wait = math_Round (deficit / perMinute * of_int minute);
          secs = go_div (wait + second - 1) second
      in if secs < 1 then 1 else secs)"

definition replicas :: "int \<Rightarrow> int" where
  "replicas n = (if n > 1 then n else 1)"

definition perReplica :: "int \<Rightarrow> int \<Rightarrow> rat" where
  "perReplica limit reps = of_int limit / of_int reps"

definition requestBurst :: "rat \<Rightarrow> rat" where
  "requestBurst share = max share 1"

definition heartbeatPerMinute :: rat where "heartbeatPerMinute = 120"
definition heartbeatBurst :: rat where "heartbeatBurst = 5"

subsection \<open>Operations\<close>

definition take_bucket :: "gotime \<Rightarrow> string \<Rightarrow> rat \<Rightarrow> rat \<Rightarrow> buckets \<Rightarrow> buckets \<times> bool \<times> int" where
  "take_bucket now key perMinute burst bs =
     (let (bs, b) = refilled now key perMinute burst bs
      in if tokens b \<ge> 1 then (AList.update key (b\<lparr>tokens := tokens b - 1\<rparr>) bs, True, 0)
         else (bs, False, retryAfterSeconds (1 - tokens b) perMinute))"

definition tokenKey :: "string \<Rightarrow> string \<Rightarrow> string" where
  "tokenKey namespace model = ''tpm:'' @ namespace @ ''/'' @ model"

definition requestKey :: "string \<Rightarrow> string \<Rightarrow> string" where
  "requestKey namespace model = namespace @ ''/'' @ model"

definition toolKey :: "string \<Rightarrow> string \<Rightarrow> string" where
  "toolKey namespace tool = ''mcp:'' @ namespace @ ''/'' @ tool"

definition heartbeatKey :: "string \<Rightarrow> string \<Rightarrow> string" where
  "heartbeatKey namespace agent = ''hb:'' @ namespace @ ''/'' @ agent"

definition Allow :: "gotime \<Rightarrow> int \<Rightarrow> ModelProvider \<Rightarrow> string \<Rightarrow> string \<Rightarrow> buckets \<Rightarrow> buckets \<times> bool \<times> int" where
  "Allow now n provider namespace model bs =
     (let limits = RateLimits (Spec provider)
      in if TokensPerMinute limits \<le> 0 \<and> RequestsPerMinute limits \<le> 0 then (bs, True, 0)
         else
           let reps = replicas n;
               tokenShare = perReplica (TokensPerMinute limits) reps;
               requestShare = perReplica (RequestsPerMinute limits) reps;
               (bs, refused) =
                 (if TokensPerMinute limits > 0 then
                    (let (bs, b) = refilled now (tokenKey namespace model) tokenShare tokenShare bs
                     in if tokens b \<le> 0 then (bs, Some (retryAfterSeconds (- tokens b) tokenShare)) else (bs, None))
                  else (bs, None))
           in case refused of
                Some secs \<Rightarrow> (bs, False, secs)
              | None \<Rightarrow>
                  if RequestsPerMinute limits > 0 then
                    (let key = requestKey namespace model;
                         (bs, b) = refilled now key requestShare (requestBurst requestShare) bs
                     in if tokens b < 1 then (bs, False, retryAfterSeconds (1 - tokens b) requestShare)
                        else (AList.update key (b\<lparr>tokens := tokens b - 1\<rparr>) bs, True, 0))
                  else (bs, True, 0))"

definition DebitTokens :: "gotime \<Rightarrow> int \<Rightarrow> ModelProvider \<Rightarrow> string \<Rightarrow> string \<Rightarrow> int \<Rightarrow> buckets \<Rightarrow> buckets" where
  "DebitTokens now n provider namespace model toks bs =
     (let limit = TokensPerMinute (RateLimits (Spec provider))
      in if limit \<le> 0 \<or> toks \<le> 0 then bs
         else
           let share = perReplica limit (replicas n); key = tokenKey namespace model;
               (bs, b) = refilled now key share share bs;
               b = b\<lparr>tokens := tokens b - of_int toks\<rparr>;
               b = (if tokens b < - share then b\<lparr>tokens := - share\<rparr> else b)
           in AList.update key b bs)"

definition allow_limit :: "gotime \<Rightarrow> int \<Rightarrow> int \<Rightarrow> string \<Rightarrow> buckets \<Rightarrow> buckets \<times> bool \<times> int" where
  "allow_limit now n limit key bs =
     (if limit \<le> 0 then (bs, True, 0)
      else let share = perReplica limit (replicas n) in take_bucket now key share (requestBurst share) bs)"

text \<open>Of the ToolProvider the limiter reads the name and the request ceiling.\<close>

definition AllowTool :: "gotime \<Rightarrow> int \<Rightarrow> string \<Rightarrow> int \<Rightarrow> string \<Rightarrow> buckets \<Rightarrow> buckets \<times> bool \<times> int" where
  "AllowTool now n tpName requestsPerMinute namespace bs =
     allow_limit now n requestsPerMinute (toolKey namespace tpName) bs"

definition AllowHeartbeat :: "gotime \<Rightarrow> string \<Rightarrow> string \<Rightarrow> buckets \<Rightarrow> buckets \<times> bool" where
  "AllowHeartbeat now namespace agent bs =
     (let (bs, ok, secs) = take_bucket now (heartbeatKey namespace agent) heartbeatPerMinute heartbeatBurst bs
      in (bs, ok))"

subsection \<open>One bucket\<close>

lemma minutes_pos [simp]: "0 < minutes_of d \<longleftrightarrow> 0 < d"
  by (auto simp: minutes_of_def zero_less_divide_iff minute_def second_def)

lemma minutes_of_add: "minutes_of (a + b) = minutes_of a + minutes_of b"
  by (simp add: minutes_of_def add_divide_distrib)

lemma minutes_of_mono: "a \<le> b \<Longrightarrow> minutes_of a \<le> minutes_of b"
  using less_imp_le [OF minute_pos] by (simp add: minutes_of_def divide_right_mono)

lemma minutes_of_0 [simp]: "minutes_of 0 = 0"
  by (simp add: minutes_of_def)

lemma minutes_nonneg: "0 \<le> d \<Longrightarrow> 0 \<le> minutes_of d"
  using minutes_of_mono [of 0 d] by simp

lemma refill_bounds:
  assumes "0 \<le> perMinute" "0 \<le> burst"
  shows "- burst \<le> tokens (refill now perMinute burst found) \<and> tokens (refill now perMinute burst found) \<le> burst"
proof -
  define b where "b = (case found of None \<Rightarrow> \<lparr>tokens = burst, lastRefill = now\<rparr> | Some b \<Rightarrow> b)"
  define t where "t = max (- burst) (tokens b)"
  define e where "e = minutes_of (now - lastRefill b)"
  have "refill now perMinute burst found = refill now perMinute burst (Some b)"
    by (simp add: refill_def b_def split: option.splits)
  also have "tokens \<dots> = min burst (if e > 0 then t + e * perMinute else t)"
    by (auto simp: refill_def Let_def t_def e_def min_def max_def)
  finally show ?thesis
    using assms by (auto simp: t_def min_def max_def intro: order_trans [of _ "- burst"] add_increasing2)
qed

text \<open>What a later refill finds, of a bucket that is within its bounds.\<close>

lemma refill_later:
  assumes "lastRefill b \<le> now" "- burst \<le> tokens b" "tokens b \<le> burst"
  shows "refill now perMinute burst (Some b) =
    \<lparr>tokens = min burst (tokens b + minutes_of (now - lastRefill b) * perMinute), lastRefill = now\<rparr>"
proof (cases "lastRefill b = now")
  case True
  then show ?thesis using assms by (simp add: refill_def minutes_of_def)
next
  case False
  then have "0 < minutes_of (now - lastRefill b)" using assms(1) by simp
  then show ?thesis using assms(2) by (auto simp: refill_def Let_def min_def)
qed

lemma refill_new: "0 \<le> burst \<Longrightarrow> refill now perMinute burst None = \<lparr>tokens = burst, lastRefill = now\<rparr>"
  by (simp add: refill_def minutes_of_def Let_def)

lemma refilled_simps [simp]:
  "snd (refilled now key r burst bs) = refill now r burst (map_of bs key)"
  "map_of (fst (refilled now key r burst bs)) k = (if k = key then Some (refill now r burst (map_of bs key)) else map_of bs k)"
  by (simp_all add: refilled_def Let_def gomap_simps)

subsection \<open>How much a bucket admits\<close>

text \<open>The number of admitted calls of a sequence, each at its time.\<close>

fun admitted :: "(gotime \<Rightarrow> 'b \<Rightarrow> 'b \<times> bool) \<Rightarrow> gotime list \<Rightarrow> 'b \<Rightarrow> nat" where
  "admitted tick [] b = 0"
| "admitted tick (t # ts) b = (case tick t b of (b', ok) \<Rightarrow> (if ok then 1 else 0) + admitted tick ts b')"

text \<open>
  The laws of a bucket: its level never falls below zero, and from one call to the next it gains
  at most what the rate earns in between, less one for an admitted call.
\<close>

locale bucket_law =
  fixes tick :: "gotime \<Rightarrow> 'b \<Rightarrow> 'b \<times> bool"
    and invar :: "gotime \<Rightarrow> 'b \<Rightarrow> bool"
    and level :: "gotime \<Rightarrow> 'b \<Rightarrow> rat"
    and rate :: rat
  assumes tick_invar: "invar t b \<Longrightarrow> t \<le> t' \<Longrightarrow> invar t' (fst (tick t' b))"
    and tick_level: "invar t b \<Longrightarrow> t \<le> t' \<Longrightarrow>
      level t' (fst (tick t' b)) + (if snd (tick t' b) then 1 else 0) \<le> level t b + rate * minutes_of (t' - t)"
    and level_nonneg: "invar t b \<Longrightarrow> 0 \<le> level t b"
    and rate_nonneg: "0 \<le> rate"
begin

lemma admitted_le:
  assumes "invar t b" "sorted (t # ts)" "\<forall>x \<in> set ts. x \<le> e" "t \<le> e"
  shows "of_nat (admitted tick ts b) \<le> level t b + rate * minutes_of (e - t)"
  using assms
proof (induction ts arbitrary: t b)
  case Nil
  have "0 \<le> rate * minutes_of (e - t)"
    using rate_nonneg minutes_nonneg [of "e - t"] Nil(4) by simp
  then show ?case using level_nonneg [OF Nil(1)] by simp
next
  case (Cons t' ts)
  obtain b' ok where s: "tick t' b = (b', ok)" by (metis prod.exhaust)
  have le: "t \<le> t'" "t' \<le> e" using Cons.prems by auto
  have "of_nat (admitted tick ts b') \<le> level t' b' + rate * minutes_of (e - t')"
    using Cons.IH [of t' b'] Cons.prems tick_invar [OF Cons.prems(1) le(1)] s by simp
  moreover have "level t' b' + (if ok then 1 else 0) \<le> level t b + rate * minutes_of (t' - t)"
    using tick_level [OF Cons.prems(1) le(1)] s by simp
  moreover have "rate * minutes_of (e - t) = rate * minutes_of (t' - t) + rate * minutes_of (e - t')"
    using minutes_of_add [of "t' - t" "e - t'"] by (simp add: distrib_left)
  ultimately show ?case using s by (auto split: if_splits)
qed

end

text \<open>The state of one key's bucket, refilled no later than \<open>t\<close> and never in debt.\<close>

definition key_ok :: "string \<Rightarrow> rat \<Rightarrow> gotime \<Rightarrow> buckets \<Rightarrow> bool" where
  "key_ok key burst t bs \<longleftrightarrow>
     (case map_of bs key of None \<Rightarrow> True | Some b \<Rightarrow> lastRefill b \<le> t \<and> 0 \<le> tokens b \<and> tokens b \<le> burst)"

definition key_level :: "string \<Rightarrow> rat \<Rightarrow> rat \<Rightarrow> gotime \<Rightarrow> buckets \<Rightarrow> rat" where
  "key_level key r burst t bs = tokens (refill t r burst (map_of bs key))"

lemma refill_ok:
  assumes "key_ok key burst t bs" "t \<le> t'" "0 \<le> r" "0 \<le> burst"
  shows "lastRefill (refill t' r burst (map_of bs key)) = t'"
    and "0 \<le> tokens (refill t' r burst (map_of bs key))" "tokens (refill t' r burst (map_of bs key)) \<le> burst"
    and "tokens (refill t' r burst (map_of bs key)) \<le> key_level key r burst t bs + r * minutes_of (t' - t)"
proof -
  have gain: "0 \<le> minutes_of d * r" if "0 \<le> d" for d
    using that assms(3) minutes_nonneg [of d] by simp
  show "lastRefill (refill t' r burst (map_of bs key)) = t'"
    "0 \<le> tokens (refill t' r burst (map_of bs key))" "tokens (refill t' r burst (map_of bs key)) \<le> burst"
    using assms gain by (auto simp: key_ok_def refill_new refill_later split: option.splits)
  show "tokens (refill t' r burst (map_of bs key)) \<le> key_level key r burst t bs + r * minutes_of (t' - t)"
  proof (cases "map_of bs key")
    case None
    then show ?thesis using assms gain [of "t' - t"] by (simp add: key_level_def refill_new mult.commute)
  next
    case (Some b)
    then have b: "lastRefill b \<le> t" "0 \<le> tokens b" "tokens b \<le> burst"
      using assms(1) by (simp_all add: key_ok_def)
    have "minutes_of (t' - lastRefill b) = minutes_of (t - lastRefill b) + minutes_of (t' - t)"
      using minutes_of_add [of "t - lastRefill b" "t' - t"] by simp
    then have "minutes_of (t' - lastRefill b) * r = minutes_of (t - lastRefill b) * r + r * minutes_of (t' - t)"
      by (simp add: algebra_simps)
    then show ?thesis
      using Some b assms gain [of "t' - t"]
      by (auto simp: key_level_def refill_later min_def mult.commute)
  qed
qed

lemma key_level_stored:
  "map_of bs key = Some \<lparr>tokens = x, lastRefill = t\<rparr> \<Longrightarrow> 0 \<le> x \<Longrightarrow> x \<le> burst \<Longrightarrow> key_level key r burst t bs = x"
  by (simp add: key_level_def refill_later minutes_of_def)

lemma bucket_fields: "b = \<lparr>tokens = tokens b, lastRefill = lastRefill b\<rparr>"
  by simp

text \<open>A call that refills the key's bucket and takes at most one token from it obeys the laws.\<close>

lemma touch_law:
  assumes ok: "key_ok key burst t bs" "t \<le> t'" "0 \<le> r" "0 \<le> burst"
    and f: "f = refill t' r burst (map_of bs key)"
    and bs': "map_of bs' key = Some (f\<lparr>tokens := tokens f - (if took then 1 else 0)\<rparr>)" "took \<Longrightarrow> 1 \<le> tokens f"
  shows "key_ok key burst t' bs'"
    and "key_level key r burst t' bs' + (if took then 1 else 0) \<le> key_level key r burst t bs + r * minutes_of (t' - t)"
proof -
  let ?x = "tokens f - (if took then 1 else 0)"
  note ro = refill_ok [OF ok, folded f]
  have "f\<lparr>tokens := ?x\<rparr> = \<lparr>tokens = ?x, lastRefill = t'\<rparr>" using ro(1) by simp
  then have m: "map_of bs' key = Some \<lparr>tokens = ?x, lastRefill = t'\<rparr>" using bs'(1) by simp
  have x: "0 \<le> ?x" "?x \<le> burst" using ro bs'(2) by auto
  show "key_ok key burst t' bs'" using m x by (simp add: key_ok_def)
  show "key_level key r burst t' bs' + (if took then 1 else 0) \<le> key_level key r burst t bs + r * minutes_of (t' - t)"
    using key_level_stored [OF m x] ro(4) by simp
qed

lemma key_level_bounds:
  "key_ok key burst t bs \<Longrightarrow> 0 \<le> r \<Longrightarrow> 0 \<le> burst \<Longrightarrow> 0 \<le> key_level key r burst t bs \<and> key_level key r burst t bs \<le> burst"
  using refill_ok(2,3) [of key burst t bs t r] by (simp add: key_level_def)

subsection \<open>The calls obey the laws\<close>

definition take_tick :: "string \<Rightarrow> rat \<Rightarrow> rat \<Rightarrow> gotime \<Rightarrow> buckets \<Rightarrow> buckets \<times> bool" where
  "take_tick key r burst t bs = (case take_bucket t key r burst bs of (bs', ok, secs) \<Rightarrow> (bs', ok))"

lemma take_tick_effect:
  "\<exists>bs' took. take_tick key r burst t bs = (bs', took)
    \<and> map_of bs' key = Some ((refill t r burst (map_of bs key))\<lparr>tokens :=
        tokens (refill t r burst (map_of bs key)) - (if took then 1 else 0)\<rparr>)
    \<and> (took \<longrightarrow> 1 \<le> tokens (refill t r burst (map_of bs key)))"
  by (auto simp: take_tick_def take_bucket_def refilled_def Let_def gomap_simps)

lemma take_law:
  assumes "0 \<le> r" "0 \<le> burst"
  shows "bucket_law (take_tick key r burst) (key_ok key burst) (key_level key r burst) r"
proof
  fix t bs t' assume a: "key_ok key burst t bs" "t \<le> t'"
  obtain bs' took where e: "take_tick key r burst t' bs = (bs', took)"
    "map_of bs' key = Some ((refill t' r burst (map_of bs key))\<lparr>tokens :=
        tokens (refill t' r burst (map_of bs key)) - (if took then 1 else 0)\<rparr>)"
    "took \<longrightarrow> 1 \<le> tokens (refill t' r burst (map_of bs key))"
    using take_tick_effect [of key r burst t' bs] by blast
  show "key_ok key burst t' (fst (take_tick key r burst t' bs))"
    "key_level key r burst t' (fst (take_tick key r burst t' bs)) + (if snd (take_tick key r burst t' bs) then 1 else 0)
      \<le> key_level key r burst t bs + r * minutes_of (t' - t)"
    using touch_law [OF a assms refl e(2)] e(1,3) by auto
qed (use assms key_level_bounds in auto)

interpretation heartbeat: bucket_law
  "take_tick (heartbeatKey ns agent) heartbeatPerMinute heartbeatBurst"
  "key_ok (heartbeatKey ns agent) heartbeatBurst"
  "key_level (heartbeatKey ns agent) heartbeatPerMinute heartbeatBurst" heartbeatPerMinute for ns agent
  by (rule take_law) (simp_all add: heartbeatPerMinute_def heartbeatBurst_def)

definition allow_tick :: "int \<Rightarrow> ModelProvider \<Rightarrow> string \<Rightarrow> string \<Rightarrow> gotime \<Rightarrow> buckets \<Rightarrow> buckets \<times> bool" where
  "allow_tick n provider ns model t bs = (case Allow t n provider ns model bs of (bs', ok, secs) \<Rightarrow> (bs', ok))"

lemma tokenKey_requestKey: "CHR '':'' \<notin> set ns \<Longrightarrow> tokenKey ns' m' \<noteq> requestKey ns m"
  by (auto simp: tokenKey_def requestKey_def Cons_eq_append_conv)

text \<open>
  Either the token bucket refuses and the request bucket is not touched, or the request bucket
  is refilled and one token taken exactly when the call is allowed.
\<close>

lemma allow_tick_effect:
  fixes n provider
  defines "share \<equiv> perReplica (RequestsPerMinute (RateLimits (Spec provider))) (replicas n)"
  assumes limit: "0 < RequestsPerMinute (RateLimits (Spec provider))" and ns: "CHR '':'' \<notin> set ns"
  shows "\<exists>bs' took. allow_tick n provider ns model t bs = (bs', took) \<and>
    (\<not> took \<and> map_of bs' (requestKey ns model) = map_of bs (requestKey ns model) \<or>
     map_of bs' (requestKey ns model) = Some ((refill t share (requestBurst share) (map_of bs (requestKey ns model)))\<lparr>tokens :=
        tokens (refill t share (requestBurst share) (map_of bs (requestKey ns model))) - (if took then 1 else 0)\<rparr>)
     \<and> (took \<longrightarrow> 1 \<le> tokens (refill t share (requestBurst share) (map_of bs (requestKey ns model)))))"
  using limit tokenKey_requestKey [OF ns, of ns model model]
  by (auto simp: allow_tick_def Allow_def refilled_def Let_def gomap_simps share_def)

lemma allow_law:
  fixes n provider ns model
  defines "share \<equiv> perReplica (RequestsPerMinute (RateLimits (Spec provider))) (replicas n)"
    and "key \<equiv> requestKey ns model"
  assumes limit: "0 < RequestsPerMinute (RateLimits (Spec provider))" and ns: "CHR '':'' \<notin> set ns"
  shows "bucket_law (allow_tick n provider ns model) (key_ok key (requestBurst share))
    (key_level key share (requestBurst share)) share"
proof
  have pos: "0 \<le> share" "0 \<le> requestBurst share"
    using limit by (simp_all add: share_def perReplica_def replicas_def requestBurst_def)
  show "0 \<le> share" by (rule pos)
  show "0 \<le> key_level key share (requestBurst share) t bs" if "key_ok key (requestBurst share) t bs" for t bs
    using key_level_bounds [OF that pos] by simp
  fix t bs t' assume a: "key_ok key (requestBurst share) t bs" "t \<le> t'"
  obtain bs' took where e: "allow_tick n provider ns model t' bs = (bs', took)" and
    cases: "\<not> took \<and> map_of bs' key = map_of bs key \<or>
     map_of bs' key = Some ((refill t' share (requestBurst share) (map_of bs key))\<lparr>tokens :=
        tokens (refill t' share (requestBurst share) (map_of bs key)) - (if took then 1 else 0)\<rparr>)
     \<and> (took \<longrightarrow> 1 \<le> tokens (refill t' share (requestBurst share) (map_of bs key)))"
    using allow_tick_effect [OF limit ns, of n model t' bs] unfolding share_def key_def by blast
  from cases have "key_ok key (requestBurst share) t' bs' \<and>
      key_level key share (requestBurst share) t' bs' + (if took then 1 else 0)
        \<le> key_level key share (requestBurst share) t bs + share * minutes_of (t' - t)"
  proof
    assume keep: "\<not> took \<and> map_of bs' key = map_of bs key"
    then have "key_level key share (requestBurst share) t' bs' = key_level key share (requestBurst share) t' bs"
      by (simp add: key_level_def)
    then show ?thesis
      using keep a refill_ok(4) [OF a pos]
      by (auto simp: key_ok_def key_level_def [of key share _ t'] split: option.splits)
  next
    assume "map_of bs' key = Some ((refill t' share (requestBurst share) (map_of bs key))\<lparr>tokens :=
        tokens (refill t' share (requestBurst share) (map_of bs key)) - (if took then 1 else 0)\<rparr>)
     \<and> (took \<longrightarrow> 1 \<le> tokens (refill t' share (requestBurst share) (map_of bs key)))"
    then show ?thesis using touch_law [OF a pos refl] by blast
  qed
  then show "key_ok key (requestBurst share) t' (fst (allow_tick n provider ns model t' bs))"
    "key_level key share (requestBurst share) t' (fst (allow_tick n provider ns model t' bs))
       + (if snd (allow_tick n provider ns model t' bs) then 1 else 0)
     \<le> key_level key share (requestBurst share) t bs + share * minutes_of (t' - t)"
    using e by auto
qed

subsection \<open>Properties\<close>


text \<open>
  C24. The request ceiling holds across the cluster: when \<open>n\<close> replicas that all count \<open>n\<close>
  replicas start with empty limiters and serve requests of one namespace and model at any times
  between \<open>t\<close> and \<open>e\<close>, they admit at most \<open>max limit n\<close> requests plus the ceiling's rate
  times the length of the window.
\<close>

theorem cluster_request_ceiling:
  fixes n :: nat and tss :: "gotime list list"
  assumes "0 < RequestsPerMinute (RateLimits (Spec p))" "CHR '':'' \<notin> set ns" "0 < n" "length tss = n"
    and "\<forall>ts \<in> set tss. sorted (t # ts) \<and> (\<forall>x \<in> set ts. x \<le> e)" "t \<le> e"
  shows "(\<Sum>ts\<leftarrow>tss. of_nat (admitted (allow_tick (int n) p ns m) ts [])) \<le>
    max (of_int (RequestsPerMinute (RateLimits (Spec p)))) (of_nat n)
      + of_int (RequestsPerMinute (RateLimits (Spec p))) * minutes_of (e - t)"
proof -
  let ?limit = "RequestsPerMinute (RateLimits (Spec p))" and ?key = "requestKey ns m"
  let ?share = "perReplica ?limit (replicas (int n))"
  let ?bound = "requestBurst ?share + ?share * minutes_of (e - t)"
  have reps: "(of_int (replicas (int n)) :: rat) = of_nat n"
    using assms(3) by (auto simp: replicas_def)
  have one: "of_nat (admitted (allow_tick (int n) p ns m) ts []) \<le> ?bound" if "ts \<in> set tss" for ts
  proof -
    have law: "bucket_law (allow_tick (int n) p ns m) (key_ok ?key (requestBurst ?share))
        (key_level ?key ?share (requestBurst ?share)) ?share"
      by (rule allow_law [OF assms(1,2)])
    have pos: "0 \<le> ?share" "0 \<le> requestBurst ?share"
      using assms(1) by (simp_all add: perReplica_def replicas_def requestBurst_def)
    have "key_ok ?key (requestBurst ?share) t []" by (simp add: key_ok_def)
    then show ?thesis
      using bucket_law.admitted_le [OF law, of t "[]" ts e] key_level_bounds [OF _ pos, of ?key t "[]"] assms(5,6) that
      by fastforce
  qed
  have "(\<Sum>ts\<leftarrow>tss. of_nat (admitted (allow_tick (int n) p ns m) ts [])) \<le> (\<Sum>ts\<leftarrow>tss. ?bound)"
    by (rule sum_list_mono) (rule one)
  also have "\<dots> = of_nat n * ?bound"
    using assms(4) by (simp add: sum_list_triv)
  also have "\<dots> = max (of_int ?limit) (of_nat n) + of_int ?limit * minutes_of (e - t)"
  proof -
    have "of_nat n * ?share = of_int ?limit"
      using assms(3) by (simp add: perReplica_def reps)
    moreover have "of_nat n * requestBurst ?share = max (of_nat n * ?share) (of_nat n)"
      using assms(3) by (auto simp: requestBurst_def max_def mult_le_cancel_left)
    ultimately show ?thesis by (simp add: distrib_left mult.assoc [symmetric])
  qed
  finally show ?thesis .
qed

definition demo_limited :: ModelProvider where
  "demo_limited = \<lparr>Name = ''claude'', UID = ''u1'', Spec = \<lparr>Type = ''anthropic'', Endpoint = ''https://api.example.com'',
     CredentialsRef = \<lparr>secret_Name = ''creds'', secret_Key = ''key''\<rparr>, Models = [], AllowedNamespaces = [''*''],
     Budget = \<lparr>Period = ''none'', PerNamespaceUSD = [], Policies = [], ClusterUSD = None, Enforcement = ''soft'', Hard = None\<rparr>,
     RateLimits = \<lparr>RequestsPerMinute = 2, TokensPerMinute = 600\<rparr>, Fallback = [], HealthCheck = None\<rparr>\<rparr>"

theorem cluster_request_ceiling_witness:
  "(\<Sum>ts\<leftarrow>[[0, 0, 0], [0, second], [second]]. of_nat (admitted (allow_tick 3 demo_limited ''team-a'' ''opus'') ts [])) \<le>
     3 + 2 * minutes_of (second - 0)"
  using cluster_request_ceiling [of demo_limited "''team-a''" 3 "[[0, 0, 0], [0, second], [second]]" 0 second "''opus''"]
  by (simp add: demo_limited_def less_imp_le)

lemma go_div_ceil: "0 \<le> w \<Longrightarrow> w \<le> go_div (w + second - 1) second * second"
proof -
  assume w: "0 \<le> w"
  let ?a = "w + second - 1"
  have s: "1 \<le> second" by (simp add: second_def)
  then have "0 \<le> ?a" using w by linarith
  then have "go_div ?a second * second = ?a div second * second"
    using s by (cases "?a = 0") (auto simp: go_div_def)
  moreover have "?a div second * second + ?a mod second = ?a" "?a mod second < second"
    using s by simp_all
  ultimately show ?thesis by linarith
qed

text \<open>What the returned number of seconds earns: a whole token, up to half a nanosecond's share.\<close>

lemma refused_gain:
  assumes pos: "0 < perMinute" "1 \<le> burst"
    and past: "\<forall>b. map_of bs key = Some b \<longrightarrow> lastRefill b \<le> now"
    and refused: "take_bucket now key perMinute burst bs = (bs', False, secs)"
  obtains f where "map_of bs' key = Some f" "lastRefill f = now" "- burst \<le> tokens f" "tokens f \<le> burst" "1 \<le> secs"
    "1 - perMinute / (2 * of_int minute) \<le> tokens f + minutes_of (secs * second) * perMinute"
proof -
  define f where "f = refill now perMinute burst (map_of bs key)"
  have bs': "map_of bs' key = Some f" "tokens f < 1" "secs = retryAfterSeconds (1 - tokens f) perMinute"
    using refused by (auto simp: take_bucket_def refilled_def Let_def gomap_simps f_def split: if_splits)
  have fb: "- burst \<le> tokens f" "tokens f \<le> burst"
    using refill_bounds [of perMinute burst now "map_of bs key"] pos by (simp_all add: f_def)
  have last: "lastRefill f = now"
    using past by (auto simp: f_def refill_def Let_def split: option.splits)
  define x where "x = (1 - tokens f) / perMinute * of_int minute"
  have m: "(0 :: rat) < of_int minute" by (simp add: minute_def second_def)
  have x: "0 \<le> x"
    unfolding x_def using bs'(2) pos(1) less_imp_le [OF m] by (intro mult_nonneg_nonneg divide_nonneg_pos) simp_all
  have "x - 1 / 2 \<le> of_int (math_Round x)" "0 \<le> math_Round x"
    using x floor_correct [of "x + 1 / 2"] by (auto simp: math_Round_def)
  moreover have secs: "1 \<le> secs" "math_Round x \<le> secs * second"
  proof -
    have d: "go_div (math_Round x + second - 1) second \<le> secs" and s1: "1 \<le> secs"
      unfolding bs'(3) retryAfterSeconds_def x_def [symmetric] Let_def by simp_all
    show "1 \<le> secs" by (rule s1)
    show "math_Round x \<le> secs * second"
      by (rule order_trans [OF go_div_ceil [OF \<open>0 \<le> math_Round x\<close>] mult_right_mono [OF d]]) (simp add: second_def)
  qed
  ultimately have "x - 1 / 2 \<le> of_int (secs * second)"
    by (meson of_int_le_iff order_trans)
  then have "perMinute * ((x - 1 / 2) / of_int minute) \<le> perMinute * minutes_of (secs * second)"
    unfolding minutes_of_def using pos(1) less_imp_le [OF m] by (intro mult_left_mono divide_right_mono) simp_all
  moreover have "perMinute * ((a / perMinute * M - 1 / 2) / M) = a - perMinute / (2 * M)" if "0 < M" for a M :: rat
    using pos(1) that by (simp add: field_simps)
  then have "perMinute * ((x - 1 / 2) / of_int minute) = 1 - tokens f - perMinute / (2 * of_int minute)"
    using m unfolding x_def by blast
  ultimately have gain: "1 - perMinute / (2 * of_int minute) \<le> tokens f + minutes_of (secs * second) * perMinute"
    by (simp add: mult.commute)
  show thesis using that [OF bs'(1) last fb secs(1) gain] .
qed

text \<open>
  C25. A refused caller is told how long to wait: when a bucket refuses, then after the returned
  number of seconds, with no call in between, the bucket is short of a whole token by at most
  what it earns in half a nanosecond, the rounding of the wait; and any later than that, a call
  is admitted.
\<close>

theorem retry_after_refills:
  assumes pos: "0 < perMinute" "1 \<le> burst"
    and past: "\<forall>b. map_of bs key = Some b \<longrightarrow> lastRefill b \<le> now"
    and refused: "take_bucket now key perMinute burst bs = (bs', False, secs)"
    and later: "now + secs * second < now'"
  shows "1 \<le> secs
    \<and> 1 - perMinute / (2 * of_int minute) \<le> tokens (refill (now + secs * second) perMinute burst (map_of bs' key))
    \<and> (\<exists>bs''. take_bucket now' key perMinute burst bs' = (bs'', True, 0))"
proof -
  obtain f where f: "map_of bs' key = Some f" "lastRefill f = now" "- burst \<le> tokens f" "tokens f \<le> burst" "1 \<le> secs"
    "1 - perMinute / (2 * of_int minute) \<le> tokens f + minutes_of (secs * second) * perMinute"
    using refused_gain [OF pos past refused] .
  have at_time: "tokens (refill t perMinute burst (map_of bs' key)) = min burst (tokens f + minutes_of (t - now) * perMinute)"
    if "now \<le> t" for t
    using f(1-4) that by (simp add: refill_later)
  have m: "(0 :: rat) < of_int minute" by (simp add: minute_def second_def)
  have q: "0 < perMinute / of_int minute" using pos(1) m by simp
  have now: "now \<le> now + secs * second" "now \<le> now'" using f(5) later by (simp_all add: second_def)
  have "secs * second + 1 \<le> now' - now" using later by simp
  then have "minutes_of (secs * second + 1) * perMinute \<le> minutes_of (now' - now) * perMinute"
    using pos(1) by (intro mult_right_mono minutes_of_mono) simp_all
  then have "minutes_of (secs * second) * perMinute + perMinute / of_int minute \<le> minutes_of (now' - now) * perMinute"
    by (simp add: minutes_of_add distrib_right) (simp add: minutes_of_def)
  moreover have half: "perMinute / (2 * of_int minute) = perMinute / of_int minute / 2" by simp
  ultimately have "1 \<le> tokens f + minutes_of (now' - now) * perMinute" using f(6) q by linarith
  then have "1 \<le> tokens (refill now' perMinute burst (map_of bs' key))"
    unfolding at_time [OF now(2)] using pos(2) by simp
  then have "\<exists>bs''. take_bucket now' key perMinute burst bs' = (bs'', True, 0)"
    by (simp add: take_bucket_def refilled_def Let_def)
  moreover have "1 - perMinute / (2 * of_int minute) \<le> 1" unfolding half using q by simp
  ultimately show ?thesis using f(5,6) pos(2) unfolding at_time [OF now(1)] by simp
qed

theorem retry_after_refills_witness:
  "take_bucket 0 ''k'' 2 1 [(''k'', \<lparr>tokens = 1 / 2, lastRefill = 0\<rparr>)] =
     ([(''k'', \<lparr>tokens = 1 / 2, lastRefill = 0\<rparr>)], False, 15) \<and>
   (\<exists>bs''. take_bucket (15 * second + 1) ''k'' 2 1 [(''k'', \<lparr>tokens = 1 / 2, lastRefill = 0\<rparr>)] = (bs'', True, 0))"
proof -
  have r: "take_bucket 0 ''k'' 2 1 [(''k'', \<lparr>tokens = 1 / 2, lastRefill = 0\<rparr>)] =
     ([(''k'', \<lparr>tokens = 1 / 2, lastRefill = 0\<rparr>)], False, 15)"
    by code_simp
  have "\<forall>b. map_of [(''k'', \<lparr>tokens = 1 / 2, lastRefill = 0\<rparr>)] ''k'' = Some b \<longrightarrow> lastRefill b \<le> 0" by simp
  from retry_after_refills [OF _ _ this r, of "15 * second + 1"] r show ?thesis by simp
qed

text \<open>
  C26. A huge call blocks its key for at most one refill window: after \<^verbatim>\<open>DebitTokens\<close>,
  whatever the number of tokens debited, the token bucket lies between minus one and one
  per-replica share, and more than a minute later, with no further debit, \<^verbatim>\<open>Allow\<close> is not
  refused for tokens: it admits the call unless the request bucket has no token for it.
\<close>

theorem token_debt_window:
  assumes limit: "0 < TokensPerMinute (RateLimits (Spec p))" and toks: "0 < toks"
    and past: "\<forall>b. map_of bs (tokenKey ns m) = Some b \<longrightarrow> lastRefill b \<le> now"
    and share: "share = perReplica (TokensPerMinute (RateLimits (Spec p))) (replicas n)"
    and later: "now + minute < now'"
    and debited: "bs1 = DebitTokens now n p ns m toks bs"
    and asked: "Allow now' n p ns m bs1 = (bs2, ok, secs)"
  shows "(\<exists>b. map_of bs1 (tokenKey ns m) = Some b \<and> - share \<le> tokens b \<and> tokens b < share)
    \<and> (ok \<or> (0 < RequestsPerMinute (RateLimits (Spec p))
        \<and> (let rshare = perReplica (RequestsPerMinute (RateLimits (Spec p))) (replicas n)
            in tokens (refill now' rshare (requestBurst rshare)
                 (map_of (fst (refilled now' (tokenKey ns m) share share bs1)) (requestKey ns m))) < 1)))"
proof -
  define f where "f = refill now share share (map_of bs (tokenKey ns m))"
  have pos: "0 < share" using limit by (simp add: share perReplica_def replicas_def)
  have fb: "- share \<le> tokens f" "tokens f \<le> share"
    using refill_bounds [of share share now "map_of bs (tokenKey ns m)"] pos by (simp_all add: f_def)
  have last: "lastRefill f = now"
    using past by (auto simp: f_def refill_def Let_def split: option.splits)
  define x where "x = max (- share) (tokens f - of_int toks)"
  have b: "map_of bs1 (tokenKey ns m) = Some \<lparr>tokens = x, lastRefill = now\<rparr>"
    using limit toks last
    by (auto simp: debited DebitTokens_def refilled_def Let_def gomap_simps f_def [symmetric] share [symmetric] x_def max_def)
  have x: "- share \<le> x" "x < share"
    using fb pos toks by (auto simp: x_def max_def)
  have "1 < minutes_of (now' - now)"
    using later by (simp add: minutes_of_def less_divide_eq_1 minute_def second_def)
  then have "share < minutes_of (now' - now) * share"
    using pos by simp
  then have "0 < x + minutes_of (now' - now) * share"
    using x(1) by linarith
  then have "0 < min share (x + minutes_of (now' - now) * share)"
    using pos by simp
  moreover have "now \<le> now'" using later minute_pos by linarith
  ultimately have "0 < tokens (refill now' share share (map_of bs1 (tokenKey ns m)))" using b x by (simp add: refill_later)
  then have "ok \<or> (0 < RequestsPerMinute (RateLimits (Spec p))
        \<and> (let rshare = perReplica (RequestsPerMinute (RateLimits (Spec p))) (replicas n)
            in tokens (refill now' rshare (requestBurst rshare)
                 (map_of (fst (refilled now' (tokenKey ns m) share share bs1)) (requestKey ns m))) < 1))"
    using asked limit by (auto simp: Allow_def Let_def share [symmetric] refilled_def split: if_splits)
  then show ?thesis using b x by simp
qed

definition demo_tokens :: ModelProvider where
  "demo_tokens = demo_limited\<lparr>Spec := (Spec demo_limited)\<lparr>RateLimits := \<lparr>RequestsPerMinute = 0, TokensPerMinute = 600\<rparr>\<rparr>\<rparr>"

theorem token_debt_window_witness:
  "RequestsPerMinute (RateLimits (Spec demo_tokens)) = 0
   \<and> (\<exists>bs. Allow (minute + 1) 1 demo_tokens ''team-a'' ''opus'' (DebitTokens 0 1 demo_tokens ''team-a'' ''opus'' 1000000 []) = (bs, True, 0))"
proof -
  have none: "RequestsPerMinute (RateLimits (Spec demo_tokens)) = 0" "0 < TokensPerMinute (RateLimits (Spec demo_tokens))"
    by (simp_all add: demo_tokens_def)
  obtain bs ok secs where a: "Allow (minute + 1) 1 demo_tokens ''team-a'' ''opus'' (DebitTokens 0 1 demo_tokens ''team-a'' ''opus'' 1000000 []) = (bs, ok, secs)"
    by (metis surj_pair)
  have ok using token_debt_window [OF none(2) _ _ refl _ refl a] none(1) by simp
  moreover from this have "secs = 0" using a by (auto simp: Allow_def Let_def split: if_splits option.splits prod.splits)
  ultimately show ?thesis using none(1) a by simp
qed

lemma colon_key: "CHR '':'' \<notin> set ns \<Longrightarrow> CHR ''/'' \<notin> set p \<Longrightarrow> ns @ CHR ''/'' # m \<noteq> p @ CHR '':'' # q"
proof (induction p arbitrary: ns)
  case Nil
  then show ?case by (cases ns) auto
next
  case (Cons c p)
  then show ?case by (cases ns) auto
qed

text \<open>
  The limiter's buckets never mix: for namespaces without a colon or a slash, a request
  bucket, a token bucket, a tool bucket and a heartbeat bucket have different keys, and two
  request buckets share a key only when they are for the same namespace and model.
\<close>

lemma bucket_keys_disjoint:
  assumes "CHR '':'' \<notin> set ns" "CHR ''/'' \<notin> set ns" "CHR '':'' \<notin> set ns'" "CHR ''/'' \<notin> set ns'"
  shows "distinct [requestKey ns m, tokenKey ns1 m1, toolKey ns2 m2, heartbeatKey ns3 m3]
    \<and> (requestKey ns m = requestKey ns' m' \<longleftrightarrow> ns = ns' \<and> m = m')
    \<and> (tokenKey ns m = tokenKey ns' m' \<longleftrightarrow> ns = ns' \<and> m = m')"
proof -
  have "ns @ CHR ''/'' # m = ns' @ CHR ''/'' # m' \<longleftrightarrow> ns = ns' \<and> m = m'"
    using assms(2,4) by (auto simp: append_eq_append_conv2 Cons_eq_append_conv append_eq_Cons_conv)
  moreover have "ns @ CHR ''/'' # m \<noteq> ''tpm'' @ CHR '':'' # q" "ns @ CHR ''/'' # m \<noteq> ''mcp'' @ CHR '':'' # q"
    "ns @ CHR ''/'' # m \<noteq> ''hb'' @ CHR '':'' # q" for q
    using assms(1) by (intro colon_key; simp)+
  ultimately show ?thesis
    by (auto simp: requestKey_def tokenKey_def toolKey_def heartbeatKey_def)
qed

lemma bucket_keys_disjoint_witness:
  "requestKey ''team-a'' ''m/x'' \<noteq> requestKey ''team-b'' ''m/x'' \<and> requestKey ''team-a'' ''x'' \<noteq> tokenKey ''team-a'' ''x''"
  using bucket_keys_disjoint [of "''team-a''" "''team-b''" "''m/x''" "''a''" "''a''" "''a''" "''a''" "''a''" "''a''" "''m/x''"]
    bucket_keys_disjoint [of "''team-a''" "''team-b''" "''x''" "''team-a''" "''x''" "''a''" "''a''" "''a''" "''a''" "''m/x''"]
  by simp

end
