(* ===== verification/Provider_Adapters.thy ===== *)
theory Provider_Adapters
  imports Fallback_Walk Rate_Limiter
begin

text \<open>
  What differs between provider formats (\<^verbatim>\<open>src/internal/gateway/adapters.go\<close>, \<^verbatim>\<open>vertex.go\<close>)
  and the headers that cross the proxy (\<^verbatim>\<open>proxy.go\<close>). A \<^verbatim>\<open>http.Header\<close> is a map from names to
  value lists whose \<^verbatim>\<open>Get\<close>, \<^verbatim>\<open>Set\<close> and \<^verbatim>\<open>Del\<close> bring the name into canonical form first.
\<close>

subsection \<open>Headers\<close>

definition to_upper :: "char \<Rightarrow> char" where
  "to_upper c = (if CHR ''a'' \<le> c \<and> c \<le> CHR ''z'' then char_of ((of_char c :: nat) - 32) else c)"

definition token_char :: "char \<Rightarrow> bool" where
  "token_char c \<longleftrightarrow> (CHR ''0'' \<le> c \<and> c \<le> CHR ''9'') \<or> (CHR ''a'' \<le> c \<and> c \<le> CHR ''z'') \<or> (CHR ''A'' \<le> c \<and> c \<le> CHR ''Z'')
     \<or> c \<in> set ''!#$%&*+-.^_|~'' \<or> c = CHR 0x27 \<or> c = CHR 0x60"

fun canonical :: "bool \<Rightarrow> string \<Rightarrow> string" where
  "canonical upper [] = []"
| "canonical upper (c # s) = (if upper then to_upper c else to_lower c) # canonical (c = CHR ''-'') s"

definition CanonicalHeaderKey :: "string \<Rightarrow> string" where
  "CanonicalHeaderKey k = (if list_all token_char k then canonical True k else k)"

definition header_Get :: "header \<Rightarrow> string \<Rightarrow> string" where
  "header_Get h k = (case map_of h (CanonicalHeaderKey k) of Some (v # _) \<Rightarrow> v | _ \<Rightarrow> [])"

definition header_Set :: "string \<Rightarrow> string \<Rightarrow> header \<Rightarrow> header" where
  "header_Set k v h = AList.update (CanonicalHeaderKey k) [v] h"

definition header_Del :: "string \<Rightarrow> header \<Rightarrow> header" where
  "header_Del k h = AList.delete (CanonicalHeaderKey k) h"

definition hopByHopHeaders :: "string list" where
  "hopByHopHeaders = [''Connection'', ''TE'', ''Upgrade'', ''Proxy-Authorization'', ''Keep-Alive'', ''Trailer'', ''Transfer-Encoding'']"

definition authMaterialHeaders :: "string list" where
  "authMaterialHeaders = [''Authorization'', ''X-Api-Key'', ''Api-Key'', ''X-Goog-Api-Key'']"

text \<open>The upstream request starts with no headers, so the copy is the inbound map.\<close>

definition connectionHeaders :: "header \<Rightarrow> string list" where
  "connectionHeaders src = filter (\<lambda>name. name \<noteq> []) (map TrimSpace (Split (header_Get src ''Connection'') (CHR '','')))"

definition copyForwardedHeaders :: "header \<Rightarrow> header" where
  "copyForwardedHeaders src =
     (let dst = fold header_Del authMaterialHeaders src;
          dst = fold header_Del (connectionHeaders src) dst;
          dst = fold header_Del hopByHopHeaders dst;
          dst = header_Set ''Accept-Encoding'' ''identity'' dst;
          dst = header_Del ''Host'' dst
      in header_Del ''Content-Length'' dst)"

fun copyDownstreamHeaders :: "header \<Rightarrow> header \<Rightarrow> header" where
  "copyDownstreamHeaders dst [] = dst"
| "copyDownstreamHeaders dst ((name, values) # src) =
     (let lower = ToLower name
      in if lower = ''connection'' \<or> lower = ''transfer-encoding'' \<or> lower = ''keep-alive''
         then copyDownstreamHeaders dst src
         else copyDownstreamHeaders (AList.update name values dst) src)"

definition isSSE :: "httpResponse \<Rightarrow> bool" where
  "isSSE resp \<longleftrightarrow> HasPrefix (header_Get (resp_Header resp) ''Content-Type'') ''text/event-stream''"

subsection \<open>The Vertex path\<close>

record vertexPath =
  vp_version :: string
  vp_project :: string
  vp_location :: string
  vp_providerRef :: string
  vp_model :: string
  vp_method :: string

definition parseVertexPath :: "string \<Rightarrow> vertexPath option" where
  "parseVertexPath path =
     (let seg = Split path (CHR ''/'')
      in if length seg \<noteq> 10 \<or> seg ! 0 \<noteq> [] \<or> seg ! 2 \<noteq> ''projects'' \<or> seg ! 4 \<noteq> ''locations''
            \<or> seg ! 6 \<noteq> ''publishers'' \<or> seg ! 8 \<noteq> ''models'' then None
         else if seg ! 1 \<noteq> ''v1'' \<and> seg ! 1 \<noteq> ''v1beta1'' then None
         else
           let (model, method, ok) = Cut (seg ! 9) (CHR '':'')
           in if \<not> ok \<or> method \<noteq> ''generateContent'' \<and> method \<noteq> ''streamGenerateContent'' then None
              else
                let p = \<lparr>vp_version = seg ! 1, vp_project = seg ! 3, vp_location = seg ! 5,
                         vp_providerRef = seg ! 7, vp_model = model, vp_method = method\<rparr>
                in if vp_project p = [] \<or> vp_location p = [] \<or> vp_providerRef p = [] \<or> vp_model p = [] then None
                   else Some p)"

definition qualifiedName :: "vertexPath \<Rightarrow> string" where
  "qualifiedName p = vp_providerRef p @ ''/'' @ vp_model p"

text \<open>\<^verbatim>\<open>url.PathEscape\<close>: every byte that may not stand in a path segment as \<^verbatim>\<open>%XX\<close>.\<close>

definition segment_char :: "char \<Rightarrow> bool" where
  "segment_char c \<longleftrightarrow> (CHR ''0'' \<le> c \<and> c \<le> CHR ''9'') \<or> (CHR ''a'' \<le> c \<and> c \<le> CHR ''z'') \<or> (CHR ''A'' \<le> c \<and> c \<le> CHR ''Z'')
     \<or> c \<in> set ''-_.~$&+=:@''"

definition upper_hex :: "nat \<Rightarrow> char" where
  "upper_hex n = ''0123456789ABCDEF'' ! (n mod 16)"

definition escape_char :: "char \<Rightarrow> string" where
  "escape_char c = (if segment_char c then [c]
     else [CHR ''%'', upper_hex (of_char c div 16), upper_hex (of_char c)])"

definition PathEscape :: "string \<Rightarrow> string" where
  "PathEscape s = concat (map escape_char s)"

subsection \<open>The adapters\<close>

datatype providerAdapter = anthropicAdapter | openaiAdapter | vertexAdapter

fun formatName :: "providerAdapter \<Rightarrow> string" where
  "formatName anthropicAdapter = ProviderTypeAnthropic"
| "formatName openaiAdapter = ''openai''"
| "formatName vertexAdapter = ProviderTypeGoogleVertex"

fun injectCredential :: "providerAdapter \<Rightarrow> string \<Rightarrow> header \<Rightarrow> header" where
  "injectCredential anthropicAdapter credential h = header_Set ''x-api-key'' credential h"
| "injectCredential openaiAdapter credential h = header_Set ''Authorization'' (''Bearer '' @ credential) h"
| "injectCredential vertexAdapter credential h = header_Set ''Authorization'' (''Bearer '' @ credential) h"

fun streamUsageOption :: "providerAdapter \<Rightarrow> bool" where
  "streamUsageOption anthropicAdapter = False"
| "streamUsageOption openaiAdapter = True"
| "streamUsageOption vertexAdapter = False"

fun modelFromPath :: "providerAdapter \<Rightarrow> string \<Rightarrow> string" where
  "modelFromPath vertexAdapter path = (case parseVertexPath path of None \<Rightarrow> [] | Some p \<Rightarrow> qualifiedName p)"
| "modelFromPath _ path = []"

fun upstreamPath :: "providerAdapter \<Rightarrow> string \<Rightarrow> string \<Rightarrow> string" where
  "upstreamPath vertexAdapter inboundPath modelID =
     (case parseVertexPath inboundPath of
        None \<Rightarrow> inboundPath
      | Some p \<Rightarrow>
          ''/'' @ vp_version p @ ''/projects/'' @ PathEscape (vp_project p) @ ''/locations/'' @ PathEscape (vp_location p)
          @ ''/publishers/google/models/'' @ PathEscape modelID @ '':'' @ vp_method p
          @ (if vp_method p = ''streamGenerateContent'' then ''?alt=sse'' else []))"
| "upstreamPath _ inboundPath modelID = inboundPath"

definition adapterForPath :: "string \<Rightarrow> providerAdapter option" where
  "adapterForPath urlPath =
     (let path = fst (Cut urlPath (CHR ''?''))
      in if path = ''/v1/messages'' then Some anthropicAdapter
         else if path = ''/v1/chat/completions'' \<or> path = ''/v1/completions'' then Some openaiAdapter
         else if parseVertexPath urlPath \<noteq> None then Some vertexAdapter
         else None)"

definition adapterForProviderType :: "string \<Rightarrow> providerAdapter option" where
  "adapterForProviderType providerType =
     (if providerType = ProviderTypeAnthropic then Some anthropicAdapter
      else if providerType = ProviderTypeOpenAI \<or> providerType = ProviderTypeOpenAICompatible then Some openaiAdapter
      else if providerType = ProviderTypeGoogleVertex then Some vertexAdapter
      else None)"

text \<open>The headers of an upstream request, as \<^verbatim>\<open>forwardOnce\<close> builds them.\<close>

definition upstreamHeaders :: "providerAdapter \<Rightarrow> string \<Rightarrow> header \<Rightarrow> header" where
  "upstreamHeaders typeAdapter credential src =
     header_Set ''Content-Type'' ''application/json'' (injectCredential typeAdapter credential (copyForwardedHeaders src))"

subsection \<open>Lemmas\<close>

lemma header_Set_lookup [gomap_simps]:
  "map_of (header_Set k v h) x = (if x = CanonicalHeaderKey k then Some [v] else map_of h x)"
  by (auto simp: header_Set_def update_conv')

lemma header_Del_lookup [gomap_simps]:
  "map_of (header_Del k h) x = (if x = CanonicalHeaderKey k then None else map_of h x)"
  by (auto simp: header_Del_def delete_conv' map_of_delete)

lemma fold_Del_lookup [gomap_simps]:
  "map_of (fold header_Del ks h) x = (if x \<in> CanonicalHeaderKey ` set ks then None else map_of h x)"
  by (induction ks arbitrary: h) (auto simp: header_Del_lookup)

text \<open>
  The headers a request's Connection lines name: all lines are one list. The code reads the
  first line only, so the two agree when there is at most one.
\<close>

definition header_Values :: "header \<Rightarrow> string \<Rightarrow> string list" where
  "header_Values h k = (case map_of h (CanonicalHeaderKey k) of None \<Rightarrow> [] | Some vs \<Rightarrow> vs)"

definition connectionNames :: "header \<Rightarrow> string list" where
  "connectionNames src = filter (\<lambda>name. name \<noteq> [])
     (concat (map (\<lambda>line. map TrimSpace (Split line (CHR '',''))) (header_Values src ''Connection'')))"

lemma connectionNames_single:
  assumes "length (header_Values src ''Connection'') \<le> 1"
  shows "set (connectionNames src) \<subseteq> set (connectionHeaders src)"
  using assms by (cases "header_Values src ''Connection''")
    (auto simp: connectionNames_def connectionHeaders_def header_Values_def header_Get_def split: option.splits list.splits)

text \<open>What reaches the provider, header by header.\<close>

definition dropped :: "header \<Rightarrow> string set" where
  "dropped src = CanonicalHeaderKey ` (set authMaterialHeaders \<union> set hopByHopHeaders \<union> {''Host'', ''Content-Length''}
     \<union> set (connectionHeaders src))"

fun credentialHeader :: "providerAdapter \<Rightarrow> string" where
  "credentialHeader anthropicAdapter = ''X-Api-Key''"
| "credentialHeader _ = ''Authorization''"

fun credentialValue :: "providerAdapter \<Rightarrow> string \<Rightarrow> string" where
  "credentialValue anthropicAdapter credential = credential"
| "credentialValue _ credential = ''Bearer '' @ credential"

lemma canonical_names:
  "CanonicalHeaderKey ''x-api-key'' = ''X-Api-Key''" "CanonicalHeaderKey ''X-Api-Key'' = ''X-Api-Key''"
  "CanonicalHeaderKey ''Authorization'' = ''Authorization''" "CanonicalHeaderKey ''Accept-Encoding'' = ''Accept-Encoding''"
  "CanonicalHeaderKey ''Content-Type'' = ''Content-Type''" "CanonicalHeaderKey ''Host'' = ''Host''"
  "CanonicalHeaderKey ''Content-Length'' = ''Content-Length''" "CanonicalHeaderKey ''Api-Key'' = ''Api-Key''"
  "CanonicalHeaderKey ''X-Goog-Api-Key'' = ''X-Goog-Api-Key''" "CanonicalHeaderKey ''Connection'' = ''Connection''"
  "CanonicalHeaderKey ''TE'' = ''Te''" "CanonicalHeaderKey ''Upgrade'' = ''Upgrade''"
  "CanonicalHeaderKey ''Proxy-Authorization'' = ''Proxy-Authorization''" "CanonicalHeaderKey ''Keep-Alive'' = ''Keep-Alive''"
  "CanonicalHeaderKey ''Trailer'' = ''Trailer''" "CanonicalHeaderKey ''Transfer-Encoding'' = ''Transfer-Encoding''"
  by code_simp+

lemma upstreamHeaders_lookup:
  "map_of (upstreamHeaders a credential src) x =
     (if x = ''Content-Type'' then Some [''application/json'']
      else if x = credentialHeader a then Some [credentialValue a credential]
      else if x \<in> {''Host'', ''Content-Length''} then None
      else if x = ''Accept-Encoding'' then Some [''identity'']
      else if x \<in> dropped src then None else map_of src x)"
proof -
  have "map_of (copyForwardedHeaders src) x =
     (if x \<in> {''Host'', ''Content-Length''} then None
      else if x = ''Accept-Encoding'' then Some [''identity'']
      else if x \<in> dropped src then None else map_of src x)"
    by (auto simp: copyForwardedHeaders_def dropped_def gomap_simps canonical_names Let_def)
  then show ?thesis
    by (cases a) (auto simp: upstreamHeaders_def gomap_simps canonical_names)
qed

text \<open>The headers the gateway writes are none of those it drops for every caller.\<close>

lemma written_headers:
  "''Content-Type'' \<notin> CanonicalHeaderKey ` set authMaterialHeaders" "''Accept-Encoding'' \<notin> CanonicalHeaderKey ` set authMaterialHeaders"
  "''Content-Type'' \<notin> CanonicalHeaderKey ` (set hopByHopHeaders \<union> {''Host'', ''Content-Length''})"
  "''Accept-Encoding'' \<notin> CanonicalHeaderKey ` (set hopByHopHeaders \<union> {''Host'', ''Content-Length''})"
  "''Authorization'' \<notin> CanonicalHeaderKey ` (set hopByHopHeaders \<union> {''Host'', ''Content-Length''})"
  "''X-Api-Key'' \<notin> CanonicalHeaderKey ` (set hopByHopHeaders \<union> {''Host'', ''Content-Length''})"
  by code_simp+

lemma dropped_names: "{''Authorization'', ''X-Api-Key'', ''Host'', ''Content-Length''} \<subseteq> dropped src"
proof -
  have "{''Authorization'', ''X-Api-Key'', ''Host'', ''Content-Length''} \<subseteq>
    CanonicalHeaderKey ` (set authMaterialHeaders \<union> set hopByHopHeaders \<union> {''Host'', ''Content-Length''})" by code_simp
  then show ?thesis unfolding dropped_def by blast
qed

lemma segment_chars: "segment_char c \<Longrightarrow> c \<noteq> CHR ''/'' \<and> c \<noteq> CHR ''?'' \<and> c \<noteq> CHR ''%'' \<and> c \<noteq> CHR ''#''"
  by (auto simp: segment_char_def less_eq_char_def)

lemma upper_hex_segment: "segment_char (upper_hex n)"
proof -
  have "\<forall>k \<in> set [0..<16]. segment_char (''0123456789ABCDEF'' ! k)" by code_simp
  then show ?thesis by (simp add: upper_hex_def)
qed

lemma PathEscape_chars: "c \<in> set (PathEscape s) \<Longrightarrow> segment_char c \<or> c = CHR ''%''"
  by (auto simp: PathEscape_def escape_char_def upper_hex_segment split: if_splits)

lemma PathEscape_contained: "CHR ''/'' \<notin> set (PathEscape s)" "CHR ''?'' \<notin> set (PathEscape s)" "CHR ''#'' \<notin> set (PathEscape s)"
  using PathEscape_chars segment_chars by fastforce+

text \<open>Unescaping gives the text back, so two model names never share an escaped form.\<close>

definition hex_value :: "char \<Rightarrow> nat" where
  "hex_value c = (if CHR ''0'' \<le> c \<and> c \<le> CHR ''9'' then of_char c - 48 else of_char c - 55)"

fun PathUnescape :: "string \<Rightarrow> string" where
  "PathUnescape (c # a # b # s) =
     (if c = CHR ''%'' then char_of (16 * hex_value a + hex_value b) # PathUnescape s else c # PathUnescape (a # b # s))"
| "PathUnescape s = s"

lemma PathUnescape_segment: "c \<noteq> CHR ''%'' \<Longrightarrow> PathUnescape (c # s) = c # PathUnescape s"
  by (cases s rule: PathUnescape.cases; cases s) (auto elim: PathUnescape.elims)

lemma hex_value_upper: "hex_value (upper_hex n) = n mod 16"
proof -
  have "\<forall>k \<in> set [0..<16]. hex_value (''0123456789ABCDEF'' ! k) = k" by code_simp
  then show ?thesis by (simp add: upper_hex_def)
qed

lemma PathUnescape_PathEscape: "PathUnescape (PathEscape s) = s"
proof (induction s)
  case (Cons c s)
  show ?case
  proof (cases "segment_char c")
    case True
    then show ?thesis using Cons PathUnescape_segment [of c] segment_chars by (simp add: PathEscape_def escape_char_def)
  next
    case False
    have "n < 256 \<Longrightarrow> n div 16 mod 16 = n div 16" for n :: nat
      using less_mult_imp_div_less [of n 16 16] by simp
    then have "(of_char c :: nat) div 16 mod 16 = of_char c div 16" using nat_of_char_less_256 by blast
    then show ?thesis using False Cons by (simp add: PathEscape_def escape_char_def hex_value_upper)
  qed
qed (simp add: PathEscape_def)

lemma vertex_segments:
  assumes "parseVertexPath path = Some p"
  shows "vp_version p \<in> {''v1'', ''v1beta1''}" "vp_method p \<in> {''generateContent'', ''streamGenerateContent''}"
    "CHR ''/'' \<notin> set (vp_providerRef p)" "vp_providerRef p \<noteq> []" "vp_model p \<noteq> []"
proof -
  let ?seg = "Split path (CHR ''/'')"
  have p: "length ?seg = 10" "vp_version p = ?seg ! 1" "vp_providerRef p = ?seg ! 7" "?seg ! 1 \<in> {''v1'', ''v1beta1''}"
    "vp_method p \<in> {''generateContent'', ''streamGenerateContent''}" "vp_providerRef p \<noteq> []" "vp_model p \<noteq> []"
    using assms by (auto simp: parseVertexPath_def Let_def split: if_splits prod.splits)
  then show "vp_version p \<in> {''v1'', ''v1beta1''}" "vp_method p \<in> {''generateContent'', ''streamGenerateContent''}"
    "vp_providerRef p \<noteq> []" "vp_model p \<noteq> []" by auto
  have "?seg ! 7 \<in> set ?seg" using p(1) by simp
  then show "CHR ''/'' \<notin> set (vp_providerRef p)" using p(3) Split_pieces by metis
qed

subsection \<open>Properties\<close>

text \<open>
  C38. The forwarded-header contract. Whatever headers the caller sends, the provider receives
  its own credential in its format's header and no other header of the four that carry
  credentials; no header of the fixed hop-by-hop list goes through; if the caller sends at most
  one Connection line, none of the headers it names goes through either, other than the three
  the gateway writes itself; the answer is asked for unencoded, as the usage readers need it;
  and every remaining header arrives unchanged.
\<close>

theorem forwarded_headers:
  "(\<forall>k \<in> CanonicalHeaderKey ` set authMaterialHeaders.
      map_of (upstreamHeaders a credential src) k = (if k = credentialHeader a then Some [credentialValue a credential] else None))
   \<and> (\<forall>k \<in> CanonicalHeaderKey ` (set hopByHopHeaders \<union> {''Host'', ''Content-Length''}). map_of (upstreamHeaders a credential src) k = None)
   \<and> (length (header_Values src ''Connection'') \<le> 1 \<longrightarrow>
      (\<forall>k \<in> CanonicalHeaderKey ` set (connectionNames src) - {''Content-Type'', ''Accept-Encoding'', credentialHeader a}.
        map_of (upstreamHeaders a credential src) k = None))
   \<and> header_Get (upstreamHeaders a credential src) ''Accept-Encoding'' = ''identity''
   \<and> (\<forall>k. k \<notin> dropped src \<union> {''Content-Type'', ''Accept-Encoding''} \<longrightarrow> map_of (upstreamHeaders a credential src) k = map_of src k)"
proof (intro conjI ballI allI impI)
  fix k
  assume "k \<in> CanonicalHeaderKey ` set authMaterialHeaders"
  then have "k \<noteq> ''Content-Type''" "k \<noteq> ''Accept-Encoding''" "k \<in> dropped src"
    using written_headers(1,2) unfolding dropped_def by blast+
  then show "map_of (upstreamHeaders a credential src) k = (if k = credentialHeader a then Some [credentialValue a credential] else None)"
    unfolding upstreamHeaders_lookup by simp
next
  fix k
  assume "k \<in> CanonicalHeaderKey ` (set hopByHopHeaders \<union> {''Host'', ''Content-Length''})"
  then have "k \<noteq> ''Content-Type''" "k \<noteq> ''Accept-Encoding''" "k \<notin> {''Authorization'', ''X-Api-Key''}" "k \<in> dropped src"
    using written_headers(3-6) unfolding dropped_def by blast+
  moreover from this(3) have "k \<noteq> credentialHeader a" by (cases a) auto
  ultimately show "map_of (upstreamHeaders a credential src) k = None"
    unfolding upstreamHeaders_lookup by simp
next
  fix k
  assume "length (header_Values src ''Connection'') \<le> 1"
    and "k \<in> CanonicalHeaderKey ` set (connectionNames src) - {''Content-Type'', ''Accept-Encoding'', credentialHeader a}"
  then have "k \<in> CanonicalHeaderKey ` set (connectionHeaders src) - {''Content-Type'', ''Accept-Encoding'', credentialHeader a}"
    using connectionNames_single by blast
  then have "k \<noteq> ''Content-Type''" "k \<noteq> ''Accept-Encoding''" "k \<noteq> credentialHeader a" "k \<in> dropped src"
    unfolding dropped_def by blast+
  then show "map_of (upstreamHeaders a credential src) k = None"
    unfolding upstreamHeaders_lookup by simp
next
  show "header_Get (upstreamHeaders a credential src) ''Accept-Encoding'' = ''identity''"
    by (cases a) (simp_all add: header_Get_def upstreamHeaders_lookup canonical_names)
next
  fix k
  assume "k \<notin> dropped src \<union> {''Content-Type'', ''Accept-Encoding''}"
  moreover have "{credentialHeader a, ''Host'', ''Content-Length''} \<subseteq> dropped src"
    using dropped_names [of src] by (cases a) auto
  ultimately have "k \<noteq> ''Content-Type''" "k \<noteq> ''Accept-Encoding''" "k \<noteq> credentialHeader a" "k \<notin> {''Host'', ''Content-Length''}" "k \<notin> dropped src"
    by blast+
  then show "map_of (upstreamHeaders a credential src) k = map_of src k"
    unfolding upstreamHeaders_lookup by simp
qed

theorem forwarded_headers_witness:
  "map_of (upstreamHeaders anthropicAdapter ''sk'' [(''Authorization'', [''Bearer token'']), (''Connection'', [''X-Trace'']),
     (''X-Trace'', [''1'']), (''User-Agent'', [''sdk''])]) ''Authorization'' = None
   \<and> map_of (upstreamHeaders anthropicAdapter ''sk'' [(''Authorization'', [''Bearer token'']), (''Connection'', [''X-Trace'']),
     (''X-Trace'', [''1'']), (''User-Agent'', [''sdk''])]) ''X-Trace'' = None
   \<and> map_of (upstreamHeaders anthropicAdapter ''sk'' [(''Authorization'', [''Bearer token'']), (''Connection'', [''X-Trace'']),
     (''X-Trace'', [''1'']), (''User-Agent'', [''sdk''])]) ''User-Agent'' = Some [''sdk'']"
proof (intro conjI)
  let ?src = "[(''Authorization'', [''Bearer token'']), (''Connection'', [''X-Trace'']), (''X-Trace'', [''1'']), (''User-Agent'', [''sdk''])]"
  have "''Authorization'' \<in> CanonicalHeaderKey ` set authMaterialHeaders" by code_simp
  then show "map_of (upstreamHeaders anthropicAdapter ''sk'' ?src) ''Authorization'' = None"
    using conjunct1 [OF forwarded_headers [of anthropicAdapter "''sk''" ?src]] by auto
  have "length (header_Values ?src ''Connection'') \<le> 1" by code_simp
  moreover have "''X-Trace'' \<in> CanonicalHeaderKey ` set (connectionNames ?src) - {''Content-Type'', ''Accept-Encoding'', credentialHeader anthropicAdapter}"
    by code_simp
  ultimately show "map_of (upstreamHeaders anthropicAdapter ''sk'' ?src) ''X-Trace'' = None"
    using forwarded_headers [of anthropicAdapter "''sk''" ?src] by blast
  have "''User-Agent'' \<notin> dropped ?src \<union> {''Content-Type'', ''Accept-Encoding''}"
    unfolding dropped_def by code_simp
  then show "map_of (upstreamHeaders anthropicAdapter ''sk'' ?src) ''User-Agent'' = Some [''sdk'']"
    using forwarded_headers [of anthropicAdapter "''sk''" ?src] by simp
qed

text \<open>
  C39. A model name never leaves its place in the upstream URL of a Vertex call. For every
  parsed path and every model name, the upstream path has the ten segments of the API with
  the caller's version and method and the publisher google; the model segment unescapes to
  the model name; and the query is the one the gateway writes.
\<close>

theorem vertex_path_contained:
  assumes "parseVertexPath path = Some p"
  shows "\<exists>m q. upstreamPath vertexAdapter path modelID =
        Join ['''', vp_version p, ''projects'', PathEscape (vp_project p), ''locations'', PathEscape (vp_location p),
              ''publishers'', ''google'', ''models'', m @ '':'' @ vp_method p] ''/'' @ q
      \<and> PathUnescape m = modelID
      \<and> Split (Join ['''', vp_version p, ''projects'', PathEscape (vp_project p), ''locations'', PathEscape (vp_location p),
              ''publishers'', ''google'', ''models'', m @ '':'' @ vp_method p] ''/'') (CHR ''/'') =
          ['''', vp_version p, ''projects'', PathEscape (vp_project p), ''locations'', PathEscape (vp_location p),
              ''publishers'', ''google'', ''models'', m @ '':'' @ vp_method p]
      \<and> CHR ''?'' \<notin> set m \<and> q = (if vp_method p = ''streamGenerateContent'' then ''?alt=sse'' else [])"
proof -
  have "CHR ''/'' \<notin> set (vp_version p)" "CHR ''/'' \<notin> set (vp_method p)"
    using vertex_segments(1,2) [OF assms] by auto
  then show ?thesis
    using assms PathEscape_contained PathUnescape_PathEscape
    by (intro exI [of _ "PathEscape modelID"] exI) (subst Split_Join; simp)+
qed

theorem vertex_path_contained_witness:
  "\<exists>m q. upstreamPath vertexAdapter ''/v1/projects/p/locations/l/publishers/gem/models/flash:generateContent'' ''a/../b?x'' =
     Join ['''', ''v1'', ''projects'', ''p'', ''locations'', ''l'', ''publishers'', ''google'', ''models'', m @ '':generateContent''] ''/'' @ q
     \<and> PathUnescape m = ''a/../b?x'' \<and> q = []"
proof -
  let ?path = "''/v1/projects/p/locations/l/publishers/gem/models/flash:generateContent''"
  have "parseVertexPath ?path = Some \<lparr>vp_version = ''v1'', vp_project = ''p'', vp_location = ''l'', vp_providerRef = ''gem'',
    vp_model = ''flash'', vp_method = ''generateContent''\<rparr>" by code_simp
  moreover have "PathEscape ''p'' = ''p''" "PathEscape ''l'' = ''l''" by code_simp+
  ultimately show ?thesis using vertex_path_contained [of ?path _ "''a/../b?x''"] by auto
qed

text \<open>
  Only the first \<^verbatim>\<open>Connection\<close> line is read: a header named by a second line is forwarded.
\<close>

lemma second_connection_line:
  "map_of (copyForwardedHeaders [(''Connection'', [''close'', ''X-Hop'']), (''X-Hop'', [''1''])]) ''X-Hop'' = Some [''1'']"
  "map_of (copyForwardedHeaders [(''Connection'', [''close, X-Hop'']), (''X-Hop'', [''1''])]) ''X-Hop'' = None"
  by code_simp+

end
