(* ===== verification/LLM_Proxy.thy ===== *)
theory LLM_Proxy
  imports Provider_Adapters "HOL-Library.Monad_Syntax"
begin

text \<open>
  The LLM proxy (\<^verbatim>\<open>src/internal/gateway/proxy.go\<close>): one request from its body to the settled
  spend. The parts are in the order of the code: the attempt on one provider, the budget
  decision, the settling of usage, the relays of an answer, and the handler that composes them
  with the tenancy chain, the budget, the rate limiter and the fallback walk.

  What the world does is given by two records. \<open>attemptWorld\<close> holds the outcome of one upstream
  attempt, \<open>relayWorld\<close> what a relay reads and whether its writes succeed; both say how the clock,
  the caller's context and (through other requests) the ledger moved meanwhile. The byte-level
  reading and rewriting of request bodies and the translator between formats are the record
  \<open>bodyOps\<close> and a field of \<open>Server\<close>. Spans and logs are left out.
\<close>

subsection \<open>Usage\<close>

record LLMUsage = Usage +
  ServerTools :: "(string, int) gomap"

definition isZero :: "LLMUsage \<Rightarrow> bool" where
  "isZero u \<longleftrightarrow> InputTokens u = 0 \<and> OutputTokens u = 0 \<and> ServerTools u = []"

subsection \<open>The usage in a stream\<close>

text \<open>
  Decoding into a Go struct: a member fills the field whose name it equals up to case, a later
  one overwrites, null leaves a plain field as it is and clears a pointer, and a value of another
  type makes the decoding fail as a whole. \<open>unmarshal\<close> parses one event; a number is its value, so
  an integer written with a fraction or an exponent is not told apart.
\<close>

definition json_int64 :: "json \<Rightarrow> int option" where
  "json_int64 j =
     (case j of JNumber n \<Rightarrow> if n \<in> \<int> \<and> - (2 ^ 63) \<le> n \<and> n < 2 ^ 63 then Some \<lfloor>n\<rfloor> else None | _ \<Rightarrow> None)"

fun int_member :: "string \<Rightarrow> (string \<times> json) list \<Rightarrow> int \<Rightarrow> int option" where
  "int_member name [] old = Some old"
| "int_member name ((k, j) # ms) old =
     (if EqualFold k name \<and> j \<noteq> JNull then
        (case json_int64 j of None \<Rightarrow> None | Some n \<Rightarrow> int_member name ms n)
      else int_member name ms old)"

fun text_member :: "string \<Rightarrow> (string \<times> json) list \<Rightarrow> string \<Rightarrow> string option" where
  "text_member name [] old = Some old"
| "text_member name ((k, j) # ms) old =
     (if EqualFold k name then
        (case j of JNull \<Rightarrow> text_member name ms old | JString s \<Rightarrow> text_member name ms s | _ \<Rightarrow> None)
      else text_member name ms old)"

fun struct_member :: "string \<Rightarrow> (string \<times> json) list \<Rightarrow> (string \<times> json) list \<Rightarrow> (string \<times> json) list option" where
  "struct_member name [] old = Some old"
| "struct_member name ((k, j) # ms) old =
     (if EqualFold k name then
        (case j of JNull \<Rightarrow> struct_member name ms old | JObject fs \<Rightarrow> struct_member name ms (old @ fs) | _ \<Rightarrow> None)
      else struct_member name ms old)"

fun pointer_member ::
  "string \<Rightarrow> (string \<times> json) list \<Rightarrow> (string \<times> json) list option \<Rightarrow> (string \<times> json) list option option" where
  "pointer_member name [] old = Some old"
| "pointer_member name ((k, j) # ms) old =
     (if EqualFold k name then
        (case j of
           JNull \<Rightarrow> pointer_member name ms None
         | JObject fs \<Rightarrow> pointer_member name ms (Some ((case old of None \<Rightarrow> [] | Some prior \<Rightarrow> prior) @ fs))
         | _ \<Rightarrow> None)
      else pointer_member name ms old)"

fun array_member :: "string \<Rightarrow> (string \<times> json) list \<Rightarrow> json list \<Rightarrow> json list option" where
  "array_member name [] old = Some old"
| "array_member name ((k, j) # ms) old =
     (if EqualFold k name then
        (case j of JNull \<Rightarrow> array_member name ms [] | JArray js \<Rightarrow> array_member name ms js | _ \<Rightarrow> None)
      else array_member name ms old)"

definition struct_of :: "json \<Rightarrow> (string \<times> json) list option" where
  "struct_of j = (case j of JObject ms \<Rightarrow> Some ms | JNull \<Rightarrow> Some [] | _ \<Rightarrow> None)"

text \<open>A raw member keeps the last value, null included; no tools are counted unless every count is an integer.\<close>

definition raw_member :: "string \<Rightarrow> (string \<times> json) list \<Rightarrow> json option" where
  "raw_member name ms = map_option snd (List.find (\<lambda>(k, j). EqualFold k name) (rev ms))"

definition serverToolCounts :: "json option \<Rightarrow> (string, int) gomap" where
  "serverToolCounts raw =
     (case raw of
        Some (JObject ms) \<Rightarrow>
          if \<exists>(k, j) \<in> set ms. j \<noteq> JNull \<and> json_int64 j = None then []
          else fold (\<lambda>(k, j) tools. case json_int64 j of
                  None \<Rightarrow> tools
                | Some n \<Rightarrow> if n \<le> 0 then tools else AList.update (TrimSuffix k ''_requests'') n tools)
                (filter (\<lambda>(k, j). map_of (rev ms) k = Some j) ms) []
      | _ \<Rightarrow> [])"

fun Contains :: "string \<Rightarrow> string \<Rightarrow> bool" where
  "Contains [] sub = (sub = [])"
| "Contains (c # s) sub = (HasPrefix (c # s) sub \<or> Contains s sub)"

definition mayBeAnthropicUsageEvent :: "string \<Rightarrow> bool" where
  "mayBeAnthropicUsageEvent data \<longleftrightarrow>
     Contains data ''message_start'' \<or> Contains data ''message_delta'' \<or> Contains data [CHR 0x5C, CHR ''u'']"

record anthropicEvent =
  ae_Type :: string
  ae_Input :: int
  ae_Output :: int
  ae_Tools :: "json option"

definition anthropicEventOf :: "json \<Rightarrow> anthropicEvent option" where
  "anthropicEventOf j =
     do { ms \<leftarrow> struct_of j;
          typ \<leftarrow> text_member ''type'' ms [];
          message \<leftarrow> struct_member ''message'' ms [];
          messageUsage \<leftarrow> struct_member ''usage'' message [];
          input \<leftarrow> int_member ''input_tokens'' messageUsage 0;
          usage \<leftarrow> struct_member ''usage'' ms [];
          output \<leftarrow> int_member ''output_tokens'' usage 0;
          Some \<lparr>ae_Type = typ, ae_Input = input, ae_Output = output, ae_Tools = raw_member ''server_tool_use'' usage\<rparr> }"

definition anthropicStreamUsage :: "(string \<Rightarrow> json option) \<Rightarrow> string \<Rightarrow> LLMUsage \<Rightarrow> LLMUsage" where
  "anthropicStreamUsage unmarshal data u =
     (if \<not> mayBeAnthropicUsageEvent data then u
      else case (unmarshal data \<bind> anthropicEventOf) of
          None \<Rightarrow> u
        | Some evt \<Rightarrow>
            if ae_Type evt = ''message_start'' then u\<lparr>InputTokens := ae_Input evt\<rparr>
            else if ae_Type evt = ''message_delta'' then
              (let u = (if ae_Output evt > 0 then u\<lparr>OutputTokens := ae_Output evt\<rparr> else u);
                   tools = serverToolCounts (ae_Tools evt)
               in if tools \<noteq> [] then u\<lparr>ServerTools := tools\<rparr> else u)
            else u)"

text \<open>
  The byte filter of the OpenAI reader: the name usage in any case, with U+017F for s, or an escape.
\<close>

definition lower_or :: "char \<Rightarrow> nat" where
  "lower_or c = or (of_char c) 0x20"

fun usage_here :: "string \<Rightarrow> bool" where
  "usage_here (u # c # rest) =
     (let tail = (if lower_or c = 0x73 then Some rest
                  else if c = CHR 0xC5 then (case rest of d # rest' \<Rightarrow> if d = CHR 0xBF then Some rest' else None | [] \<Rightarrow> None)
                  else None)
      in lower_or u = 0x75
         \<and> (case tail of Some (a # g # e # _) \<Rightarrow> lower_or a = 0x61 \<and> lower_or g = 0x67 \<and> lower_or e = 0x65 | _ \<Rightarrow> False))"
| "usage_here _ = False"

fun usage_anywhere :: "string \<Rightarrow> bool" where
  "usage_anywhere [] = False"
| "usage_anywhere (c # s) = (usage_here (c # s) \<or> usage_anywhere s)"

definition mayCarryOpenAIUsage :: "string \<Rightarrow> bool" where
  "mayCarryOpenAIUsage data \<longleftrightarrow> Contains data [CHR 0x5C, CHR ''u''] \<or> usage_anywhere data"

definition openaiUsageOf :: "json \<Rightarrow> (int \<times> int) option option" where
  "openaiUsageOf j =
     do { ms \<leftarrow> struct_of j;
          usage \<leftarrow> pointer_member ''usage'' ms None;
          (case usage of
             None \<Rightarrow> Some None
           | Some fs \<Rightarrow>
               do { input \<leftarrow> int_member ''prompt_tokens'' fs 0;
                    output \<leftarrow> int_member ''completion_tokens'' fs 0;
                    Some (Some (input, output)) }) }"

definition openaiStreamUsage :: "(string \<Rightarrow> json option) \<Rightarrow> string \<Rightarrow> LLMUsage \<Rightarrow> LLMUsage" where
  "openaiStreamUsage unmarshal data u =
     (if TrimSpace data = ''[DONE]'' then u
      else if \<not> mayCarryOpenAIUsage data then u
      else case (unmarshal data \<bind> openaiUsageOf) of
          Some (Some (input, output)) \<Rightarrow> u\<lparr>InputTokens := input, OutputTokens := output\<rparr>
        | _ \<Rightarrow> u)"

definition vertexQueries :: "json \<Rightarrow> int option" where
  "vertexQueries candidate =
     do { ms \<leftarrow> struct_of candidate;
          grounding \<leftarrow> struct_member ''groundingMetadata'' ms [];
          queries \<leftarrow> array_member ''webSearchQueries'' grounding [];
          (if \<forall>q \<in> set queries. string_member q \<noteq> None then Some (int (length queries)) else None) }"

definition vertexServerTools :: "int list \<Rightarrow> (string, int) gomap" where
  "vertexServerTools queries = (if sum_list queries = 0 then [] else [(''google_search'', sum_list queries)])"

record vertexChunk =
  vc_Usage :: "(int \<times> int \<times> int) option"
  vc_Queries :: "int list"

definition vertexChunkOf :: "json \<Rightarrow> vertexChunk option" where
  "vertexChunkOf j =
     do { ms \<leftarrow> struct_of j;
          metadata \<leftarrow> pointer_member ''usageMetadata'' ms None;
          usage \<leftarrow> (case metadata of
             None \<Rightarrow> Some None
           | Some fs \<Rightarrow>
               do { prompt \<leftarrow> int_member ''promptTokenCount'' fs 0;
                    candidates \<leftarrow> int_member ''candidatesTokenCount'' fs 0;
                    thoughts \<leftarrow> int_member ''thoughtsTokenCount'' fs 0;
                    Some (Some (prompt, candidates, thoughts)) });
          cs \<leftarrow> array_member ''candidates'' ms [];
          (if \<exists>c \<in> set cs. vertexQueries c = None then None
           else Some \<lparr>vc_Usage = usage, vc_Queries = map (the \<circ> vertexQueries) cs\<rparr>) }"

definition vertexStreamUsage :: "(string \<Rightarrow> json option) \<Rightarrow> string \<Rightarrow> LLMUsage \<Rightarrow> LLMUsage" where
  "vertexStreamUsage unmarshal data u =
     (case (unmarshal data \<bind> vertexChunkOf) of
        None \<Rightarrow> u
      | Some chunk \<Rightarrow>
          let tools = vertexServerTools (vc_Queries chunk);
              u = (if tools \<noteq> [] then u\<lparr>ServerTools := tools\<rparr> else u)
          in case vc_Usage chunk of
               None \<Rightarrow> u
             | Some (prompt, candidates, thoughts) \<Rightarrow>
                 u\<lparr>InputTokens := prompt, OutputTokens := wrap64 (candidates + thoughts)\<rparr>)"

fun accumulateStreamUsage :: "providerAdapter \<Rightarrow> (string \<Rightarrow> json option) \<Rightarrow> string \<Rightarrow> LLMUsage \<Rightarrow> LLMUsage" where
  "accumulateStreamUsage anthropicAdapter = anthropicStreamUsage"
| "accumulateStreamUsage openaiAdapter = openaiStreamUsage"
| "accumulateStreamUsage vertexAdapter = vertexStreamUsage"

subsection \<open>Running totals\<close>

type_synonym spendTotals = "(string, Usage) gomap"

definition spendKey :: "string \<Rightarrow> string \<Rightarrow> string \<Rightarrow> string" where
  "spendKey namespace provider model = namespace @ ''/'' @ provider @ ''/'' @ model"

definition spend_Record :: "string \<Rightarrow> string \<Rightarrow> string \<Rightarrow> LLMUsage \<Rightarrow> spendTotals \<Rightarrow> spendTotals" where
  "spend_Record namespace provider model usage totals =
     (let key = spendKey namespace provider model;
          t = (case map_of totals key of None \<Rightarrow> \<lparr>InputTokens = 0, OutputTokens = 0\<rparr> | Some t \<Rightarrow> t)
      in AList.update key \<lparr>InputTokens = wrap64 (InputTokens t + InputTokens usage),
           OutputTokens = wrap64 (OutputTokens t + OutputTokens usage)\<rparr> totals)"

definition spend_Total :: "string \<Rightarrow> string \<Rightarrow> string \<Rightarrow> spendTotals \<Rightarrow> Usage" where
  "spend_Total namespace provider model totals =
     (case map_of totals (spendKey namespace provider model) of None \<Rightarrow> \<lparr>InputTokens = 0, OutputTokens = 0\<rparr> | Some t \<Rightarrow> t)"

definition workloadKey :: "caller \<Rightarrow> string" where
  "workloadKey c =
     (case cl_Workload c of
        None \<Rightarrow> UnattributedWorkload
      | Some i \<Rightarrow> (case id_Kind i of KindAgentTask \<Rightarrow> ''task/'' @ id_Name i | KindAgent \<Rightarrow> ''agent/'' @ id_Name i))"

subsection \<open>One attempt\<close>

text \<open>
  \<open>aw_leftAtRead\<close>: the caller had left when the error body was read; \<open>aw_left\<close>: it had left when
  the attempt was over. \<open>aw_others\<close> is what other requests did to the ledger meanwhile.
\<close>

datatype tokenError = ErrInvalidKey string | ErrRejected string | TokenDeadline string | TokenFailed string
datatype doError = DoTimeout string | DoFailed string
datatype readError = ErrUpstreamIdle | ErrRead string

record attemptWorld =
  aw_credential :: "string + string"
  aw_token :: "tokenError + string"
  aw_requestErr :: "string option"
  aw_do :: "doError + httpResponse"
  aw_body :: string
  aw_readErr :: "readError option"
  aw_leftAtRead :: bool
  aw_left :: bool
  aw_now :: gotime
  aw_others :: "BudgetLedger \<Rightarrow> BudgetLedger"

definition failedResult :: "failClass \<Rightarrow> string \<Rightarrow> forwardResult" where
  "failedResult c err = no_result\<lparr>fallilable := True, fr_class := c, fr_err := Some err\<rparr>"

definition vertexCredential :: "attemptWorld \<Rightarrow> forwardResult + string" where
  "vertexCredential w =
     (case aw_token w of
        Inr token \<Rightarrow> Inr token
      | Inl (ErrInvalidKey e) \<Rightarrow> Inl (failedResult classConnect e)
      | Inl (ErrRejected e) \<Rightarrow> Inl ((failedResult classUpstream e)\<lparr>credentialRejected := True\<rparr>)
      | Inl (TokenDeadline e) \<Rightarrow> Inl (failedResult classTimeout e)
      | Inl (TokenFailed e) \<Rightarrow> Inl (failedResult classConnect e))"

record upstreamRequest =
  ur_URL :: string
  ur_Header :: header
  ur_Body :: string

fun readErrorText :: "readError \<Rightarrow> string" where
  "readErrorText ErrUpstreamIdle = ''upstream sent no data within the upstream timeout''"
| "readErrorText (ErrRead e) = e"

text \<open>\<open>LimitRead n s\<close> is what \<^verbatim>\<open>io.ReadAll\<close> of an \<^verbatim>\<open>io.LimitReader\<close> reads of a body.\<close>

fun LimitRead :: "int \<Rightarrow> string \<Rightarrow> string" where
  "LimitRead n [] = []"
| "LimitRead n (c # s) = (if n \<le> 0 then [] else c # LimitRead (n - 1) s)"

definition errorBodyLimit :: int where "errorBodyLimit = 64 * 2 ^ 10"

definition answerResult :: "attemptWorld \<Rightarrow> ModelProvider \<Rightarrow> httpResponse \<Rightarrow> forwardResult" where
  "answerResult w provider resp =
     (let (fallback, class) = isFallbackable (StatusCode resp);
          fr = no_result\<lparr>fr_resp := Some resp, fallilable := fallback, fr_class := class,
                 fr_provider := Name provider, fr_chosen := Some provider\<rparr>
      in if class = classNone then fr
         else case aw_readErr w of
             None \<Rightarrow> fr\<lparr>fr_body := LimitRead errorBodyLimit (aw_body w)\<rparr>
           | Some err \<Rightarrow>
               if aw_leftAtRead w then fr\<lparr>fr_body := LimitRead errorBodyLimit (aw_body w)\<rparr>
               else failedResult (if err = ErrUpstreamIdle then classTimeout else classConnect) (readErrorText err))"

text \<open>The result, with the request that was sent if one was.\<close>

definition forwardOnce ::
  "attemptWorld \<Rightarrow> header \<Rightarrow> ModelProvider \<Rightarrow> string \<Rightarrow> string \<Rightarrow> providerAdapter \<Rightarrow> providerAdapter \<Rightarrow> string
    \<Rightarrow> forwardResult \<times> upstreamRequest option" where
  "forwardOnce w inbound provider outBody inboundPath adapter typeAdapter modelID =
     (case aw_credential w of
        Inl err \<Rightarrow> (failedResult classConnect err, None)
      | Inr stored \<Rightarrow>
          (case (if Type (Spec provider) = ProviderTypeGoogleVertex then vertexCredential w else Inr stored) of
             Inl fr \<Rightarrow> (fr, None)
           | Inr credential \<Rightarrow>
               (case aw_requestErr w of
                  Some err \<Rightarrow> (failedResult classConnect err, None)
                | None \<Rightarrow>
                    let upReq = \<lparr>ur_URL = TrimSuffix (Endpoint (Spec provider)) ''/'' @ upstreamPath adapter inboundPath modelID,
                                 ur_Header = upstreamHeaders typeAdapter credential inbound, ur_Body = outBody\<rparr>
                    in (case aw_do w of
                          Inl (DoTimeout err) \<Rightarrow> failedResult classTimeout err
                        | Inl (DoFailed err) \<Rightarrow> failedResult classConnect err
                        | Inr resp \<Rightarrow> answerResult w provider resp, Some upReq))))"

text \<open>
  The most bytes the translation hold keeps, in \<^verbatim>\<open>int64\<close> arithmetic.
\<close>

definition MaxInt64 :: int where "MaxInt64 = 2 ^ 63 - 1"
definition crossingHoldFloor :: int where "crossingHoldFloor = 2 ^ 20"
definition crossingHoldBytesPerToken :: int where "crossingHoldBytesPerToken = 16"

definition crossingHoldLimit :: "int \<Rightarrow> int" where
  "crossingHoldLimit maxTokens =
     (if maxTokens > go_div (MaxInt64 - crossingHoldFloor) crossingHoldBytesPerToken then MaxInt64
      else wrap64 (crossingHoldFloor + wrap64 (max maxTokens 0 * crossingHoldBytesPerToken)))"

text \<open>
  The operations on request bodies: whether the bytes are valid JSON, the routing members of a
  body, the body with another model, its decoded object, the encoding of a translated body, and
  the output limit a translated body carries.
\<close>

datatype scanError = DuplicateField string | StreamNotBoolean | NotObject

record requestFields =
  rf_model :: string
  rf_streamTrue :: bool

record bodyOps =
  bo_valid :: "string \<Rightarrow> bool"
  bo_scan :: "string \<Rightarrow> scanError + requestFields"
  bo_rewrite :: "string \<Rightarrow> requestFields \<Rightarrow> string \<Rightarrow> bool \<Rightarrow> string"
  bo_decode :: "string \<Rightarrow> json option"
  bo_encode :: "json \<Rightarrow> string option"
  bo_maxTokens :: "json \<Rightarrow> int option"

definition needsStreamOptions :: "providerAdapter \<Rightarrow> requestFields \<Rightarrow> bool" where
  "needsStreamOptions a f \<longleftrightarrow> streamUsageOption a \<and> rf_streamTrue f"

text \<open>What one candidate is sent: the body, the path, the two adapters and the model.\<close>

definition candidateRequest ::
  "bodyOps \<Rightarrow> walk \<Rightarrow> ModelProvider \<Rightarrow> string \<Rightarrow> string \<Rightarrow> providerAdapter \<Rightarrow> providerAdapter
    \<Rightarrow> string \<times> string \<times> providerAdapter \<times> providerAdapter \<times> string" where
  "candidateRequest ops st cand outBody inboundPath adapter typeAdapter =
     (let model = candidateModel st cand;
          candAdapter = (case adapterForProviderType (Type (Spec cand)) of None \<Rightarrow> typeAdapter | Some a \<Rightarrow> a);
          crossed = (if crosses st cand then
             (case map_of (translated st) (Name cand) of
                None \<Rightarrow> None
              | Some body \<Rightarrow>
                  (case bo_encode ops body of
                     None \<Rightarrow> None
                   | Some encoded \<Rightarrow>
                       (case bo_scan ops encoded of
                          Inl _ \<Rightarrow> None
                        | Inr f \<Rightarrow> Some (bo_rewrite ops encoded f model (needsStreamOptions candAdapter f)))))
           else None)
      in case crossed of
           Some body \<Rightarrow> (body, canonicalPath (formatForType (Type (Spec cand))), candAdapter, candAdapter, model)
         | None \<Rightarrow>
             (if model \<noteq> st_modelID st \<and> outBody \<noteq> [] then
                (case bo_scan ops outBody of
                   Inl _ \<Rightarrow> (outBody, inboundPath, adapter, candAdapter, model)
                 | Inr f \<Rightarrow> (bo_rewrite ops outBody f model False, inboundPath, adapter, candAdapter, model))
              else (outBody, inboundPath, adapter, candAdapter, model)))"

definition fallbackReasonSuccess :: string where "fallbackReasonSuccess = ''success''"
definition outcomeClientClosed :: string where "outcomeClientClosed = ''client_closed''"
definition outcomeOK :: string where "outcomeOK = ''ok''"
definition outcomeError :: string where "outcomeError = ''error''"

text \<open>
  The attempt the handler passes to the walk. \<open>world n\<close> is the outcome of the \<open>n\<close>th attempt.
\<close>

record llmCall =
  lc_header :: header
  lc_path :: string
  lc_body :: string
  lc_adapter :: providerAdapter
  lc_typeAdapter :: providerAdapter

definition attemptResult :: "bodyOps \<Rightarrow> attemptWorld \<Rightarrow> llmCall \<Rightarrow> ModelProvider \<Rightarrow> walk \<Rightarrow> forwardResult" where
  "attemptResult ops w call cand st =
     (let (body, inboundPath, pathAdapter, candAdapter, model) =
            candidateRequest ops st cand (lc_body call) (lc_path call) (lc_adapter call) (lc_typeAdapter call);
          fr = fst (forwardOnce w (lc_header call) cand body inboundPath pathAdapter candAdapter model);
          limit = (if crosses st cand then
                     crossingHoldLimit
                       (case (case map_of (translated st) (Name cand) of None \<Rightarrow> None | Some b \<Rightarrow> bo_maxTokens ops b) of
                          Some mt \<Rightarrow> mt | None \<Rightarrow> maxOutputTokensOf cand model)
                   else holdLimit fr)
      in fr\<lparr>fr_model := model, fr_format := formatForType (Type (Spec cand)), holdLimit := limit\<rparr>)"

definition afterAttempt :: "attemptWorld \<Rightarrow> ModelProvider \<Rightarrow> failClass \<Rightarrow> walk \<Rightarrow> walk" where
  "afterAttempt w cand c st =
     (let callerLeft = (w_ctxErr st \<or> aw_leftAtRead w \<or> aw_left w);
          st = st\<lparr>w_ledger := aw_others w (w_ledger st), w_now := aw_now w, w_ctxErr := callerLeft\<rparr>;
          st = (if \<not> callerLeft \<and> c \<noteq> classNone then st\<lparr>observed := insert c (observed st)\<rparr> else st);
          reason = (if callerLeft then outcomeClientClosed
                    else if c \<noteq> classNone then failClassName c else fallbackReasonSuccess)
      in if Name cand \<noteq> Name (st_primary st)
         then log_call (FallbackMetric (Name (st_primary st)) (Name cand) reason) st else st)"

definition llmAttempt ::
  "bodyOps \<Rightarrow> (int \<Rightarrow> attemptWorld) \<Rightarrow> llmCall \<Rightarrow> ModelProvider \<Rightarrow> walk \<Rightarrow> walk \<times> forwardResult" where
  "llmAttempt ops world call cand st =
     (let w = world (attemptCount st); fr = attemptResult ops w call cand st
      in (afterAttempt w cand (fr_class fr) st, fr))"

lemma isFallbackable_class: "isFallbackable c = (True, k) \<Longrightarrow> k = classUpstream"
  by (auto simp: isFallbackable_def split: if_splits)

text \<open>
  A fallbackable result is the failure of a provider, any other is a response, a response is of
  its candidate, and its status says whether it is fallbackable.
\<close>

definition candidate_result :: "ModelProvider \<Rightarrow> forwardResult \<Rightarrow> bool" where
  "candidate_result p fr \<longleftrightarrow> (fallilable fr \<longrightarrow> fr_class fr \<in> {classConnect, classTimeout, classUpstream})
     \<and> (\<not> fallilable fr \<longrightarrow> fr_resp fr \<noteq> None) \<and> fr_chosen fr = (if fr_resp fr = None then None else Some p)
     \<and> (\<forall>resp. fr_resp fr = Some resp \<longrightarrow> fallilable fr = fst (isFallbackable (StatusCode resp)))"

lemma failedResult_candidate: "c \<in> {classConnect, classTimeout, classUpstream} \<Longrightarrow> candidate_result p (failedResult c e)"
  by (simp add: candidate_result_def failedResult_def no_result_def)

lemma vertexCredential_candidate: "vertexCredential w = Inl fr \<Longrightarrow> candidate_result p fr"
  by (auto simp: vertexCredential_def candidate_result_def failedResult_def no_result_def split: sum.splits tokenError.splits)

lemma answerResult_candidate: "candidate_result p (answerResult w p resp)"
proof -
  obtain fb c where i: "isFallbackable (StatusCode resp) = (fb, c)" by (metis surj_pair)
  have "fb \<Longrightarrow> c = classUpstream" using i isFallbackable_class [of "StatusCode resp" c] by simp
  then show ?thesis
    by (auto simp: answerResult_def i Let_def candidate_result_def no_result_def failedResult_def split: option.split)
qed

lemma forwardOnce_candidate: "candidate_result p (fst (forwardOnce w inb p b path a ta m))"
  using failedResult_candidate vertexCredential_candidate answerResult_candidate
  by (auto simp: forwardOnce_def Let_def split: sum.split option.split doError.split)

lemma attemptResult_candidate: "candidate_result p (attemptResult ops w call p st)"
proof -
  obtain body path pa ca model where c: "candidateRequest ops st p (lc_body call) (lc_path call) (lc_adapter call) (lc_typeAdapter call)
    = (body, path, pa, ca, model)" by (metis surj_pair)
  show ?thesis
    using forwardOnce_candidate [of p w "lc_header call" body path pa ca model]
    by (simp add: attemptResult_def c Let_def candidate_result_def)
qed

lemma attemptResult_model: "fr_model (attemptResult ops w call p st) = candidateModel st p"
  by (simp add: attemptResult_def candidateRequest_def Let_def split: option.split sum.split)

interpretation llm: walk_attempt "llmAttempt ops world call" for ops world call
proof
  fix p st st' res
  assume "llmAttempt ops world call p st = (st', res)"
  then have a: "st' = afterAttempt (world (attemptCount st)) p (fr_class res) st" "candidate_result p res"
    using attemptResult_candidate by (auto simp: llmAttempt_def Let_def)
  show "fr_chosen res = (if fr_resp res = None then None else Some p)" "\<not> fallilable res \<Longrightarrow> fr_resp res \<noteq> None" "fallilable res \<Longrightarrow> fr_class res \<in> {classConnect, classTimeout, classUpstream}"
    "fr_resp res = Some resp \<Longrightarrow> fallilable res = fst (isFallbackable (StatusCode resp))" for resp
    using a(2) by (simp_all add: candidate_result_def)
  show "fr_model res = candidateModel st p"
    using \<open>llmAttempt ops world call p st = (st', res)\<close> attemptResult_model by (auto simp: llmAttempt_def Let_def)
  show "walkState.truncate st' = (walkState.truncate st)\<lparr>observed := observed st'\<rparr> \<and> w_settled st' = w_settled st"
    by (simp add: a(1) afterAttempt_def Let_def walkState.truncate_def log_call_def)
  show "observed st' = (if w_ctxErr st' \<or> fr_class res = classNone then observed st else insert (fr_class res) (observed st))"
    by (simp add: a(1) afterAttempt_def Let_def log_call_def)
  show "\<exists>cs. w_calls st' = w_calls st @ cs \<and> (\<forall>c \<in> set cs. quiet_call c)"
    by (simp add: a(1) afterAttempt_def Let_def log_call_def quiet_call_def)
qed

subsection \<open>The budget decision and the settling of usage\<close>

text \<open>
  The calls and either the terminal answer or the model to use. \<open>engaged\<close> says that the request
  holds an admission slot.
\<close>

definition applyBudgetDecision ::
  "budgetDecision \<Rightarrow> bool \<Rightarrow> string \<Rightarrow> string \<Rightarrow> string \<Rightarrow> walkCall list \<times> (httpError + string)" where
  "applyBudgetDecision d engaged providerName namespace modelID =
     (let raised = (if MarginRaisedNow d then [BoundaryMetric providerName namespace ''margin_raised''] else []);
          threshold = (\<lambda>action. MetricCall ''budget_threshold'' [providerName, namespace, action]);
          held = (if engaged then [BoundaryMetric providerName namespace ''engaged''] else [])
      in if Unavailable d then
           (raised @ [BoundaryMetric providerName namespace ''fail_closed''],
            Inl (writeError 503 (providerBody errBudgetUnavailable providerName True
              (''budget state for provider '' @ providerName @ '' cannot be verified inside the boundary region; failing closed'')) 1))
         else if Throttled d then
           (raised @ [BoundaryMetric providerName namespace ''throttled''],
            Inl (writeError 429 (providerBody errBudgetThrottled providerName True
              (''boundary admission for namespace '' @ namespace @ '' on provider '' @ providerName @ '' is busy; retry shortly'')) 1))
         else if d_Action d = BudgetActionBlock then
           (raised @ [threshold BudgetActionBlock],
            Inl (writeError 429 (providerBody errBudgetExhausted providerName False
              ((if d_Ceiling d = ''cluster'' then ''cluster budget exhausted'' else ''namespace budget exhausted: '' @ namespace)
               @ '' on provider '' @ providerName @ '' ('' @ Itoa (d_Percent d) @ ''% used)'')) (d_RetryAfter d)))
         else if d_Action d = BudgetActionDegrade then
           (raised @ threshold BudgetActionDegrade # held,
            Inr (if d_DegradeTo d \<noteq> [] \<and> d_DegradeTo d \<noteq> modelID then d_DegradeTo d else modelID))
         else if d_Action d = BudgetActionWarn then (raised @ threshold BudgetActionWarn # held, Inr modelID)
         else (raised @ held, Inr modelID))"

record proxy =
  px_walk :: walk
  px_spend :: spendTotals
  px_buckets :: buckets
  px_replicas :: int

text \<open>The bucket that admitted the request: the primary's limits and the model after the budget decision.\<close>

record debit =
  db_provider :: ModelProvider
  db_namespace :: string
  db_model :: string

definition debitTokens :: "debit \<Rightarrow> LLMUsage \<Rightarrow> proxy \<Rightarrow> proxy" where
  "debitTokens d u px =
     px\<lparr>px_buckets := DebitTokens (w_now (px_walk px)) (px_replicas px) (db_provider d) (db_namespace d) (db_model d)
          (wrap64 (InputTokens u + OutputTokens u)) (px_buckets px)\<rparr>"

definition px_log :: "walkCall list \<Rightarrow> proxy \<Rightarrow> proxy" where
  "px_log cs px = px\<lparr>px_walk := (px_walk px)\<lparr>w_calls := w_calls (px_walk px) @ cs\<rparr>\<rparr>"

definition px_settle :: "ticket option \<Rightarrow> usd \<Rightarrow> proxy \<Rightarrow> proxy" where
  "px_settle sfn cost px = (case sfn of None \<Rightarrow> px | Some tk \<Rightarrow> px\<lparr>px_walk := callSettle tk cost (px_walk px)\<rparr>)"

definition px_add :: "ModelProvider \<Rightarrow> string \<Rightarrow> string \<Rightarrow> usd \<Rightarrow> proxy \<Rightarrow> proxy" where
  "px_add provider namespace workload cost px =
     px_log [AddCall provider cost]
       (px\<lparr>px_walk := (px_walk px)\<lparr>w_ledger := Add (w_now (px_walk px)) provider namespace workload cost (w_ledger (px_walk px))\<rparr>\<rparr>)"

text \<open>Who is charged: the provider that served, and the slot it was admitted on.\<close>

record charge =
  cg_provider :: ModelProvider
  cg_namespace :: string
  cg_workload :: string
  cg_model :: string
  cg_settle :: "ticket option"
  cg_debit :: debit

definition charge_cost :: "charge \<Rightarrow> LLMUsage \<Rightarrow> usd" where
  "charge_cost g u = costOf (cg_provider g) (cg_model g) (Usage.truncate u)"

definition settleUsage :: "charge \<Rightarrow> LLMUsage \<Rightarrow> proxy \<Rightarrow> proxy" where
  "settleUsage g u px =
     (let px = debitTokens (cg_debit g) u px;
          cost = charge_cost g u;
          name = Name (cg_provider g);
          px = px\<lparr>px_spend := spend_Record (cg_namespace g) name (cg_model g) u (px_spend px)\<rparr>;
          px = (if cg_settle g \<noteq> None then px_settle (cg_settle g) cost px
                else px_add (cg_provider g) (cg_namespace g) (cg_workload g) cost px)
      in px_log ([MetricCall ''tokens'' [name, cg_model g, cg_namespace g], MetricCall ''spend'' [name, cg_namespace g]]
           @ map (\<lambda>(tool, count). MetricCall ''server_tool_use'' [name, cg_namespace g, tool]) (ServerTools u)) px)"

definition usageMissing :: "string \<Rightarrow> string \<Rightarrow> proxy \<Rightarrow> proxy" where
  "usageMissing provider modelID px = px_log [MetricCall ''usage_missing'' [provider, modelID]] px"

definition settleRelay :: "charge \<Rightarrow> LLMUsage \<Rightarrow> proxy \<Rightarrow> proxy" where
  "settleRelay g u px =
     (if \<not> isZero u then settleUsage g u px
      else px_settle (cg_settle g) 0 (usageMissing (Name (cg_provider g)) (cg_model g) px))"

definition llmRequestMetric :: "string \<Rightarrow> string \<Rightarrow> string \<Rightarrow> string \<Rightarrow> walkCall" where
  "llmRequestMetric provider model namespace outcome = MetricCall ''llm_requests'' [provider, model, namespace, outcome]"

definition is2xx :: "httpResponse \<Rightarrow> bool" where
  "is2xx resp \<longleftrightarrow> StatusCode resp \<ge> 200 \<and> StatusCode resp \<le> 299"

definition readsOnAfterCallerLeft :: "forwardResult \<Rightarrow> bool" where
  "readsOnAfterCallerLeft res \<longleftrightarrow> (case fr_resp res of None \<Rightarrow> False | Some resp \<Rightarrow> is2xx resp \<and> \<not> isSSE resp)"

definition settleCallerLeft :: "forwardResult \<Rightarrow> string \<Rightarrow> string \<Rightarrow> string \<Rightarrow> proxy \<Rightarrow> proxy" where
  "settleCallerLeft res namespace modelID answered px =
     (let answered = (if fr_provider res \<noteq> [] then fr_provider res else answered);
          modelID = (if fr_model res \<noteq> [] then fr_model res else modelID);
          px = (case fr_resp res of
                  None \<Rightarrow> px
                | Some resp \<Rightarrow> if is2xx resp then usageMissing answered modelID px else px);
          px = px_settle (fr_settle res) 0 px
      in px_log [llmRequestMetric answered modelID namespace outcomeClientClosed] px)"

subsection \<open>The relays\<close>

text \<open>
  What a relay meets: the pieces of the body as they are read and the error that ends the read
  (none at a clean end), which writes to the caller succeed, whether the caller has left at the
  end, and how the clock and the ledger moved.
\<close>

datatype relayError = ErrContentLength | ErrWrite

record relayWorld =
  rw_pieces :: "string list"
  rw_readErr :: "readError option"
  rw_writeErr :: "relayError option"
  rw_writes :: "nat \<Rightarrow> bool"
  rw_ctxErr :: bool
  rw_now :: gotime
  rw_others :: "BudgetLedger \<Rightarrow> BudgetLedger"

definition relay_elapse :: "relayWorld \<Rightarrow> proxy \<Rightarrow> proxy" where
  "relay_elapse w px = px\<lparr>px_walk := (px_walk px)\<lparr>w_ledger := rw_others w (w_ledger (px_walk px)), w_now := rw_now w\<rparr>\<rparr>"

definition streamErrorType :: "readError \<Rightarrow> string" where
  "streamErrorType cause = (if cause = ErrUpstreamIdle then errProviderTimeout else errProviderError)"

text \<open>
  \<open>relayJSON\<close>: every byte is read whatever the caller does, so the usage is that of the whole
  body. The outcome, and whether the response must end without its final bytes.
\<close>

definition relayJSON :: "relayWorld \<Rightarrow> string \<times> bool" where
  "relayJSON w =
     (if rw_ctxErr w \<or> rw_writeErr w = Some ErrWrite then (outcomeClientClosed, False)
      else if rw_readErr w \<noteq> None \<or> rw_writeErr w \<noteq> None then (outcomeError, True)
      else (outcomeOK, False))"

record holdBuffer =
  hb_limit :: int
  hb_buf :: string
  hb_over :: bool

definition hold_Write :: "string \<Rightarrow> holdBuffer \<Rightarrow> holdBuffer" where
  "hold_Write piece h =
     (if hb_over h then h
      else if int (length (hb_buf h)) + int (length piece) > hb_limit h then h\<lparr>hb_over := True, hb_buf := []\<rparr>
      else h\<lparr>hb_buf := hb_buf h @ piece\<rparr>)"

definition hold_of :: "int \<Rightarrow> string list \<Rightarrow> holdBuffer" where
  "hold_of limit pieces = fold hold_Write pieces \<lparr>hb_limit = limit, hb_buf = [], hb_over = False\<rparr>"

text \<open>The answers the handler writes.\<close>

datatype proxyResponse =
    NoAnswer
  | ErrorAnswer httpError
  | VerbatimAnswer int header string
  | JSONAnswer int header bool
  | StreamAnswer int header "string list"

definition relayCrossing ::
  "(string \<Rightarrow> string + string) \<Rightarrow> relayWorld \<Rightarrow> int \<Rightarrow> ModelProvider \<Rightarrow> httpResponse \<Rightarrow> string \<times> proxyResponse" where
  "relayCrossing translate w limit provider resp =
     (let hold = hold_of limit (rw_pieces w);
          fail = (\<lambda>status errType msg. (outcomeError, ErrorAnswer (writeError status (providerBody errType (Name provider) False msg) 0)))
      in if rw_ctxErr w then (outcomeClientClosed, NoAnswer)
         else case rw_readErr w of
             Some err \<Rightarrow>
               fail (if streamErrorType err = errProviderTimeout then 504 else 502) (streamErrorType err)
                 ''the fallback provider's response ended before it completed''
           | None \<Rightarrow>
               if hb_over hold then fail 502 errProviderError ''the fallback provider's response exceeded the size its max_tokens allows''
               else case translate (hb_buf hold) of
                   Inl err \<Rightarrow> fail 502 errProviderError (''the fallback provider's response could not be translated: '' @ err)
                 | Inr body \<Rightarrow>
                     (outcomeOK, VerbatimAnswer (StatusCode resp)
                        (header_Del ''Content-Length'' (copyDownstreamHeaders [] (resp_Header resp))) body))"

text \<open>
  The lines of a stream: \<open>tr_feed seen line\<close> are the lines a translator gives out for \<open>line\<close>
  after \<open>seen\<close>, \<open>tr_finish seen\<close> its closing lines. \<open>writeLines\<close> stops at the first write that fails.
\<close>

record streamTranslator =
  tr_feed :: "string list \<Rightarrow> string \<Rightarrow> string list"
  tr_finish :: "string list \<Rightarrow> string list"

fun writeLines :: "(nat \<Rightarrow> bool) \<Rightarrow> string list \<Rightarrow> string list \<Rightarrow> string list \<times> bool" where
  "writeLines writes written [] = (written, True)"
| "writeLines writes written (out # outs) =
     (if writes (length written) then writeLines writes (written @ [out]) outs else (written, False))"

fun relayLines ::
  "(string \<Rightarrow> LLMUsage \<Rightarrow> LLMUsage) \<Rightarrow> streamTranslator option \<Rightarrow> (nat \<Rightarrow> bool) \<Rightarrow> string list \<Rightarrow> string list \<Rightarrow> LLMUsage
    \<Rightarrow> string list \<Rightarrow> string list \<times> LLMUsage \<times> bool" where
  "relayLines accumulate tr writes seen written u [] = (written, u, True)"
| "relayLines accumulate tr writes seen written u (line # rest) =
     (let u = (case CutPrefix line ''data:'' of None \<Rightarrow> u | Some data \<Rightarrow> accumulate (TrimSpace data) u);
          outs = (case tr of None \<Rightarrow> [line] | Some t \<Rightarrow> tr_feed t seen line);
          (written, ok) = writeLines writes written outs
      in if ok then relayLines accumulate tr writes (seen @ [line]) written u rest else (written, u, False))"

definition noUsage :: LLMUsage where
  "noUsage = \<lparr>InputTokens = 0, OutputTokens = 0, ServerTools = []\<rparr>"

definition relayStream ::
  "(string \<Rightarrow> LLMUsage \<Rightarrow> LLMUsage) \<Rightarrow> streamTranslator option \<Rightarrow> (readError \<Rightarrow> string list) \<Rightarrow> relayWorld
    \<Rightarrow> string \<times> string list \<times> LLMUsage" where
  "relayStream accumulate tr errorEvent w =
     (let (written, u, ok) = relayLines accumulate tr (rw_writes w) [] [] noUsage (rw_pieces w)
      in if \<not> ok then (outcomeClientClosed, written, u)
         else if rw_ctxErr w then (outcomeClientClosed, written, u)
         else case rw_readErr w of
             Some err \<Rightarrow> (outcomeError, fst (writeLines (rw_writes w) written (errorEvent err)), u)
           | None \<Rightarrow>
               let (written, ok) = writeLines (rw_writes w) written (case tr of None \<Rightarrow> [] | Some t \<Rightarrow> tr_finish t (rw_pieces w))
               in (if ok then outcomeOK else outcomeClientClosed, written, u))"

text \<open>The event that ends a truncated stream; \<open>marshal\<close> encodes a JSON value.\<close>

definition streamErrorEvent :: "(json \<Rightarrow> string) \<Rightarrow> string \<Rightarrow> string \<Rightarrow> readError \<Rightarrow> string list" where
  "streamErrorEvent marshal callerFormat provider cause =
     (let errType = streamErrorType cause;
          msg = (if errType = errProviderTimeout
                 then ''the provider sent no data within the upstream timeout; the response is truncated''
                 else ''the provider stream failed before it completed; the response is truncated'');
          eventError = [(''type'', JString errType), (''message'', JString msg)]
      in if callerFormat = FormatAnthropic then
           [''event: error'', ''data: '' @ marshal (JObject [(''type'', JString ''error''), (''error'', JObject eventError)]), []]
         else
           [''data: '' @ marshal (JObject [(''error'', JObject (eventError @ (if provider = [] then [] else [(''provider'', JString provider)])))]), []])"

subsection \<open>The handler\<close>

text \<open>
  What the server is configured with, and the parts of the gateway that are arguments: the
  usage readers of whole answers and the translators of answers, errors and streams.
\<close>

record proxyEnv =
  pe_server :: Server
  pe_ops :: bodyOps
  pe_maxBody :: int
  pe_maxDepth :: int
  pe_unmarshal :: "string \<Rightarrow> json option"
  pe_marshal :: "json \<Rightarrow> string"
  pe_usage :: "providerAdapter \<Rightarrow> string list \<Rightarrow> LLMUsage"
  pe_error :: "string \<Rightarrow> string \<Rightarrow> string \<Rightarrow> string"
  pe_response :: "string \<Rightarrow> string \<Rightarrow> string \<Rightarrow> string + string"
  pe_stream :: "string \<Rightarrow> string \<Rightarrow> string \<Rightarrow> streamTranslator"

definition servingAdapter :: "providerAdapter \<Rightarrow> forwardResult \<Rightarrow> providerAdapter" where
  "servingAdapter adapter res =
     (case fr_chosen res of
        None \<Rightarrow> adapter
      | Some p \<Rightarrow> (case adapterForProviderType (Type (Spec p)) of None \<Rightarrow> adapter | Some a \<Rightarrow> a))"

text \<open>The relay of a 2xx: its answer, its outcome and the usage it read.\<close>

definition relay2xx ::
  "proxyEnv \<Rightarrow> relayWorld \<Rightarrow> forwardResult \<Rightarrow> httpResponse \<Rightarrow> ModelProvider \<Rightarrow> providerAdapter \<Rightarrow> string \<Rightarrow> string
    \<Rightarrow> proxyResponse \<times> string \<times> LLMUsage" where
  "relay2xx env w res resp chosen adapter inFormat modelID =
     (let serving = servingAdapter adapter res;
          crossing = (fr_format res \<noteq> [] \<and> inFormat \<noteq> [] \<and> fr_format res \<noteq> inFormat);
          header = copyDownstreamHeaders [] (resp_Header resp)
      in if isSSE resp then
           (let (outcome, written, u) =
                  relayStream (accumulateStreamUsage serving (pe_unmarshal env))
                    (if crossing then Some (pe_stream env (fr_format res) inFormat modelID) else None)
                    (streamErrorEvent (pe_marshal env) (formatForType (formatName adapter)) (Name chosen)) w
            in (StreamAnswer (StatusCode resp) header written, outcome, u))
         else if crossing then
           (let (outcome, answer) = relayCrossing (pe_response env (fr_format res) inFormat) w (holdLimit res) chosen resp
            in (answer, outcome, pe_usage env serving (rw_pieces w)))
         else
           (let (outcome, truncated) = relayJSON w
            in (JSONAnswer (StatusCode resp) header truncated, outcome, pe_usage env serving (rw_pieces w))))"

text \<open>\<open>None\<close> is a nil dereference: a result without a response, or a 2xx without a provider.\<close>

definition writeWalkResult ::
  "proxyEnv \<Rightarrow> relayWorld \<Rightarrow> forwardResult \<Rightarrow> providerAdapter \<Rightarrow> string \<Rightarrow> string \<Rightarrow> string \<Rightarrow> string \<Rightarrow> debit \<Rightarrow> proxy
    \<Rightarrow> (proxy \<times> proxyResponse) option" where
  "writeWalkResult env w res adapter inFormat namespace workload modelID d px =
     (case fr_resp res of
        None \<Rightarrow> None
      | Some resp \<Rightarrow>
          let modelID = (if fr_model res \<noteq> [] then fr_model res else modelID);
              crossing = (fr_format res \<noteq> [] \<and> inFormat \<noteq> [] \<and> fr_format res \<noteq> inFormat);
              count = (\<lambda>outcome. px_log [llmRequestMetric (fr_provider res) modelID namespace outcome])
          in if \<not> is2xx resp then
               (let body = (if crossing then pe_error env (fr_format res) inFormat (fr_body res) else fr_body res);
                    header = copyDownstreamHeaders [] (resp_Header resp);
                    header = (if crossing \<or> int (length (fr_body res)) \<noteq> ContentLength resp
                              then header_Del ''Content-Length'' header else header)
                in Some (count outcomeError (px_settle (fr_settle res) 0 px), VerbatimAnswer (StatusCode resp) header body))
             else case fr_chosen res of
                 None \<Rightarrow> None
               | Some chosen \<Rightarrow>
                   (let (answer, outcome, u) = relay2xx env w res resp chosen adapter inFormat modelID;
                        g = \<lparr>cg_provider = chosen, cg_namespace = namespace, cg_workload = workload, cg_model = modelID,
                             cg_settle = fr_settle res, cg_debit = d\<rparr>
                    in Some (count outcome (settleRelay g u (relay_elapse w px)), answer)))"

datatype bodyRead = BodyTooLarge | BodyErr string | BodyRead string

record llmRequest =
  lr_caller :: caller
  lr_path :: string
  lr_header :: header
  lr_body :: bodyRead

definition errRequestTooLarge :: string where "errRequestTooLarge = ''request_too_large''"
definition errRateLimited :: string where "errRateLimited = ''rate_limited''"

fun scanErrorText :: "scanError \<Rightarrow> string" where
  "scanErrorText (DuplicateField name) = ''request body has more than one '' @ Quote name @ '' field''"
| "scanErrorText StreamNotBoolean = ''stream must be a boolean''"
| "scanErrorText NotObject = ''request body is not valid JSON''"

text \<open>From the request to its adapter, body, routing members, provider and model.\<close>

definition parseLLM ::
  "proxyEnv \<Rightarrow> llmRequest \<Rightarrow> httpError + (providerAdapter \<times> string \<times> requestFields \<times> string \<times> string)" where
  "parseLLM env rq =
     (case adapterForPath (lr_path rq) of
        None \<Rightarrow> Inl (badRequest ''unrecognized path'')
      | Some adapter \<Rightarrow>
          if adapter = vertexAdapter \<and> modelFromPath adapter (lr_path rq) = [] then Inl (badRequest ''unrecognized path'')
          else case lr_body rq of
              BodyTooLarge \<Rightarrow>
                Inl (writeError 413 (plainBody errRequestTooLarge
                       (''request body exceeds '' @ Itoa (pe_maxBody env) @ '' bytes'')) 0)
            | BodyErr err \<Rightarrow> Inl (badRequest (''reading request body: '' @ err))
            | BodyRead body \<Rightarrow>
                if \<not> bo_valid (pe_ops env) body then Inl (badRequest ''request body is not valid JSON'')
                else case bo_scan (pe_ops env) body of
                    Inl err \<Rightarrow> Inl (badRequest (scanErrorText err))
                  | Inr rf \<Rightarrow>
                      let named = modelFromPath adapter (lr_path rq);
                          named = (if named = [] then rf_model rf else named)
                      in case splitQualifiedModel named of
                           None \<Rightarrow> Inl (badRequest (''model must be a qualified '' @ [CHR 0x22] @ ''{providerRef}/{modelId}'' @ [CHR 0x22] @ '' name''))
                         | Some (providerName, modelID) \<Rightarrow> Inr (adapter, body, rf, providerName, modelID))"

definition startWalk ::
  "proxyEnv \<Rightarrow> ModelProvider \<Rightarrow> string \<Rightarrow> string \<Rightarrow> string \<Rightarrow> ticket option \<Rightarrow> string \<Rightarrow> string \<Rightarrow> walk \<Rightarrow> walk" where
  "startWalk env provider namespace workload modelID sfn outBody inFormat st =
     st\<lparr>st_primary := provider, st_namespace := namespace, st_workload := workload, st_modelID := modelID,
        attemptCount := 0, maxDepth := pe_maxDepth env, visited := {}, observed := {}, maxRetryAfter := 0,
        budgetBlocked := False, primarySettle := sfn,
        st_request := (if outBody = [] then None else bo_decode (pe_ops env) outBody),
        inboundFormat := inFormat, modelFor := [(Name provider, modelID)], translated := []\<rparr>"

text \<open>After the walk: the caller left, no provider answered, or there is an answer to relay.\<close>

definition finishWalk ::
  "proxyEnv \<Rightarrow> relayWorld \<Rightarrow> forwardResult \<Rightarrow> bool \<Rightarrow> providerAdapter \<Rightarrow> string \<Rightarrow> string \<Rightarrow> string \<Rightarrow> string \<Rightarrow> string
    \<Rightarrow> debit \<Rightarrow> proxy \<Rightarrow> (proxy \<times> proxyResponse) option" where
  "finishWalk env relay res ok adapter inFormat namespace workload modelID providerName d px =
     (let st = px_walk px
      in if w_ctxErr st \<and> \<not> readsOnAfterCallerLeft res
         then Some (settleCallerLeft res namespace modelID providerName px, NoAnswer)
         else if \<not> ok then
           (let (status, eb, retryAfter) = exhaustionError (observed st) (maxRetryAfter st) (budgetBlocked st) providerName
            in Some (px_log [llmRequestMetric providerName modelID namespace outcomeError] px,
                     ErrorAnswer (writeError status eb retryAfter)))
         else writeWalkResult env relay res adapter inFormat namespace workload modelID d px)"

text \<open>From the admitted request to its answer; \<open>None\<close> is a walk out of fuel or a nil dereference.\<close>

definition serveLLM ::
  "proxyEnv \<Rightarrow> (int \<Rightarrow> attemptWorld) \<Rightarrow> relayWorld \<Rightarrow> llmRequest \<Rightarrow> providerAdapter \<Rightarrow> providerAdapter \<Rightarrow> string
    \<Rightarrow> requestFields \<Rightarrow> ModelProvider \<Rightarrow> string \<Rightarrow> string \<Rightarrow> ticket option \<Rightarrow> proxy \<Rightarrow> (proxy \<times> proxyResponse) option" where
  "serveLLM env world relay rq adapter typeAdapter body rf provider providerName modelID sfn px =
     (let c = lr_caller rq; namespace = cl_Namespace c; workload = workloadKey c;
          d = \<lparr>db_provider = provider, db_namespace = namespace, db_model = modelID\<rparr>;
          outBody = bo_rewrite (pe_ops env) body rf modelID (needsStreamOptions adapter rf);
          px = (case cl_Workload c of
                  Some i \<Rightarrow> if id_Kind i = KindAgent then px_log [MetricCall ''activity'' [namespace, id_Name i]] px else px
                | None \<Rightarrow> px);
          inFormat = (if lr_path rq = ''/v1/completions'' then [] else formatForType (formatName adapter));
          call = \<lparr>lc_header = lr_header rq, lc_path = lr_path rq, lc_body = outBody, lc_adapter = adapter, lc_typeAdapter = typeAdapter\<rparr>
      in case tryWithFallbacks (Suc (nat (pe_maxDepth env))) (pe_server env) (llmAttempt (pe_ops env) world call) provider
                (startWalk env provider namespace workload modelID sfn outBody inFormat (px_walk px)) of
           None \<Rightarrow> None
         | Some (st, res, ok) \<Rightarrow>
             finishWalk env relay res ok adapter inFormat namespace workload modelID providerName d (px\<lparr>px_walk := st\<rparr>))"

text \<open>
  The handler. Every return after the admission runs the deferred settle of the primary's slot
  at no cost, which does nothing where the slot has been settled.
\<close>

definition limitAndServe ::
  "proxyEnv \<Rightarrow> (int \<Rightarrow> attemptWorld) \<Rightarrow> relayWorld \<Rightarrow> llmRequest \<Rightarrow> providerAdapter \<Rightarrow> providerAdapter \<Rightarrow> string
    \<Rightarrow> requestFields \<Rightarrow> ModelProvider \<Rightarrow> string \<Rightarrow> string \<Rightarrow> ticket option \<Rightarrow> proxy \<Rightarrow> (proxy \<times> proxyResponse) option" where
  "limitAndServe env world relay rq adapter typeAdapter body rf provider providerName modelID sfn px =
     (let namespace = cl_Namespace (lr_caller rq);
          (bs, allowed, retryAfter) = Allow (w_now (px_walk px)) (px_replicas px) provider namespace modelID (px_buckets px);
          px = px\<lparr>px_buckets := bs\<rparr>
      in if \<not> allowed then
           Some (px_settle sfn 0 (px_log [llmRequestMetric providerName modelID namespace ''rate_limited''] px),
             ErrorAnswer (writeError 429 (providerBody errRateLimited providerName True
               (''rate limit exceeded for namespace '' @ namespace @ '' on model '' @ modelID)) retryAfter))
         else
           (case serveLLM env world relay rq adapter typeAdapter body rf provider providerName modelID sfn px of
              None \<Rightarrow> None
            | Some (px, answer) \<Rightarrow> Some (px_settle sfn 0 px, answer)))"

definition handleLLMProxy ::
  "proxyEnv \<Rightarrow> (int \<Rightarrow> attemptWorld) \<Rightarrow> relayWorld \<Rightarrow> llmRequest \<Rightarrow> proxy \<Rightarrow> (proxy \<times> proxyResponse) option" where
  "handleLLMProxy env world relay rq px =
     (case parseLLM env rq of
        Inl e \<Rightarrow> Some (px, ErrorAnswer e)
      | Inr (adapter, body, rf, providerName, modelID) \<Rightarrow>
          (case authorizeRoute (srv_Store (pe_server env)) (lr_caller rq) providerName modelID of
             Inl denial \<Rightarrow>
               Some (px, ErrorAnswer (writeError (rd_status denial)
                 (providerBody (rd_errType denial) providerName False (rd_message denial)) 0))
           | Inr provider \<Rightarrow>
               (case adapterForProviderType (Type (Spec provider)) of
                  None \<Rightarrow>
                    Some (px, ErrorAnswer (writeError 400 (providerBody errInvalidRequest providerName False
                      (''provider type '' @ Quote (Type (Spec provider)) @ '' is not supported by this gateway build'')) 0))
                | Some typeAdapter \<Rightarrow>
                    let namespace = cl_Namespace (lr_caller rq); st = px_walk px;
                        (b, d, sfn) = Admit (w_now st) (w_replicas st) provider namespace (workloadKey (lr_caller rq)) (w_ledger st);
                        (cs, decided) = applyBudgetDecision d (sfn \<noteq> None) providerName namespace modelID;
                        px = px_log (AdmitCall provider sfn # cs) (px\<lparr>px_walk := st\<lparr>w_ledger := b\<rparr>\<rparr>)
                    in case decided of
                         Inl e \<Rightarrow> Some (px_settle sfn 0 px, ErrorAnswer e)
                       | Inr modelID \<Rightarrow>
                           limitAndServe env world relay rq adapter typeAdapter body rf provider providerName modelID sfn px)))"

subsection \<open>What a request holds and charges\<close>

text \<open>
  The slots of a request so far: \<open>held\<close> are the tickets it was granted and has not settled; every
  settle was of another ticket; no ticket was held while another provider was called.
\<close>

definition slots :: "ticket list \<Rightarrow> walk \<Rightarrow> bool" where
  "slots held st \<longleftrightarrow> held_after [] (w_calls st) = held \<and> exclusive [] (w_calls st)
     \<and> w_settled st = rev (settles (w_calls st)) \<and> distinct (settles (w_calls st))"

abbreviation px_slots :: "ticket list \<Rightarrow> proxy \<Rightarrow> bool" where
  "px_slots held px \<equiv> slots held (px_walk px)"

abbreviation px_charges :: "proxy \<Rightarrow> (string \<times> usd) list" where
  "px_charges px \<equiv> charges (w_calls (px_walk px))"

lemma slots_quiet:
  assumes "w_calls st' = w_calls st @ cs" "w_settled st' = w_settled st" "\<forall>c \<in> set cs. quiet_call c"
  shows "slots held st' = slots held st" "charges (w_calls st') = charges (w_calls st)"
  using assms quiet_calls [OF assms(3)] by (simp_all add: slots_def walk_simps)

lemma px_log_slots:
  assumes "\<forall>c \<in> set cs. quiet_call c"
  shows "px_slots held (px_log cs px) = px_slots held px" "px_charges (px_log cs px) = px_charges px"
  using slots_quiet [OF _ _ assms, of "px_walk (px_log cs px)" "px_walk px"] by (simp_all add: px_log_def)

lemma px_settle_slots:
  assumes "px_slots held px"
  shows "px_slots (filter (\<lambda>tk. sfn \<noteq> Some tk \<or> tk \<in> set (w_settled (px_walk px))) held) (px_settle sfn cost px)"
    "w_settled (px_walk (px_settle sfn cost px)) = (case sfn of None \<Rightarrow> w_settled (px_walk px)
       | Some tk \<Rightarrow> if tk \<in> set (w_settled (px_walk px)) then w_settled (px_walk px) else tk # w_settled (px_walk px))"
    "px_charges (px_settle sfn cost px) = px_charges px @
       (case sfn of Some tk \<Rightarrow> if tk \<in> set (w_settled (px_walk px)) \<or> cost = 0 then [] else [(tk_name tk, cost)] | None \<Rightarrow> [])"
proof -
  show "px_slots (filter (\<lambda>tk. sfn \<noteq> Some tk \<or> tk \<in> set (w_settled (px_walk px))) held) (px_settle sfn cost px)"
  proof (cases sfn)
    case None
    then show ?thesis using assms by (simp add: px_settle_def)
  next
    case (Some tk)
    show ?thesis
    proof (cases "tk \<in> set (w_settled (px_walk px))")
      case True
      then have "filter (\<lambda>t. sfn \<noteq> Some t \<or> t \<in> set (w_settled (px_walk px))) held = held"
        using Some by (intro filter_True) auto
      then show ?thesis using assms True Some by (simp add: px_settle_def callSettle_def)
    next
      case False
      then have "filter (\<lambda>t. sfn \<noteq> Some t \<or> t \<in> set (w_settled (px_walk px))) held = removeAll tk held"
        unfolding removeAll_filter_not_eq using Some by (intro filter_cong) auto
      then show ?thesis
        using assms False Some
        by (simp add: px_settle_def callSettle_def slots_def log_call_def walk_simps) (simp add: held_after_def)
    qed
  qed
  show "w_settled (px_walk (px_settle sfn cost px)) = (case sfn of None \<Rightarrow> w_settled (px_walk px)
       | Some tk \<Rightarrow> if tk \<in> set (w_settled (px_walk px)) then w_settled (px_walk px) else tk # w_settled (px_walk px))"
    by (simp add: px_settle_def callSettle_def log_call_def split: option.split)
  show "px_charges (px_settle sfn cost px) = px_charges px @
       (case sfn of Some tk \<Rightarrow> if tk \<in> set (w_settled (px_walk px)) \<or> cost = 0 then [] else [(tk_name tk, cost)] | None \<Rightarrow> [])"
    by (simp add: px_settle_def callSettle_def log_call_def walk_simps split: option.split)
qed

lemma px_add_slots:
  "px_slots held (px_add p ns wl cost px) = px_slots held px"
  "px_charges (px_add p ns wl cost px) = px_charges px @ (if cost = 0 then [] else [(Name p, cost)])"
  by (simp_all add: px_add_def px_log_def slots_def walk_simps) (simp add: held_after_def)

text \<open>Settling a relay: the open ticket of the charge is settled, and the cost lands once.\<close>

lemma settleRelay_slots:
  assumes "px_slots (tickets (cg_settle g)) px" "set (tickets (cg_settle g)) \<inter> set (w_settled (px_walk px)) = {}"
    and "\<And>tk. cg_settle g = Some tk \<Longrightarrow> tk_name tk = Name (cg_provider g)"
  shows "px_slots [] (settleRelay g u px)"
    "px_charges (settleRelay g u px) = px_charges px
       @ (if isZero u \<or> charge_cost g u = 0 then [] else [(Name (cg_provider g), charge_cost g u)])"
proof -
  have gone: "filter (\<lambda>tk. cg_settle g \<noteq> Some tk \<or> tk \<in> set (w_settled (px_walk px))) (tickets (cg_settle g)) = []"
    using assms(2) by (cases "cg_settle g") auto
  have freed: "px_slots [] (px_settle (cg_settle g) c x)" "px_charges (px_settle (cg_settle g) c x) = px_charges px
      @ (if cg_settle g = None \<or> c = 0 then [] else [(Name (cg_provider g), c)])"
    if "px_slots (tickets (cg_settle g)) x" "w_settled (px_walk x) = w_settled (px_walk px)" "px_charges x = px_charges px" for x c
    using px_settle_slots [OF that(1), of "cg_settle g" c] gone assms(2,3) that(2,3)
    by (auto split: option.splits)
  have "px_slots [] (settleRelay g u px) \<and> px_charges (settleRelay g u px) = px_charges px
       @ (if isZero u \<or> charge_cost g u = 0 then [] else [(Name (cg_provider g), charge_cost g u)])"
  proof (cases "isZero u")
    case True
    let ?x = "usageMissing (Name (cg_provider g)) (cg_model g) px"
    have "px_slots (tickets (cg_settle g)) ?x" "px_charges ?x = px_charges px" "w_settled (px_walk ?x) = w_settled (px_walk px)"
      using px_log_slots assms(1) by (simp_all add: usageMissing_def quiet_call_def) (simp add: px_log_def)
    note freed [OF this(1,3,2), of 0]
    then show ?thesis
      using True by (simp add: settleRelay_def)
  next
    case False
    define x where "x = (debitTokens (cg_debit g) u px)\<lparr>px_spend := spend_Record (cg_namespace g) (Name (cg_provider g)) (cg_model g) u
      (px_spend (debitTokens (cg_debit g) u px))\<rparr>"
    define y where "y = (if cg_settle g \<noteq> None then px_settle (cg_settle g) (charge_cost g u) x
      else px_add (cg_provider g) (cg_namespace g) (cg_workload g) (charge_cost g u) x)"
    have x: "px_walk x = px_walk px" by (simp add: x_def debitTokens_def)
    have y: "px_slots [] y" "px_charges y = px_charges px
      @ (if charge_cost g u = 0 then [] else [(Name (cg_provider g), charge_cost g u)])"
      using freed [of x "charge_cost g u"] px_add_slots assms(1) x by (auto simp: y_def)
    define cs where "cs = [MetricCall ''tokens'' [Name (cg_provider g), cg_model g, cg_namespace g],
        MetricCall ''spend'' [Name (cg_provider g), cg_namespace g]]
      @ map (\<lambda>(tool, count). MetricCall ''server_tool_use'' [Name (cg_provider g), cg_namespace g, tool]) (ServerTools u)"
    have "settleRelay g u px = px_log cs y"
      using False by (simp add: settleRelay_def settleUsage_def y_def x_def cs_def Let_def)
    moreover have "\<forall>c \<in> set cs. quiet_call c" by (auto simp: cs_def quiet_call_def)
    ultimately show ?thesis
      using px_log_slots [of cs] y False by simp
  qed
  then show "px_slots [] (settleRelay g u px)"
    "px_charges (settleRelay g u px) = px_charges px
       @ (if isZero u \<or> charge_cost g u = 0 then [] else [(Name (cg_provider g), charge_cost g u)])"
    by auto
qed

text \<open>None of this calls a provider.\<close>

abbreviation px_attempts :: "proxy \<Rightarrow> (ModelProvider \<times> string) list" where
  "px_attempts px \<equiv> attempts (w_calls (px_walk px))"

named_theorems attempts_simps

lemma px_log_attempts [attempts_simps]: "\<forall>c \<in> set cs. quiet_call c \<Longrightarrow> px_attempts (px_log cs px) = px_attempts px"
  by (simp add: px_log_def walk_simps quiet_calls)

lemma px_settle_attempts [attempts_simps]: "px_attempts (px_settle sfn cost px) = px_attempts px"
  by (simp add: px_settle_def callSettle_def log_call_def walk_simps split: option.split)

lemma px_add_attempts [attempts_simps]: "px_attempts (px_add p ns wl cost px) = px_attempts px"
  by (simp add: px_add_def px_log_def walk_simps)

lemma settleRelay_attempts [attempts_simps]: "px_attempts (settleRelay g u px) = px_attempts px"
proof -
  have "\<forall>c \<in> set (map (\<lambda>(tool, count). MetricCall s [a, b, tool]) xs). quiet_call c" for s a b and xs :: "(string, int) gomap"
    by (auto simp: quiet_call_def)
  then show ?thesis
    by (simp add: settleRelay_def settleUsage_def usageMissing_def debitTokens_def attempts_simps quiet_call_def Let_def)
qed

lemma relay_elapse_same: "px_slots held (relay_elapse w px) = px_slots held px" "px_charges (relay_elapse w px) = px_charges px"
  "px_attempts (relay_elapse w px) = px_attempts px" "w_settled (px_walk (relay_elapse w px)) = w_settled (px_walk px)"
  by (simp_all add: relay_elapse_def slots_def)

lemma metric_quiet: "\<forall>c \<in> set [llmRequestMetric a b c d]. quiet_call c"
  by (simp add: llmRequestMetric_def quiet_call_def)

lemma settleCallerLeft_slots:
  assumes "px_slots held px"
  shows "px_slots (filter (\<lambda>tk. fr_settle res \<noteq> Some tk \<or> tk \<in> set (w_settled (px_walk px))) held) (settleCallerLeft res ns m a px)"
    "px_charges (settleCallerLeft res ns m a px) = px_charges px" "px_attempts (settleCallerLeft res ns m a px) = px_attempts px"
    "set (w_settled (px_walk (settleCallerLeft res ns m a px))) \<subseteq> set (w_settled (px_walk px)) \<union> set (tickets (fr_settle res))"
proof -
  obtain cs n ms where c: "settleCallerLeft res ns m a px = px_log [llmRequestMetric n ms ns outcomeClientClosed] (px_settle (fr_settle res) 0 (px_log cs px))"
    "\<forall>c \<in> set cs. quiet_call c"
  proof (cases "case fr_resp res of None \<Rightarrow> False | Some resp \<Rightarrow> is2xx resp")
    case True
    then show thesis
      by (intro that [of "if fr_provider res \<noteq> [] then fr_provider res else a" "if fr_model res \<noteq> [] then fr_model res else m"
            "[MetricCall ''usage_missing'' [if fr_provider res \<noteq> [] then fr_provider res else a, if fr_model res \<noteq> [] then fr_model res else m]]"])
        (auto simp: settleCallerLeft_def usageMissing_def quiet_call_def Let_def split: option.splits)
  next
    case False
    then show thesis
      by (intro that [of "if fr_provider res \<noteq> [] then fr_provider res else a" "if fr_model res \<noteq> [] then fr_model res else m" "[]"])
        (auto simp: settleCallerLeft_def px_log_def Let_def split: option.splits)
  qed
  have w: "w_settled (px_walk (px_log x y)) = w_settled (px_walk y)" for x y by (simp add: px_log_def)
  note s = px_settle_slots [OF px_log_slots(1) [OF c(2), of held px, THEN iffD2, OF assms], of "fr_settle res" 0]
  show "px_slots (filter (\<lambda>tk. fr_settle res \<noteq> Some tk \<or> tk \<in> set (w_settled (px_walk px))) held) (settleCallerLeft res ns m a px)"
    "px_charges (settleCallerLeft res ns m a px) = px_charges px"
    using s c px_log_slots [OF metric_quiet] px_log_slots(2) [OF c(2)] by (simp_all add: w split: option.split)
  show "px_attempts (settleCallerLeft res ns m a px) = px_attempts px"
    using c metric_quiet by (simp add: attempts_simps)
  show "set (w_settled (px_walk (settleCallerLeft res ns m a px))) \<subseteq> set (w_settled (px_walk px)) \<union> set (tickets (fr_settle res))"
    using s(2) c(1) by (auto simp: w split: option.splits if_splits)
qed

text \<open>The answer of a walk is written, and what it cost is charged to the provider that served.\<close>

definition charged_to :: "forwardResult \<Rightarrow> (string \<times> usd) list \<Rightarrow> bool" where
  "charged_to res cs \<longleftrightarrow> cs = []
     \<or> (\<exists>q m u. fr_chosen res = Some q \<and> (fr_model res \<noteq> [] \<longrightarrow> m = fr_model res) \<and> cs = [(Name q, costOf q m u)])"

lemma writeWalkResult_slots:
  assumes "px_slots (tickets (fr_settle res)) px" "set (tickets (fr_settle res)) \<inter> set (w_settled (px_walk px)) = {}"
    and "fr_resp res \<noteq> None" "fr_chosen res = Some q" "\<And>tk. fr_settle res = Some tk \<Longrightarrow> tk_name tk = Name q"
  obtains px' answer cs where "writeWalkResult env w res adapter fmt ns wl m d px = Some (px', answer)"
    "px_slots [] px'" "px_charges px' = px_charges px @ cs" "charged_to res cs" "px_attempts px' = px_attempts px"
proof -
  obtain resp where resp: "fr_resp res = Some resp" using assms(3) by blast
  define md where "md = (if fr_model res \<noteq> [] then fr_model res else m)"
  show thesis
  proof (cases "is2xx resp")
    case False
    have gone: "filter (\<lambda>tk. fr_settle res \<noteq> Some tk \<or> tk \<in> set (w_settled (px_walk px))) (tickets (fr_settle res)) = []"
      using assms(2) by (cases "fr_settle res") auto
    obtain h b where "writeWalkResult env w res adapter fmt ns wl m d px
        = Some (px_log [llmRequestMetric (fr_provider res) md ns outcomeError] (px_settle (fr_settle res) 0 px), VerbatimAnswer (StatusCode resp) h b)"
      using resp False by (auto simp: writeWalkResult_def Let_def md_def)
    then show thesis
      using that [of _ _ "[]"] px_settle_slots [OF assms(1), of "fr_settle res" 0] gone px_log_slots [OF metric_quiet] metric_quiet
      by (simp add: charged_to_def attempts_simps split: option.splits)
  next
    case True
    obtain ans out u where r: "relay2xx env w res resp q adapter fmt md = (ans, out, u)" by (metis surj_pair)
    define g where "g = \<lparr>cg_provider = q, cg_namespace = ns, cg_workload = wl, cg_model = md, cg_settle = fr_settle res, cg_debit = d\<rparr>"
    have "writeWalkResult env w res adapter fmt ns wl m d px
        = Some (px_log [llmRequestMetric (fr_provider res) md ns out] (settleRelay g u (relay_elapse w px)), ans)"
      using resp True assms(4) r by (simp add: writeWalkResult_def Let_def md_def g_def)
    moreover have s: "px_slots [] (settleRelay g u (relay_elapse w px))"
      "px_charges (settleRelay g u (relay_elapse w px)) = px_charges px
         @ (if isZero u \<or> charge_cost g u = 0 then [] else [(Name q, charge_cost g u)])"
      using settleRelay_slots [of g "relay_elapse w px" u] assms(1,2,5) by (simp_all add: relay_elapse_same g_def)
    moreover have "charged_to res (if isZero u \<or> charge_cost g u = 0 then [] else [(Name q, charge_cost g u)])"
      using assms(4) by (auto simp: charged_to_def charge_cost_def g_def md_def)
    ultimately show thesis
      using that px_log_slots [OF metric_quiet] metric_quiet by (simp add: attempts_simps relay_elapse_same)
  qed
qed

text \<open>
  A request that has been served: the providers it called are eligible, distinct and no more than
  the depth, and what it was charged is one cost of one of them.
\<close>

definition called_ok :: "proxyEnv \<Rightarrow> ModelProvider \<Rightarrow> string \<Rightarrow> (ModelProvider \<times> string) list \<Rightarrow> bool" where
  "called_ok env provider ns as \<longleftrightarrow> distinct (map (\<lambda>a. Name (fst a)) as)
     \<and> int (length as) \<le> max 0 (pe_maxDepth env)
     \<and> (\<exists>format. \<forall>a \<in> set as. eligible (pe_server env) provider ns format (fst a) (snd a))"

definition charge_ok :: "(ModelProvider \<times> string) list \<Rightarrow> (string \<times> usd) list \<Rightarrow> bool" where
  "charge_ok as cs \<longleftrightarrow> cs = []
     \<or> (\<exists>q m m' u. (q, m) \<in> set as \<and> (m \<noteq> [] \<longrightarrow> m' = m) \<and> cs = [(Name q, costOf q m' u)])"

lemma walk_slots:
  assumes "slots held st" "walked s held st st' held'" "walk_ok st'"
  shows "slots held' st'"
  using assms by (auto simp: slots_def walked_def walk_ok_def walk_simps)

lemma walk_called:
  assumes "walked s held st st' held'" "walk_ok st'" "contacted st = []" "attemptCount st = 0" "maxDepth st = pe_maxDepth env"
    "st_primary st = provider" "st_namespace st = ns" "s = pe_server env"
  shows "called_ok env provider ns (attempts (w_calls st'))"
proof -
  obtain cs where cs: "w_calls st' = w_calls st @ cs" "kept st st'"
    "\<forall>a \<in> set (attempts cs). eligible s (st_primary st) (st_namespace st) (inboundFormat st) (fst a) (snd a)"
    using assms(1) by (auto simp: walked_def)
  have "attempts (w_calls st') = attempts cs"
    using assms(3) cs(1) by (simp add: contacted_def walk_simps)
  moreover have "int (length (contacted st')) \<le> max 0 (maxDepth st)"
    using keptD(7) [OF cs(2)] assms(2,4) by (simp add: walk_ok_def)
  ultimately show ?thesis
    using assms(2,5-8) cs(3) by (auto simp: called_ok_def walk_ok_def contacted_def)
qed

lemma charged_to_contacted:
  assumes "charged_to res cs" "sound_result st res"
  shows "charge_ok (attempts (w_calls st)) cs"
  using assms unfolding charged_to_def sound_result_def charge_ok_def by metis

text \<open>
  The rows of the error table: status, \<^verbatim>\<open>error.type\<close>, \<^verbatim>\<open>retryable\<close> and whether
  there is a \<^verbatim>\<open>Retry-After\<close>. What is relayed of a provider's answer keeps its status, which
  is none the walk falls back on.
\<close>

definition error_rows :: "(int \<times> string \<times> bool \<times> bool) set" where
  "error_rows = {(400, errInvalidRequest, False, False), (403, errAccessDenied, False, False),
     (413, errRequestTooLarge, False, False), (429, errRateLimited, True, True), (429, errBudgetExhausted, False, True),
     (429, errBudgetThrottled, True, True), (502, errProviderError, False, False), (503, errProviderUnavailable, False, False),
     (503, errBudgetUnavailable, True, True), (504, errProviderTimeout, False, False)}"

definition error_row :: "httpError \<Rightarrow> int \<times> string \<times> bool \<times> bool" where
  "error_row e = (he_Status e, eb_Type (he_Body e), eb_Retryable (he_Body e), he_RetryAfter e \<noteq> None)"

fun answer_ok :: "proxyResponse \<Rightarrow> bool" where
  "answer_ok (ErrorAnswer e) \<longleftrightarrow> error_row e \<in> error_rows"
| "answer_ok (JSONAnswer status h truncated) \<longleftrightarrow> status \<ge> 200 \<and> status \<le> 299"
| "answer_ok (StreamAnswer status h lines) \<longleftrightarrow> status \<ge> 200 \<and> status \<le> 299"
| "answer_ok (VerbatimAnswer status h body) \<longleftrightarrow> \<not> fst (isFallbackable status)"
| "answer_ok NoAnswer \<longleftrightarrow> True"

lemmas error_row_defs = error_row_def error_rows_def writeError_def providerBody_def plainBody_def

lemma badRequest_row: "error_row (badRequest msg) \<in> error_rows"
  by (simp add: badRequest_def error_row_defs)

lemma tooLarge_row: "error_row (writeError 413 (plainBody errRequestTooLarge msg) 0) \<in> error_rows"
  by (simp add: error_row_defs)

lemma parseLLM_row: "parseLLM env rq = Inl e \<Longrightarrow> error_row e \<in> error_rows"
  by (auto simp: parseLLM_def Let_def badRequest_row tooLarge_row split: option.splits bodyRead.splits sum.splits if_splits)

lemma authorizeRoute_row:
  assumes "authorizeRoute st c n m = Inl denial"
  shows "error_row (writeError (rd_status denial) (providerBody (rd_errType denial) n False (rd_message denial)) 0) \<in> error_rows"
proof -
  have "\<exists>msg. denial = denied msg \<or> denial = invalid msg"
    using assms by (auto simp: authorizeRoute_def authorizeWorkload_def Let_def split: option.splits if_splits)
  then show ?thesis by (auto simp: denied_def invalid_def error_row_defs)
qed

lemma decide_block_wait:
  assumes "d_Action (decide now budget u) = BudgetActionBlock" "Period budget \<in> schemes"
  shows "0 < d_RetryAfter (decide now budget u)"
proof -
  have "0 < nextPeriodStart (Period budget) now - now" using nextPeriodStart_after [OF assms(2), of now] by simp
  then show ?thesis
    using RetryAfter_block [OF assms(1)] trunc_seconds [of "nextPeriodStart (Period budget) now - now"]
      pos_imp_zdiv_nonneg_iff [OF second_pos, of "nextPeriodStart (Period budget) now - now"] by simp
qed

lemma Admit_block_wait:
  assumes "Admit now reps p ns wl b = (b', d, tk)" "\<not> Unavailable d" "\<not> Throttled d" "d_Action d = BudgetActionBlock"
  shows "0 < d_RetryAfter d"
proof (cases "PeriodKey (period_of p) now = [] \<or> Policies (budget_of p) = []")
  case True
  then show ?thesis using assms by (auto simp: Admit_def Let_def no_decision_def BudgetActionBlock_def)
next
  case False
  then have "(d, tk) = snd (withLedger now (Name p) (UID p) (period_of p)
      (admit_section now reps (stalenessWindow b) p ns wl) b)"
    using assms(1) by (simp add: Admit_def Let_def)
  then obtain l where "(d, tk) = snd (admit_section now reps (stalenessWindow b) p ns wl l)"
    by (auto simp: withLedger_def Let_def split: prod.splits) (metis snd_conv)
  then obtain u where "d = decide now (budget_of p) u"
    using assms(2-4) by (auto simp: admit_section_def Let_def split: if_splits)
  then show ?thesis using decide_block_wait assms(4) False by (auto simp: PeriodKey_empty_iff)
qed

lemma applyBudgetDecision_row:
  assumes "applyBudgetDecision d engaged p ns m = (cs, Inl e)" "Admit now reps prov ns wl b = (b', d, tk)"
  shows "error_row e \<in> error_rows"
proof -
  consider "Unavailable d" | "\<not> Unavailable d" "Throttled d" | "\<not> Unavailable d" "\<not> Throttled d" "d_Action d = BudgetActionBlock"
    using assms(1) unfolding applyBudgetDecision_def Let_def by (auto split: if_splits)
  then obtain msg ra where "e = writeError 503 (providerBody errBudgetUnavailable p True msg) 1
      \<or> e = writeError 429 (providerBody errBudgetThrottled p True msg) 1
      \<or> e = writeError 429 (providerBody errBudgetExhausted p False msg) ra \<and> 0 < ra"
  proof cases
    case 1
    then show thesis using assms(1) that unfolding applyBudgetDecision_def Let_def by simp metis
  next
    case 2
    then show thesis using assms(1) that unfolding applyBudgetDecision_def Let_def by simp metis
  next
    case 3
    then show thesis using assms(1) that Admit_block_wait [OF assms(2)] unfolding applyBudgetDecision_def Let_def by simp metis
  qed
  then show ?thesis by (elim disjE conjE) (simp_all add: error_row_defs)
qed

lemma Allow_wait: "Allow now n p ns m bs = (bs', False, secs) \<Longrightarrow> 1 \<le> secs"
  by (auto simp: Allow_def Let_def retryAfterSeconds_def split: if_splits prod.splits option.splits)

lemma exhaustion_cases:
  assumes "obs = {} \<or> obs \<inter> {classConnect, classTimeout, classUpstream} \<noteq> {}" "exhaustionError obs ra blocked n = (status, eb, retryAfter)"
  shows "(status, eb_Type eb) \<in> {(503, errProviderUnavailable), (504, errProviderTimeout), (502, errProviderError)}
    \<and> \<not> eb_Retryable eb \<and> retryAfter = 0"
proof -
  have "(obs \<noteq> {} \<and> (\<forall>class \<in> obs. \<not> (class \<noteq> classBudget \<and> class \<noteq> classBudgetUnavailable))) = False"
    using assms(1) by auto
  note ex = assms(2) [unfolded exhaustionError_def Let_def this simp_thms if_False]
  consider "obs = {classConnect}" | "obs \<noteq> {classConnect}" "obs = {classTimeout}" | "obs \<noteq> {classConnect}" "obs \<noteq> {classTimeout}" by blast
  then show ?thesis
  proof cases
    case 1
    then show ?thesis using ex unfolding if_P [OF 1] providerBody_def by auto
  next
    case 2
    then show ?thesis using ex unfolding if_not_P [OF 2(1)] if_P [OF 2(2)] providerBody_def by auto
  next
    case 3
    then show ?thesis using ex unfolding if_not_P [OF 3(1)] if_not_P [OF 3(2)] providerBody_def by auto
  qed
qed

lemma exhaustion_row:
  assumes "obs = {} \<or> obs \<inter> {classConnect, classTimeout, classUpstream} \<noteq> {}" "exhaustionError obs ra blocked n = (status, eb, retryAfter)"
  shows "error_row (writeError status eb retryAfter) \<in> error_rows"
  using exhaustion_cases [OF assms] by (auto simp: error_row_def error_rows_def writeError_def)

lemma relayCrossing_ok: "relayCrossing tr w limit p resp = (outcome, answer) \<Longrightarrow> is2xx resp \<Longrightarrow> answer_ok answer"
  using isFallbackable_2xx [of "StatusCode resp"]
  by (auto simp: relayCrossing_def Let_def streamErrorType_def error_row_defs is2xx_def split: if_splits option.splits sum.splits)

lemma relay2xx_ok:
  assumes "relay2xx env w res resp q adapter fmt md = (answer, outcome, u)" "is2xx resp"
  shows "answer_ok answer"
  using assms relayCrossing_ok by (auto simp: relay2xx_def Let_def is2xx_def split: if_splits prod.splits)

lemma writeWalkResult_ok:
  assumes "writeWalkResult env w res adapter fmt ns wl m d px = Some (px', answer)"
    and "\<And>resp. fr_resp res = Some resp \<Longrightarrow> \<not> fst (isFallbackable (StatusCode resp))"
  shows "answer_ok answer"
  using assms relay2xx_ok by (auto simp: writeWalkResult_def Let_def split: option.splits if_splits prod.splits)

lemma finishWalk_slots:
  assumes px: "px_slots h px" "px_charges px = []" "called_ok env provider ns (px_attempts px)" "px_walk px = st"
    and h: "h = (if ok then tickets (fr_settle res) else []) \<or> \<not> ok \<and> h = tickets sfn \<and> w_settled st = []"
    and sound: "ok \<longrightarrow> sound_result st res"
    and exhausted: "\<not> ok \<Longrightarrow> observed st = {} \<or> observed st \<inter> {classConnect, classTimeout, classUpstream} \<noteq> {}"
  obtains px' answer held where
    "finishWalk env relay res ok adapter inFormat ns wl modelID providerName d px = Some (px', answer)"
    "px_slots held px'" "held = [] \<or> held = tickets sfn \<and> set held \<inter> set (w_settled (px_walk px')) = {}"
    "called_ok env provider ns (px_attempts px')" "charge_ok (px_attempts px') (px_charges px')" "answer_ok answer"
proof -
  note finish = finishWalk_def [of env relay res ok adapter inFormat ns wl modelID providerName d px, unfolded px(4) Let_def]
  show thesis
  proof (cases "w_ctxErr st \<and> \<not> readsOnAfterCallerLeft res")
    case True
    let ?px = "settleCallerLeft res ns modelID providerName px"
    let ?held = "filter (\<lambda>tk. fr_settle res \<noteq> Some tk \<or> tk \<in> set (w_settled st)) h"
    note left = settleCallerLeft_slots [OF px(1), of res ns modelID providerName, unfolded px(4)]
    have "?held = [] \<or> ?held = tickets sfn \<and> set ?held \<inter> set (w_settled (px_walk ?px)) = {}"
    proof (cases ok)
      case True
      then have "?held = []" using h sound by (cases "fr_settle res") (auto simp: sound_result_def)
      then show ?thesis ..
    next
      case False
      then show ?thesis using h left(4) by (cases sfn; cases "fr_settle res") auto
    qed
    then show thesis using that finish True left px(2-4) by (simp add: charge_ok_def)
  next
    case False
    show thesis
    proof (cases ok)
      case True
      have final: "\<exists>resp. fr_resp res = Some resp \<and> \<not> fst (isFallbackable (StatusCode resp))"
        using sound False True isFallbackable_2xx
        by (auto simp: sound_result_def readsOnAfterCallerLeft_def is2xx_def split: option.splits)
      then obtain q where q: "fr_resp res \<noteq> None" "fr_chosen res = Some q" "\<And>tk. fr_settle res = Some tk \<Longrightarrow> tk_name tk = Name q"
        "set (tickets (fr_settle res)) \<inter> set (w_settled st) = {}"
        using sound True by (auto simp: sound_result_def)
      have "px_slots (tickets (fr_settle res)) px" using px(1) h True by simp
      from writeWalkResult_slots [OF this _ q(1-3), of env relay adapter inFormat ns wl modelID d] q(4)
      obtain px' answer cs where x: "writeWalkResult env relay res adapter inFormat ns wl modelID d px = Some (px', answer)"
        "px_slots [] px'" "px_charges px' = px_charges px @ cs" "charged_to res cs" "px_attempts px' = px_attempts px"
        unfolding px(4) by metis
      have "charge_ok (px_attempts px') (px_charges px')"
        using charged_to_contacted [OF x(4)] sound True x(3,5) px(2,4) by simp
      then show thesis using that [of px' answer "[]"] finish False True x px(3) writeWalkResult_ok [OF x(1)] final by auto
    next
      case notok: False
      obtain status eb retryAfter where e: "exhaustionError (observed st) (maxRetryAfter st) (budgetBlocked st) providerName = (status, eb, retryAfter)"
        by (metis surj_pair)
      moreover have "answer_ok (ErrorAnswer (writeError status eb retryAfter))" using exhaustion_row [OF exhausted [OF notok] e] by simp
      moreover have "h = [] \<or> h = tickets sfn \<and> set h \<inter> set (w_settled st) = {}" using h notok by auto
      moreover have "w_settled (px_walk (px_log cs px)) = w_settled st" for cs by (simp add: px_log_def px(4))
      ultimately show thesis
        using that finish False notok px(1-3) px_log_slots [OF metric_quiet] metric_quiet
        by (simp add: attempts_simps charge_ok_def)
    qed
  qed
qed

lemma serveLLM_slots:
  assumes start: "px_slots (tickets sfn) px" "w_settled (px_walk px) = []" "px_attempts px = []" "px_charges px = []"
    and ticket: "\<And>tk. sfn = Some tk \<Longrightarrow> srv_Budget (pe_server env) \<and> tk_name tk = Name provider"
  obtains px' answer held where
    "serveLLM env world relay rq adapter typeAdapter body rf provider providerName modelID sfn px = Some (px', answer)"
    "px_slots held px'" "held = [] \<or> held = tickets sfn \<and> set held \<inter> set (w_settled (px_walk px')) = {}"
    "called_ok env provider (cl_Namespace (lr_caller rq)) (px_attempts px')"
    "charge_ok (px_attempts px') (px_charges px')" "answer_ok answer"
proof -
  define ns where "ns = cl_Namespace (lr_caller rq)"
  define wl where "wl = workloadKey (lr_caller rq)"
  define d where "d = \<lparr>db_provider = provider, db_namespace = ns, db_model = modelID\<rparr>"
  define outBody where "outBody = bo_rewrite (pe_ops env) body rf modelID (needsStreamOptions adapter rf)"
  define px1 where "px1 = (case cl_Workload (lr_caller rq) of
      Some i \<Rightarrow> if id_Kind i = KindAgent then px_log [MetricCall ''activity'' [ns, id_Name i]] px else px
    | None \<Rightarrow> px)"
  define inFormat where "inFormat = (if lr_path rq = ''/v1/completions'' then [] else formatForType (formatName adapter))"
  define call where "call = \<lparr>lc_header = lr_header rq, lc_path = lr_path rq, lc_body = outBody, lc_adapter = adapter, lc_typeAdapter = typeAdapter\<rparr>"
  define st0 where "st0 = startWalk env provider ns wl modelID sfn outBody inFormat (px_walk px1)"
  have px1: "px_slots (tickets sfn) px1" "w_settled (px_walk px1) = []" "px_attempts px1 = []" "px_charges px1 = []"
    using start px_log_slots(1) [of "[MetricCall a b]" for a b] px_log_slots(2) [of "[MetricCall a b]" for a b]
    by (auto simp: px1_def attempts_simps quiet_call_def px_log_def walk_simps split: option.splits)
  have st0: "slots (tickets sfn) st0" "contacted st0 = []" "attemptCount st0 = 0" "maxDepth st0 = pe_maxDepth env"
    "st_primary st0 = provider" "st_namespace st0 = ns" "primarySettle st0 = sfn" "started (pe_server env) st0"
    using px1 ticket by (auto simp: st0_def startWalk_def slots_def started_def contacted_def primary_ticket_def)
  obtain st res ok h where w: "tryWithFallbacks (Suc (nat (pe_maxDepth env))) (pe_server env) (llmAttempt (pe_ops env) world call) provider st0 = Some (st, res, ok)"
    "walk_ok st" "walked (pe_server env) (tickets sfn) st0 st h"
    "h = (if ok then tickets (fr_settle res) else []) \<or> \<not> ok \<and> h = tickets sfn \<and> w_settled st = []"
    "ok \<longrightarrow> sound_result st res"
    "\<not> ok \<Longrightarrow> observed st = {} \<or> observed st \<inter> {classConnect, classTimeout, classUpstream} \<noteq> {}"
    using llm.walk_total [OF st0(8), of "nat (pe_maxDepth env)" "pe_ops env" world call] unfolding st0(4,5,7) by (metis order_refl)
  define px2 where "px2 = px1\<lparr>px_walk := st\<rparr>"
  have px2: "px_slots h px2" "px_charges px2 = []" "called_ok env provider ns (px_attempts px2)" "px_walk px2 = st"
    using walk_slots [OF st0(1) w(3,2)] walk_called [OF w(3,2) st0(2-6) refl] w(2) by (simp_all add: px2_def walk_ok_def)
  have "serveLLM env world relay rq adapter typeAdapter body rf provider providerName modelID sfn px =
      finishWalk env relay res ok adapter inFormat ns wl modelID providerName d px2"
    using w(1) unfolding serveLLM_def Let_def ns_def [symmetric] wl_def [symmetric] px1_def [symmetric] outBody_def [symmetric]
      inFormat_def [symmetric] d_def [symmetric] call_def [symmetric] st0_def [symmetric]
    by (simp add: px2_def)
  then show thesis using that finishWalk_slots [OF px2 w(4,5,6)] unfolding ns_def by metis
qed

text \<open>The whole request, on a log that is still empty.\<close>

lemma applyBudgetDecision_quiet:
  assumes "applyBudgetDecision d engaged p ns m = (cs, decided)"
  shows "\<forall>c \<in> set cs. quiet_call c"
  using assms by (auto simp: applyBudgetDecision_def Let_def quiet_call_def split: if_splits)

lemma admitted_slots:
  assumes "w_calls (px_walk px) = []" "w_settled (px_walk px) = []" "\<forall>c \<in> set cs. quiet_call c"
  shows "px_slots (tickets sfn) (px_log (AdmitCall p sfn # cs) px)" "px_attempts (px_log (AdmitCall p sfn # cs) px) = []"
    "px_charges (px_log (AdmitCall p sfn # cs) px) = []" "w_settled (px_walk (px_log (AdmitCall p sfn # cs) px)) = []"
proof -
  have "px_log (AdmitCall p sfn # cs) px = px_log cs (px_log [AdmitCall p sfn] px)" by (simp add: px_log_def)
  moreover have "px_slots (tickets sfn) (px_log [AdmitCall p sfn] px)" "px_charges (px_log [AdmitCall p sfn] px) = []"
    using assms(1,2) by (cases sfn; simp add: slots_def px_log_def held_after_def)+
  moreover have "px_attempts (px_log [AdmitCall p sfn] px) = []" using assms(1) by (simp add: px_log_def)
  ultimately show "px_slots (tickets sfn) (px_log (AdmitCall p sfn # cs) px)" "px_attempts (px_log (AdmitCall p sfn # cs) px) = []"
    "px_charges (px_log (AdmitCall p sfn # cs) px) = []"
    using px_log_slots [OF assms(3)] assms(3) by (simp_all add: attempts_simps)
  show "w_settled (px_walk (px_log (AdmitCall p sfn # cs) px)) = []" using assms(2) by (simp add: px_log_def)
qed

text \<open>The deferred settle closes whatever slot the request still holds.\<close>

lemma deferred_settle:
  assumes "px_slots held px" "held = [] \<or> held = tickets sfn \<and> set held \<inter> set (w_settled (px_walk px)) = {}"
  shows "px_slots [] (px_settle sfn 0 px)" "px_charges (px_settle sfn 0 px) = px_charges px"
    "px_attempts (px_settle sfn 0 px) = px_attempts px"
proof -
  have "filter (\<lambda>tk. sfn \<noteq> Some tk \<or> tk \<in> set (w_settled (px_walk px))) held = []"
    using assms(2) by (cases sfn) auto
  then show "px_slots [] (px_settle sfn 0 px)" using px_settle_slots(1) [OF assms(1), of sfn 0] by simp
  show "px_charges (px_settle sfn 0 px) = px_charges px" "px_attempts (px_settle sfn 0 px) = px_attempts px"
    using px_settle_slots(3) [OF assms(1), of sfn 0] by (simp_all add: attempts_simps split: option.splits)
qed

lemma limitAndServe_slots:
  assumes start: "px_slots (tickets sfn) px" "w_settled (px_walk px) = []" "px_attempts px = []" "px_charges px = []"
    and ticket: "\<And>tk. sfn = Some tk \<Longrightarrow> srv_Budget (pe_server env) \<and> tk_name tk = Name provider"
  obtains px' answer where
    "limitAndServe env world relay rq adapter typeAdapter body rf provider providerName modelID sfn px = Some (px', answer)"
    "px_slots [] px'" "px_attempts px' = [] \<or> called_ok env provider (cl_Namespace (lr_caller rq)) (px_attempts px')"
    "charge_ok (px_attempts px') (px_charges px')" "answer_ok answer"
proof -
  define ns where "ns = cl_Namespace (lr_caller rq)"
  obtain bs allowed retryAfter where L: "Allow (w_now (px_walk px)) (px_replicas px) provider ns modelID (px_buckets px) = (bs, allowed, retryAfter)"
    by (metis surj_pair)
  define px2 where "px2 = px\<lparr>px_buckets := bs\<rparr>"
  have px2: "px_slots (tickets sfn) px2" "px_attempts px2 = []" "px_charges px2 = []" "w_settled (px_walk px2) = []"
    using start by (simp_all add: px2_def)
  note handler = limitAndServe_def [of env world relay rq adapter typeAdapter body rf provider providerName modelID sfn px,
    unfolded Let_def, folded ns_def, unfolded L prod.case, folded px2_def]
  show thesis
  proof (cases allowed)
    case False
    let ?px = "px_log [llmRequestMetric providerName modelID ns ''rate_limited''] px2"
    have "px_slots (tickets sfn) ?px" "px_attempts ?px = []" "px_charges ?px = []" "w_settled (px_walk ?px) = []"
      using px2 px_log_slots [OF metric_quiet] metric_quiet by (simp_all add: attempts_simps) (simp add: px_log_def)
    then show thesis
      using that [of "px_settle sfn 0 ?px"] handler False deferred_settle [of "tickets sfn" ?px sfn] Allow_wait [of "w_now (px_walk px)" "px_replicas px" provider ns modelID "px_buckets px" bs retryAfter] L
      by (simp add: charge_ok_def error_row_defs)
  next
    case True
    obtain px3 answer held where s: "serveLLM env world relay rq adapter typeAdapter body rf provider providerName modelID sfn px2 = Some (px3, answer)"
      "px_slots held px3" "held = [] \<or> held = tickets sfn \<and> set held \<inter> set (w_settled (px_walk px3)) = {}"
      "called_ok env provider (cl_Namespace (lr_caller rq)) (px_attempts px3)" "charge_ok (px_attempts px3) (px_charges px3)"
      "answer_ok answer"
      using serveLLM_slots [OF px2(1,4,2,3) ticket] by metis
    then show thesis
      using that [of "px_settle sfn 0 px3" answer] handler True deferred_settle [OF s(2,3)] by auto
  qed
qed

lemma handled_request:
  assumes "w_calls (px_walk px) = []" "w_settled (px_walk px) = []" "srv_Budget (pe_server env)"
  obtains px' answer where "handleLLMProxy env world relay rq px = Some (px', answer)" "px_slots [] px'"
    "px_attempts px' = [] \<or> (\<exists>provider n m. authorizeRoute (srv_Store (pe_server env)) (lr_caller rq) n m = Inr provider
       \<and> called_ok env provider (cl_Namespace (lr_caller rq)) (px_attempts px'))"
    "charge_ok (px_attempts px') (px_charges px')" "answer_ok answer"
proof (cases "parseLLM env rq")
  case (Inl e)
  then show thesis using that [of px] assms parseLLM_row [OF Inl] by (simp add: handleLLMProxy_def slots_def held_after_def charge_ok_def)
next
  case (Inr parsed)
  obtain adapter body rf providerName modelID where p: "parseLLM env rq = Inr (adapter, body, rf, providerName, modelID)"
    using Inr by (metis surj_pair)
  show thesis
  proof (cases "\<exists>provider typeAdapter. authorizeRoute (srv_Store (pe_server env)) (lr_caller rq) providerName modelID = Inr provider
      \<and> adapterForProviderType (Type (Spec provider)) = Some typeAdapter")
    case False
    then have "\<exists>e. handleLLMProxy env world relay rq px = Some (px, ErrorAnswer e) \<and> error_row e \<in> error_rows"
      by (cases "authorizeRoute (srv_Store (pe_server env)) (lr_caller rq) providerName modelID")
        (auto simp: handleLLMProxy_def p authorizeRoute_row, simp add: error_row_defs)
    then obtain e where "handleLLMProxy env world relay rq px = Some (px, ErrorAnswer e)" "error_row e \<in> error_rows" by blast
    then show thesis using that assms by (simp add: slots_def held_after_def charge_ok_def)
  next
    case True
    then obtain provider typeAdapter where route:
      "authorizeRoute (srv_Store (pe_server env)) (lr_caller rq) providerName modelID = Inr provider"
      "adapterForProviderType (Type (Spec provider)) = Some typeAdapter" by blast
    define ns where "ns = cl_Namespace (lr_caller rq)"
    obtain b d sfn where A: "Admit (w_now (px_walk px)) (w_replicas (px_walk px)) provider ns (workloadKey (lr_caller rq)) (w_ledger (px_walk px)) = (b, d, sfn)"
      by (metis surj_pair)
    obtain cs decided where D: "applyBudgetDecision d (sfn \<noteq> None) providerName ns modelID = (cs, decided)"
      by (metis surj_pair)
    define px1 where "px1 = px_log (AdmitCall provider sfn # cs) (px\<lparr>px_walk := (px_walk px)\<lparr>w_ledger := b\<rparr>\<rparr>)"
    note adm = admitted_slots [OF _ _ applyBudgetDecision_quiet [OF D], where px = "px\<lparr>px_walk := (px_walk px)\<lparr>w_ledger := b\<rparr>\<rparr>" and p = provider and sfn = sfn, folded px1_def]
    have px1: "px_slots (tickets sfn) px1" "px_attempts px1 = []" "px_charges px1 = []" "w_settled (px_walk px1) = []"
      using adm assms(1,2) by simp_all
    have ticket: "srv_Budget (pe_server env) \<and> tk_name tk = Name provider" if "sfn = Some tk" for tk
      using Admit_ticket [OF A] that assms(3) by auto
    note handler = handleLLMProxy_def [of env world relay rq px, unfolded p sum.case prod.case route option.case Let_def, folded ns_def,
      unfolded A prod.case D, folded px1_def]
    show thesis
    proof (cases decided)
      case (Inl e)
      then show thesis
        using that [of "px_settle sfn 0 px1"] handler deferred_settle [OF px1(1), of sfn] px1(2-4) applyBudgetDecision_row [OF D [unfolded Inl] A]
        by (simp add: charge_ok_def)
    next
      case (Inr model)
      from limitAndServe_slots [OF px1(1,4,2,3) ticket] obtain px3 answer where
        "limitAndServe env world relay rq adapter typeAdapter body rf provider providerName model sfn px1 = Some (px3, answer)"
        "px_slots [] px3" "px_attempts px3 = [] \<or> called_ok env provider ns (px_attempts px3)" "charge_ok (px_attempts px3) (px_charges px3)" "answer_ok answer"
        unfolding ns_def by metis
      then show thesis using that [of px3 answer] handler Inr route(1) by (auto simp: ns_def)
    qed
  qed
qed

subsection \<open>The hold of a translated answer\<close>

text \<open>The limit in exact arithmetic, cut at the largest \<^verbatim>\<open>int64\<close>.\<close>

lemma crossingHoldLimit_exact:
  "crossingHoldLimit maxTokens = min MaxInt64 (crossingHoldFloor + crossingHoldBytesPerToken * max maxTokens 0)"
proof -
  have c: "go_div (MaxInt64 - crossingHoldFloor) crossingHoldBytesPerToken = 576460752303357951"
    by (simp add: go_div_def MaxInt64_def crossingHoldFloor_def crossingHoldBytesPerToken_def)
  show ?thesis
  proof (cases "maxTokens > 576460752303357951")
    case True
    then show ?thesis
      unfolding crossingHoldLimit_def c by (simp add: MaxInt64_def crossingHoldFloor_def crossingHoldBytesPerToken_def)
  next
    case False
    then have "wrap64 (max maxTokens 0 * crossingHoldBytesPerToken) = max maxTokens 0 * crossingHoldBytesPerToken"
      "wrap64 (crossingHoldFloor + max maxTokens 0 * crossingHoldBytesPerToken) = crossingHoldFloor + max maxTokens 0 * crossingHoldBytesPerToken"
      by (intro wrap64_id; simp add: crossingHoldFloor_def crossingHoldBytesPerToken_def max_def)+
    then show ?thesis
      using False unfolding crossingHoldLimit_def c
      by (simp add: MaxInt64_def crossingHoldFloor_def crossingHoldBytesPerToken_def max_def)
  qed
qed

lemma hold_overflown: "hb_over h \<Longrightarrow> fold hold_Write pieces h = h"
  by (induction pieces) (simp_all add: hold_Write_def)

lemma hold_fold:
  assumes "\<not> hb_over h" "int (length (hb_buf h)) \<le> hb_limit h"
  shows "fold hold_Write pieces h =
    (if int (length (hb_buf h @ concat pieces)) > hb_limit h then h\<lparr>hb_over := True, hb_buf := []\<rparr>
     else h\<lparr>hb_buf := hb_buf h @ concat pieces\<rparr>)"
  using assms
proof (induction pieces arbitrary: h)
  case (Cons piece pieces)
  show ?case
  proof (cases "int (length (hb_buf h)) + int (length piece) > hb_limit h")
    case True
    then have "hold_Write piece h = h\<lparr>hb_over := True, hb_buf := []\<rparr>" using Cons.prems by (simp add: hold_Write_def)
    then show ?thesis using True by (simp add: hold_overflown)
  next
    case False
    then show ?thesis using Cons.prems Cons.IH [of "h\<lparr>hb_buf := hb_buf h @ piece\<rparr>"] by (simp add: hold_Write_def)
  qed
qed simp

text \<open>
  C37. The hold of an answer of another format keeps what its limit says and no more, at every
  output limit a model or a request can name: the limit is one mebibyte plus sixteen bytes per
  token in exact arithmetic, cut at the largest \<^verbatim>\<open>int64\<close> and never wrapped; however the
  answer is split into reads, it is kept whole if it is no longer than the limit, and
  otherwise the hold overflows and keeps nothing.
\<close>

theorem hold_exact:
  "crossingHoldLimit maxTokens = min MaxInt64 (crossingHoldFloor + crossingHoldBytesPerToken * max maxTokens 0)
   \<and> hold_of (crossingHoldLimit maxTokens) pieces =
      (if int (length (concat pieces)) > crossingHoldLimit maxTokens
       then \<lparr>hb_limit = crossingHoldLimit maxTokens, hb_buf = [], hb_over = True\<rparr>
       else \<lparr>hb_limit = crossingHoldLimit maxTokens, hb_buf = concat pieces, hb_over = False\<rparr>)"
proof
  show limit: "crossingHoldLimit maxTokens = min MaxInt64 (crossingHoldFloor + crossingHoldBytesPerToken * max maxTokens 0)"
    by (rule crossingHoldLimit_exact)
  have "0 \<le> crossingHoldLimit maxTokens"
    unfolding limit by (simp add: MaxInt64_def crossingHoldFloor_def crossingHoldBytesPerToken_def)
  then show "hold_of (crossingHoldLimit maxTokens) pieces =
      (if int (length (concat pieces)) > crossingHoldLimit maxTokens
       then \<lparr>hb_limit = crossingHoldLimit maxTokens, hb_buf = [], hb_over = True\<rparr>
       else \<lparr>hb_limit = crossingHoldLimit maxTokens, hb_buf = concat pieces, hb_over = False\<rparr>)"
    unfolding hold_of_def by (subst hold_fold) simp_all
qed

end
