(* ===== verification/Spec2Isabelle.thy ===== *)
theory Spec2Isabelle
  imports Budget_Slots Budget_Reducer LLM_Proxy
begin

text \<open>
  Kaalm is a Kubernetes operator with a gateway for AI agents, written in Go. Agents call
  language models only through the gateway. The gateway finds out who is calling, decides which
  provider and model the caller may use, holds the caller to budgets and rate limits, forwards
  the request to the provider or to a fallback, relays the answer and records what it cost.
  Gateway replicas share their spend through ConfigMaps; the operator's controller reduces these
  ConfigMaps and reports the spend in the provider's status. This development models that path,
  from the TLS peer certificate to the recorded spend, and the exchange behind it.

  \<^bold>\<open>The parts and their theories.\<close> All source paths are below \<^verbatim>\<open>src/\<close>; \<^verbatim>\<open>gateway/\<close> and
  \<^verbatim>\<open>controller/\<close> stand for \<^verbatim>\<open>internal/gateway/\<close> and \<^verbatim>\<open>internal/controller/\<close>.

  \<^item> \<open>Kaalm_Prelude\<close>, \<open>Go_Strconv\<close>, \<open>Go_Text\<close>, \<open>Go_Path\<close>, \<open>Go_Calendar\<close>: how Go values are read in
    HOL, and the parts of the Go library the code uses (maps, JSON values, \<^verbatim>\<open>strconv\<close>,
    \<^verbatim>\<open>path.Match\<close>, the calendar of \<^verbatim>\<open>time\<close>).
  \<^item> \<open>Api_Types\<close>: the resources of \<^verbatim>\<open>api/v1beta1\<close> as the modelled code reads them.
  \<^item> \<open>Budget_Period\<close>, \<open>Budget_Partial\<close>, \<open>Budget_Ledger\<close>, \<open>Budget_Enforce\<close>: \<^verbatim>\<open>gateway/budget.go\<close>, that is
    period keys, the published partial with its codec and fold, the ledger \<^verbatim>\<open>BudgetLedger\<close>
    with its operations (\<open>ledgerFor\<close>, \<open>Add\<close>, \<open>OwnPartial\<close>, \<open>MarkPublished\<close>, \<open>FoldPeers\<close>,
    \<open>WorkloadSpend\<close>), and the ceiling ratios with the policy ladder behind \<open>Enforce\<close>.
  \<^item> \<open>Budget_Hard\<close>: \<^verbatim>\<open>gateway/budget_hard.go\<close>, \<open>Admit\<close> with its admission slots and the settle.
  \<^item> \<open>Budget_Slots\<close>: the interleavings of these operations on one replica, as a step relation.
  \<^item> \<open>Budget_Exchange\<close>: \<^verbatim>\<open>BudgetPublisher\<close> of \<^verbatim>\<open>gateway/budget.go\<close> and
    \<^verbatim>\<open>gateway/budget_informer.go\<close>: \<open>publish\<close>, \<open>tick\<close>, the seed and the watch events.
  \<^item> \<open>Kube_Status\<close>, \<open>Budget_Reducer\<close>: \<^verbatim>\<open>controller/modelprovider_budget.go\<close> and
    \<^verbatim>\<open>controller/modelprovider_agentspend.go\<close>: the two reducers and the budget status.
  \<^item> \<open>Rate_Limiter\<close>: \<^verbatim>\<open>gateway/ratelimit.go\<close>.
  \<^item> \<open>Gateway_Auth\<close>: \<^verbatim>\<open>gateway/identity.go\<close>, \<^verbatim>\<open>auth.go\<close>, \<^verbatim>\<open>tokenauth.go\<close>, with the subject
    alternative names the controller puts into certificates.
  \<^item> \<open>Gateway_Routing\<close>: \<^verbatim>\<open>gateway/routing.go\<close>, the tenancy chain.
  \<^item> \<open>Fallback_Walk\<close>: \<^verbatim>\<open>gateway/fallback.go\<close>, the walk over the fallback tree.
  \<^item> \<open>Provider_Adapters\<close>: \<^verbatim>\<open>gateway/adapters.go\<close>, \<^verbatim>\<open>vertex.go\<close> and the header contract of
    \<^verbatim>\<open>proxy.go\<close>.
  \<^item> \<open>LLM_Proxy\<close>: \<^verbatim>\<open>gateway/proxy.go\<close>, the handler that composes the parts above.
  \<^item> This theory: the properties of a whole request.

  \<^bold>\<open>How state and effects correspond.\<close> A Go struct is a record with the struct's field names,
  and a method is a function from the record to the updated record. A critical section under
  the ledger's mutex is one step (\<open>withLedger\<close>). The clock, the replica count, the Kubernetes
  client and the providers' answers are arguments. A request carries the record \<open>proxy\<close> through
  the handler: the ledger, the rate buckets, the in-memory spend, and the log \<open>w_calls\<close> of what the
  request did (slots granted, providers called, slots settled, costs charged) in order. The
  world of a call may move the clock, end the caller's context and change the ledger in any way
  other requests could, so the theorems about a request hold beside any other traffic.

  \<^bold>\<open>What is shown.\<close>

  \<^item> A request (here and in \<open>LLM_Proxy\<close>, \<open>Fallback_Walk\<close>): the handler returns on every path with
    its slots settled once; it is charged at most once, for a provider it called; the walk
    ends, visits no provider twice and stays within the depth cap; every provider called was
    granted or eligible; every error is a row of the error table; a walk that no provider
    answered ends in a provider error; the hold of a translated answer is exact.
  \<^item> The ledger under interleaving (\<open>Budget_Slots\<close>, \<open>Budget_Hard\<close>, \<open>Budget_Ledger\<close>): one holder per
    slot, a slot is held exactly by a request in flight, workload rows sum to their namespace, a
    settle lands once, admission in the boundary region needs a fresh view and free slots,
    calls for a superseded provider are inert, and the exact effect of \<open>Add\<close>.
  \<^item> Decisions (\<open>Budget_Enforce\<close>, \<open>Budget_Period\<close>): the ladder selects the highest crossed threshold
    and is monotone in the spend, \<open>RetryAfter\<close> leads into the next period, and the period key changes
    exactly at \<open>nextPeriodStart\<close>.
  \<^item> The exchange (\<open>Budget_Partial\<close>, \<open>Budget_Exchange\<close>, \<open>Budget_Reducer\<close>): the codec round trip and the
    one namespace name that breaks it, the fold as a sum, the view of a replica within half a
    cent per peer of the cluster's total, what a failed list and a roll-over leave behind, and
    that a reducer pass keeps every live view and is idempotent.
  \<^item> Limits (\<open>Rate_Limiter\<close>): what n replicas admit together, \<open>RetryAfter\<close>, and the token debt.
  \<^item> Identity and routing (\<open>Gateway_Auth\<close>, \<open>Gateway_Routing\<close>): who is accepted, that issued
    certificates parse back, the soundness of the token cache, and that the chain grants exactly
    what the resources say without telling a stranger about models.
  \<^item> What leaves the gateway (\<open>Provider_Adapters\<close>): no credential of the caller and no hop-by-hop
    header, and a Vertex path that a model name cannot break out of.

  \<^bold>\<open>Interfaces.\<close> \<open>ledger_update\<close> and \<open>ledger_invariant\<close> are the contract of a critical section
  (recording, folding, reading, admitting and settling are its interpretations), and
  \<open>slot_neutral\<close> that of a section that takes and frees no slot. \<open>walk_attempt\<close> is what the walk relies on of an attempt;
  \<open>llmAttempt\<close> is its interpretation. \<open>spend_reducer\<close> is the contract of a reducer's walk over a
  ConfigMap, interpreted by both reducers. \<open>bucket_law\<close> is what the limiter relies on of one
  bucket's arithmetic.

  \<^bold>\<open>Fuel.\<close> Only the walk has fuel, because a fallback tree may be cyclic. The handler gives it
  \<open>Suc (nat maxDepth)\<close>. The walk descends only below a candidate it has counted in
  \<open>attemptCount\<close>, which stops at \<open>maxDepth\<close>; \<open>walk_terminates\<close> proves that any fuel above the cap
  gives a result.
  Other loops are structural or have a termination proof.

  \<^bold>\<open>Idealisations.\<close>

  \<^item> \<^verbatim>\<open>float64\<close> is \<open>rat\<close>: sums, prices and bucket levels are exact. Rounding to cents and
    truncation to whole numbers are modelled where the code does them.
  \<^item> \<^verbatim>\<open>int64\<close> values are \<open>int\<close>, except where the code guards against or relies on their width:
    the hold limit (\<open>crossingHoldLimit\<close>) and the percentages of the status (\<open>to_int32\<close>, which reads an
    out-of-range conversion as amd64 does).
  \<^item> JSON texts are compared as the values they denote, in the way \<^verbatim>\<open>json.Marshal\<close> writes them
    (\<open>alreadyStored\<close>). The \<^verbatim>\<open>exp\<close> claim of a JWT is the integer it denotes (\<open>exp_claim\<close>); a whole
    number spelled with a fraction or an exponent, which Go rejects, is not told apart.
  \<^item> In \<open>Budget_Slots\<close> the predicate \<open>known\<close> fixes, for the run, the name and the period scheme of each
    provider UID. Names are immutable in Kubernetes. The scheme is a spec field: after an edit to
    another scheme and back within one period the ledger is reset although an old ticket
    carries the current key again, so the count of holders is stated for a fixed scheme.
  \<^item> Slot tokens are 64-bit words. An admission step of \<open>Budget_Slots\<close> assumes that the provider's
    counter has not reached its last value (\<open>tokens_left\<close>).
  \<^item> The properties of a whole request assume a gateway with a budget ledger (\<open>srv_Budget\<close>), as
    \<^verbatim>\<open>NewServer\<close> builds it.
  \<^item> Strings are byte lists; \<open>Match\<close> works on single-byte characters.

  \<^bold>\<open>Not modelled.\<close> Arguments of the handler, with their results unconstrained: the byte-level
  scanner and rewriter of request bodies (\<^verbatim>\<open>gateway/requestbody.go\<close>), the incremental usage
  reader (\<^verbatim>\<open>usagescan.go\<close>), the translation between formats (\<^verbatim>\<open>internal/llmtranslate\<close>), Google
  tokens (\<^verbatim>\<open>internal/gcpauth\<close>), TLS, SHA-256 and the TokenReview API. The lazily cached decoding of the
  body, \<^verbatim>\<open>walkState.request\<close>, is its value \<open>st_request\<close>. Left out because no modelled code depends on them: metrics, spans,
  logs, buffer pools; the MCP broker; the channels of the user plane; the console; the agent
  runtime; the reconcilers of Agents, AgentTasks, AgentChannels, AgentClasses and ToolProviders
  and the rest of the ModelProvider reconciler; storage migration; process start-up in \<^verbatim>\<open>cmd\<close>;
  and the code that only tests use.
\<close>

subsection \<open>A request that falls back\<close>

text \<open>
  The provider \<^verbatim>\<open>claude\<close> is inside its boundary region, degrades the model and grants a
  slot; it answers 500, and \<^verbatim>\<open>backup\<close> answers 200.
\<close>

definition demo_backup :: ModelProvider where
  "demo_backup = demo_provider\<lparr>Name := ''backup'', UID := ''u2'', Spec := (Spec demo_provider)\<lparr>Budget := \<lparr>Period = ''none'',
     PerNamespaceUSD = [], Policies = [], ClusterUSD = None, Enforcement = ''soft'', Hard = None\<rparr>\<rparr>\<rparr>"

definition demo_primary :: ModelProvider where
  "demo_primary = demo_provider\<lparr>Spec := (Spec demo_provider)\<lparr>Fallback := [\<lparr>ref_Name = ''backup'', ModelMap = []\<rparr>]\<rparr>\<rparr>"

definition demo_env :: proxyEnv where
  "demo_env = \<lparr>
     pe_server = \<lparr>srv_Store = \<lparr>AgentByName = (\<lambda>ns n. None), TaskByName = (\<lambda>ns n. None), ClassByName = (\<lambda>n. None),
         ProviderByName = map_of [(''claude'', demo_primary), (''backup'', demo_backup)]\<rparr>,
       srv_Recorder = True, srv_Budget = True, srv_translate = (\<lambda>from to body model max. Inl ''no translation'')\<rparr>,
     pe_ops = \<lparr>bo_valid = (\<lambda>b. True), bo_scan = (\<lambda>b. Inr \<lparr>rf_model = ''claude/opus'', rf_streamTrue = False\<rparr>),
       bo_rewrite = (\<lambda>b f m force. b), bo_decode = (\<lambda>b. None), bo_encode = (\<lambda>j. None), bo_maxTokens = (\<lambda>j. None)\<rparr>,
     pe_maxBody = 4194304, pe_maxDepth = 3, pe_unmarshal = (\<lambda>t. None), pe_marshal = (\<lambda>j. []),
     pe_usage = (\<lambda>a pieces. noUsage\<lparr>InputTokens := 2000, OutputTokens := 400\<rparr>),
     pe_error = (\<lambda>from to b. b), pe_response = (\<lambda>from to b. Inr b),
     pe_stream = (\<lambda>from to m. \<lparr>tr_feed = (\<lambda>seen line. [line]), tr_finish = (\<lambda>seen. [])\<rparr>)\<rparr>"

definition demo_attempt :: "int \<Rightarrow> attemptWorld" where
  "demo_attempt n = \<lparr>aw_credential = Inr ''secret'', aw_token = Inl (TokenFailed []), aw_requestErr = None,
     aw_do = Inr \<lparr>StatusCode = (if n = 1 then 500 else 200), resp_Header = [], ContentLength = 0\<rparr>,
     aw_body = [], aw_readErr = None, aw_leftAtRead = False, aw_left = False, aw_now = n * second, aw_others = (\<lambda>b. b)\<rparr>"

definition demo_relay :: relayWorld where
  "demo_relay = \<lparr>rw_pieces = [''{}''], rw_readErr = None, rw_writeErr = None, rw_writes = (\<lambda>n. True), rw_ctxErr = False,
     rw_now = 3 * second, rw_others = (\<lambda>b. b)\<rparr>"

definition demo_inbound :: llmRequest where
  "demo_inbound = \<lparr>lr_caller = \<lparr>cl_Namespace = ''team-a'', cl_Workload = None\<rparr>, lr_path = ''/v1/messages'', lr_header = [],
     lr_body = BodyRead ''{}''\<rparr>"

definition demo_proxy :: "BudgetLedger \<Rightarrow> proxy" where
  "demo_proxy b = \<lparr>px_walk = \<lparr>st_primary = demo_primary, st_namespace = [], st_workload = [], st_modelID = [], attemptCount = 0, maxDepth = 0,
       visited = {}, observed = {}, maxRetryAfter = 0, budgetBlocked = False, primarySettle = None, st_request = None,
       inboundFormat = [], modelFor = [], translated = [],
       w_ledger = b, w_now = 0, w_replicas = None, w_ctxErr = False, w_settled = [], w_calls = []\<rparr>,
     px_spend = [], px_buckets = [], px_replicas = 1\<rparr>"


definition demo_plain :: proxyEnv where
  "demo_plain = demo_env\<lparr>pe_usage := (\<lambda>a pieces. noUsage),
     pe_server := (pe_server demo_env)\<lparr>srv_Store := (srv_Store (pe_server demo_env))\<lparr>ProviderByName := map_of
       [(''claude'', demo_backup\<lparr>Name := ''claude'', Spec := (Spec demo_backup)\<lparr>Fallback := Fallback (Spec demo_primary),
           RateLimits := \<lparr>RequestsPerMinute = 0, TokensPerMinute = 0\<rparr>\<rparr>\<rparr>),
        (''backup'', demo_backup)]\<rparr>\<rparr>\<rparr>"

definition demo_start :: walk where
  "demo_start = startWalk demo_env demo_backup ''team-a'' ''agent/a'' ''haiku'' None [] ''anthropic'' (px_walk (demo_proxy NewBudgetLedger))"

definition demo_call :: llmCall where
  "demo_call = \<lparr>lc_header = [], lc_path = ''/v1/messages'', lc_body = [], lc_adapter = anthropicAdapter, lc_typeAdapter = anthropicAdapter\<rparr>"

definition demo_failing :: "int \<Rightarrow> attemptWorld" where
  "demo_failing n = (demo_attempt n)\<lparr>aw_do := Inl (DoTimeout ''deadline'')\<rparr>"

lemmas demo_defs = demo_proxy_def demo_env_def demo_plain_def

lemma demo_served: "\<exists>px' answer. handleLLMProxy demo_env demo_attempt demo_relay demo_inbound (demo_proxy demo_hard) = Some (px', answer)"
  using handled_request [of "demo_proxy demo_hard" demo_env demo_attempt demo_relay demo_inbound] by (simp add: demo_defs) blast

lemma demo_run:
  "map_option (\<lambda>(px, answer). (map (\<lambda>a. (Name (fst a), snd a)) (px_attempts px), px_charges px))
     (handleLLMProxy demo_plain demo_attempt demo_relay demo_inbound (demo_proxy NewBudgetLedger))
   = Some ([(''claude'', ''opus''), (''backup'', ''opus'')], [])"
  by code_simp

lemma demo_refused:
  "map_option (\<lambda>(px, answer). case answer of ErrorAnswer e \<Rightarrow> Some (he_Status e) | _ \<Rightarrow> None)
     (handleLLMProxy demo_plain demo_failing demo_relay demo_inbound (demo_proxy NewBudgetLedger)) = Some (Some 504)"
  by code_simp

lemma demo_exhausts:
  "map_option (\<lambda>(st, res, ok). (ok, observed st))
     (tryWithFallbacks (Suc 3) (pe_server demo_env) (llmAttempt (pe_ops demo_env) demo_failing demo_call) (st_primary demo_start) demo_start)
   = Some (False, {classTimeout})"
  by code_simp

lemma demo_started: "started s demo_start" "maxDepth demo_start = 3"
  by (simp_all add: demo_start_def startWalk_def demo_defs started_def contacted_def primary_ticket_def)

subsection \<open>Properties of a request\<close>

text \<open>
  C1. A request keeps no admission slot. On every path of the proxy handler, from a body that does
  not parse to a caller that leaves in the middle of a relay, the handler returns (it never
  dereferences a missing response and never runs out of walk), every slot it was granted is
  settled by then, none twice, and while a provider is called no slot of another is held.
\<close>

theorem request_settles:
  assumes "w_calls (px_walk px) = []" "w_settled (px_walk px) = []" "srv_Budget (pe_server env)"
  shows "\<exists>px' answer. handleLLMProxy env world relay rq px = Some (px', answer)
    \<and> held_after [] (w_calls (px_walk px')) = [] \<and> exclusive [] (w_calls (px_walk px'))
    \<and> distinct (settles (w_calls (px_walk px')))"
  using handled_request [OF assms, of world relay rq] unfolding slots_def by metis

theorem request_settles_witness:
  "\<exists>px' answer. handleLLMProxy demo_env demo_attempt demo_relay demo_inbound (demo_proxy demo_hard) = Some (px', answer)
    \<and> held_after [] (w_calls (px_walk px')) = [] \<and> exclusive [] (w_calls (px_walk px'))
    \<and> distinct (settles (w_calls (px_walk px')))"
  by (rule request_settles) (simp_all add: demo_defs)

text \<open>
  C2. A request is charged at most once, to a provider it called and at the price of the model it
  was called with, on whatever path it ends.
\<close>

theorem request_charged_once:
  assumes "w_calls (px_walk px) = []" "w_settled (px_walk px) = []" "srv_Budget (pe_server env)"
    and "handleLLMProxy env world relay rq px = Some (px', answer)"
  shows "charges (w_calls (px_walk px')) = []
    \<or> (\<exists>q m m' u. (q, m) \<in> set (attempts (w_calls (px_walk px'))) \<and> (m \<noteq> [] \<longrightarrow> m' = m)
        \<and> charges (w_calls (px_walk px')) = [(Name q, costOf q m' u)])"
proof -
  obtain px'' ans where h: "handleLLMProxy env world relay rq px = Some (px'', ans)"
    "charge_ok (px_attempts px'') (px_charges px'')"
    using handled_request [OF assms(1-3), of world relay rq] by metis
  then have "px'' = px'" using assms(4) by simp
  then show ?thesis using h(2) unfolding charge_ok_def by blast
qed

theorem request_charged_once_witness:
  "\<exists>px' answer. handleLLMProxy demo_env demo_attempt demo_relay demo_inbound (demo_proxy demo_hard) = Some (px', answer)
    \<and> length (charges (w_calls (px_walk px'))) \<le> 1"
proof -
  obtain px' answer where h: "handleLLMProxy demo_env demo_attempt demo_relay demo_inbound (demo_proxy demo_hard) = Some (px', answer)"
    using demo_served by blast
  have "length (charges (w_calls (px_walk px'))) \<le> 1"
    using request_charged_once [OF _ _ _ h] by (auto simp: demo_defs)
  then show ?thesis using h by blast
qed

text \<open>
  C34. What a request may call. It calls at most \<^verbatim>\<open>maxFallbackDepth\<close> providers, none twice; and
  if it calls any, the tenancy chain granted it a provider, and each one it called is that
  provider or one of the store, of a compatible format, allows the caller's namespace and offers
  the model it was called with.
\<close>

theorem request_calls:
  assumes "w_calls (px_walk px) = []" "w_settled (px_walk px) = []" "srv_Budget (pe_server env)"
    and "handleLLMProxy env world relay rq px = Some (px', answer)"
    and "called = attempts (w_calls (px_walk px'))"
  shows "distinct (map (\<lambda>a. Name (fst a)) called) \<and> int (length called) \<le> max 0 (pe_maxDepth env)
    \<and> (called = [] \<or> (\<exists>provider n m format. authorizeRoute (srv_Store (pe_server env)) (lr_caller rq) n m = Inr provider
        \<and> (\<forall>a \<in> set called. eligible (pe_server env) provider (cl_Namespace (lr_caller rq)) format (fst a) (snd a))))"
proof -
  obtain px'' ans where h: "handleLLMProxy env world relay rq px = Some (px'', ans)"
    "px_attempts px'' = [] \<or> (\<exists>provider n m. authorizeRoute (srv_Store (pe_server env)) (lr_caller rq) n m = Inr provider
       \<and> called_ok env provider (cl_Namespace (lr_caller rq)) (px_attempts px''))"
    using handled_request [OF assms(1-3), of world relay rq] by metis
  then have "px'' = px'" using assms(4) by simp
  then show ?thesis using h(2) assms(5) unfolding called_ok_def by force
qed

theorem request_calls_witness:
  "\<exists>px' answer called. handleLLMProxy demo_plain demo_attempt demo_relay demo_inbound (demo_proxy NewBudgetLedger) = Some (px', answer)
    \<and> called = attempts (w_calls (px_walk px'))
    \<and> map (\<lambda>a. (Name (fst a), snd a)) called = [(''claude'', ''opus''), (''backup'', ''opus'')]
    \<and> (\<exists>provider n m format. authorizeRoute (srv_Store (pe_server demo_plain)) (lr_caller demo_inbound) n m = Inr provider
        \<and> (\<forall>a \<in> set called. eligible (pe_server demo_plain) provider ''team-a'' format (fst a) (snd a)))"
proof -
  obtain px' answer where h: "handleLLMProxy demo_plain demo_attempt demo_relay demo_inbound (demo_proxy NewBudgetLedger) = Some (px', answer)"
    and c: "map (\<lambda>a. (Name (fst a), snd a)) (px_attempts px') = [(''claude'', ''opus''), (''backup'', ''opus'')]"
    using demo_run by (auto simp: map_option_case split: option.splits)
  have ns: "cl_Namespace (lr_caller demo_inbound) = ''team-a''" by (simp add: demo_inbound_def)
  have "px_attempts px' \<noteq> []" using c by auto
  then show ?thesis
    using h c request_calls [OF _ _ _ h refl] unfolding ns by (auto simp: demo_defs)
qed

text \<open>
  C35. What the proxy answers. Every error of its own is a row of its error table: the status, the
  type, whether it is retryable and whether it carries a \<^verbatim>\<open>Retry-After\<close>. An answer relayed
  as JSON or as a stream has a 2xx status; one relayed whole has a 2xx status, or is a provider's
  4xx other than 401, 403 and 429, which make the walk fall back. The documented table has one row
  more, a retryable \<^verbatim>\<open>budget_exhausted\<close> for a walk that met only throttles: it never arises.
\<close>

theorem error_answers:
  assumes "w_calls (px_walk px) = []" "w_settled (px_walk px) = []" "srv_Budget (pe_server env)"
    and "handleLLMProxy env world relay rq px = Some (px', answer)"
  shows "case answer of
      ErrorAnswer e \<Rightarrow> (he_Status e, eb_Type (he_Body e), eb_Retryable (he_Body e), he_RetryAfter e \<noteq> None) \<in>
        {(400, ''invalid_request'', False, False), (403, ''access_denied'', False, False),
         (413, ''request_too_large'', False, False), (429, ''rate_limited'', True, True), (429, ''budget_exhausted'', False, True),
         (429, ''budget_throttled'', True, True), (502, ''provider_error'', False, False), (503, ''provider_unavailable'', False, False),
         (503, ''budget_state_unavailable'', True, True), (504, ''provider_timeout'', False, False)}
    | JSONAnswer status h truncated \<Rightarrow> 200 \<le> status \<and> status \<le> 299
    | StreamAnswer status h lines \<Rightarrow> 200 \<le> status \<and> status \<le> 299
    | VerbatimAnswer status h body \<Rightarrow>
        200 \<le> status \<and> status \<le> 299 \<or> 400 \<le> status \<and> status \<le> 499 \<and> status \<notin> {401, 403, 429}
    | NoAnswer \<Rightarrow> True"
proof -
  obtain px'' ans where h: "handleLLMProxy env world relay rq px = Some (px'', ans)" "answer_ok ans"
    using handled_request [OF assms(1-3), of world relay rq] by metis
  then have ok: "answer_ok answer" using assms(4) by simp
  show ?thesis
  proof (cases answer)
    case (VerbatimAnswer status h body)
    then show ?thesis using ok by (auto simp: isFallbackable_def split: if_splits)
  qed (use ok in \<open>simp_all only: answer_ok.simps proxyResponse.case error_row_def error_rows_def errInvalidRequest_def
      errAccessDenied_def errRequestTooLarge_def errRateLimited_def errBudgetExhausted_def errBudgetThrottled_def
      errProviderError_def errProviderUnavailable_def errBudgetUnavailable_def errProviderTimeout_def\<close>)
qed

theorem error_answers_witness:
  "\<exists>px' e. handleLLMProxy demo_plain demo_failing demo_relay demo_inbound (demo_proxy NewBudgetLedger) = Some (px', ErrorAnswer e)
    \<and> he_Status e = 504 \<and> eb_Type (he_Body e) = ''provider_timeout'' \<and> \<not> eb_Retryable (he_Body e) \<and> he_RetryAfter e = None"
proof -
  obtain px' e where h: "handleLLMProxy demo_plain demo_failing demo_relay demo_inbound (demo_proxy NewBudgetLedger) = Some (px', ErrorAnswer e)"
    and status: "he_Status e = 504"
    using demo_refused by (auto simp: map_option_case split: option.splits proxyResponse.splits)
  have "(he_Status e, eb_Type (he_Body e), eb_Retryable (he_Body e), he_RetryAfter e \<noteq> None) = (504, ''provider_timeout'', False, False)"
    using error_answers [OF _ _ _ h] status by (simp add: demo_defs)
  then show ?thesis using h by auto
qed

text \<open>
  C3. The walk over the fallback tree ends, with the recursion no deeper than the depth cap,
  whatever the tree looks like (the references may form cycles) and whatever the providers
  answer: it calls no provider twice and none beyond the cap, and a result it reports as final
  has a response of a provider that was called, unless the caller left.
\<close>

theorem walk_terminates:
  assumes "started s st" "nat (maxDepth st) \<le> fuel"
  shows "\<exists>st' res ok. tryWithFallbacks (Suc fuel) s (llmAttempt ops world call) (st_primary st) st = Some (st', res, ok)
    \<and> distinct (contacted st') \<and> int (length (contacted st')) \<le> max 0 (maxDepth st)
    \<and> (ok \<and> \<not> w_ctxErr st' \<longrightarrow> (\<exists>resp q. fr_resp res = Some resp \<and> fr_chosen res = Some q \<and> Name q \<in> set (contacted st')))"
proof -
  obtain st' res ok h' where w: "tryWithFallbacks (Suc fuel) s (llmAttempt ops world call) (st_primary st) st = Some (st', res, ok)"
    "walk_ok st'" "walked s (tickets (primarySettle st)) st st' h'" "ok \<longrightarrow> sound_result st' res"
    using llm.walk_total [OF assms, of ops world call] by metis
  have "attemptCount st' \<le> max 0 (maxDepth st)"
    using w(3) keptD(7) assms(1) unfolding walked_def started_def by metis
  then have "int (length (contacted st')) \<le> max 0 (maxDepth st)" "distinct (contacted st')"
    using w(2) unfolding walk_ok_def by linarith+
  moreover have "\<exists>resp q. fr_resp res = Some resp \<and> fr_chosen res = Some q \<and> Name q \<in> set (contacted st')" if "ok" "\<not> w_ctxErr st'"
    using that w(4) unfolding sound_result_def contacted_def by force
  ultimately show ?thesis using w(1) by blast
qed

theorem walk_terminates_witness:
  "\<exists>st' res ok. tryWithFallbacks (Suc 3) (pe_server demo_env) (llmAttempt (pe_ops demo_env) demo_attempt demo_call)
      (st_primary demo_start) demo_start = Some (st', res, ok) \<and> distinct (contacted st') \<and> length (contacted st') \<le> 3"
  using walk_terminates [OF demo_started(1), of 3 "pe_server demo_env" "pe_ops demo_env" demo_attempt demo_call] demo_started(2) by force

text \<open>
  C36. A walk that no provider answered ends in a provider error, never in a budget error: the
  primary was admitted before the walk and is always called first, so the classes the walk
  recorded are never only budget classes. The error is not retryable and carries no
  \<^verbatim>\<open>Retry-After\<close>.
\<close>

theorem exhaustion_never_budget:
  assumes "started s st" "nat (maxDepth st) \<le> fuel"
    and "tryWithFallbacks (Suc fuel) s (llmAttempt ops world call) (st_primary st) st = Some (st', res, False)"
    and "exhaustionError (observed st') retryAfter blocked n = (status, eb, wait)"
  shows "(status, eb_Type eb) \<in> {(503, errProviderUnavailable), (504, errProviderTimeout), (502, errProviderError)}
    \<and> \<not> eb_Retryable eb \<and> wait = 0"
proof -
  have "observed st' = {} \<or> observed st' \<inter> {classConnect, classTimeout, classUpstream} \<noteq> {}"
    using llm.walk_total [OF assms(1,2), of ops world call] assms(3) by (metis option.inject prod.inject)
  then show ?thesis using exhaustion_cases assms(4) by blast
qed

theorem exhaustion_never_budget_witness:
  "\<exists>st' res. tryWithFallbacks (Suc 3) (pe_server demo_env) (llmAttempt (pe_ops demo_env) demo_failing demo_call)
      (st_primary demo_start) demo_start = Some (st', res, False)
    \<and> eb_Type (fst (snd (exhaustionError (observed st') 5 False ''claude''))) \<in> {errProviderUnavailable, errProviderTimeout, errProviderError}"
proof -
  obtain st' res where t: "tryWithFallbacks (Suc 3) (pe_server demo_env) (llmAttempt (pe_ops demo_env) demo_failing demo_call)
      (st_primary demo_start) demo_start = Some (st', res, False)"
    using demo_exhausts by (auto simp: map_option_case split: option.splits)
  obtain status eb wait where e: "exhaustionError (observed st') 5 False ''claude'' = (status, eb, wait)" by (metis surj_pair)
  have "nat (maxDepth demo_start) \<le> 3" using demo_started(2) by simp
  from exhaustion_never_budget [OF demo_started(1) this t e] show ?thesis using t e by auto
qed

end
